(* ===== verification/Prelude.thy ===== *)
theory Prelude
  imports Main "HOL-Library.Product_Lexorder"
begin

section \<open>Prelude: strings, results, rows and pages\<close>

text \<open>
  What every component shares.  A Python \<open>str\<close> is the list of its code points
  (\<open>ustr\<close>); \<open>lit\<close> writes an ASCII literal.  Exceptions are \<open>Inl\<close> values of a
  sum.  A database table is the list of its rows; \<open>upd_where\<close>, \<open>filter\<close> and
  \<open>find\<close> are the row-level meaning of \<open>UPDATE ... WHERE\<close>, \<open>DELETE ... WHERE\<close>
  and \<open>SELECT ... WHERE\<close>, and \<open>sort_key\<close> that of \<open>ORDER BY\<close>.  UUIDs are natural
  numbers below \<open>2 ^ 128\<close> read as \<open>nat\<close>; times are microseconds, an \<open>int\<close>.
\<close>

named_theorems row_simps \<open>facts about row updates, used with simp add:\<close>

type_synonym ustr = "nat list"
type_synonym uuid = nat
type_synonym time = int

definition lit :: "string \<Rightarrow> ustr" where
  "lit s = map of_char s"

subsection \<open>Python string operations\<close>

text \<open>The code points \<open>str.strip()\<close> removes (\<open>str.isspace\<close>).\<close>

definition py_space :: "nat \<Rightarrow> bool" where
  "py_space c \<longleftrightarrow> (9 \<le> c \<and> c \<le> 13) \<or> (28 \<le> c \<and> c \<le> 32) \<or> c = 133 \<or> c = 160 \<or> c = 5760
     \<or> (8192 \<le> c \<and> c \<le> 8202) \<or> c = 8232 \<or> c = 8233 \<or> c = 8239 \<or> c = 8287 \<or> c = 12288"

definition py_strip :: "ustr \<Rightarrow> ustr" where
  "py_strip s = rev (dropWhile py_space (rev (dropWhile py_space s)))"

fun starts_with :: "'a list \<Rightarrow> 'a list \<Rightarrow> bool" where
  "starts_with [] s = True"
| "starts_with (p # ps) [] = False"
| "starts_with (p # ps) (x # xs) = (p = x \<and> starts_with ps xs)"

text \<open>The \<open>in\<close> operator on strings and byte strings.\<close>

fun contains :: "'a list \<Rightarrow> 'a list \<Rightarrow> bool" where
  "contains p [] = (p = [])"
| "contains p (x # xs) = (starts_with p (x # xs) \<or> contains p xs)"

text \<open>\<open>s.split(c)\<close> for a one-character separator: always at least one piece.\<close>

fun split_on :: "'a \<Rightarrow> 'a list \<Rightarrow> 'a list list" where
  "split_on c [] = [[]]"
| "split_on c (x # xs) =
     (if x = c then [] # split_on c xs
      else case split_on c xs of [] \<Rightarrow> [[x]] | y # ys \<Rightarrow> (x # y) # ys)"

text \<open>\<open>sep.join(pieces)\<close>.\<close>

fun join :: "'a list \<Rightarrow> 'a list list \<Rightarrow> 'a list" where
  "join sep [] = []"
| "join sep [x] = x"
| "join sep (x # y # zs) = x @ sep @ join sep (y # zs)"

text \<open>\<open>s.rfind(c)\<close>: the last index, or -1.\<close>

definition rfind :: "'a \<Rightarrow> 'a list \<Rightarrow> int" where
  "rfind c s = int (length s) - 1 - int (length (takeWhile (\<lambda>x. x \<noteq> c) (rev s)))"

lemma starts_with_iff: "starts_with p s \<longleftrightarrow> (\<exists>t. s = p @ t)"
  by (induction p s rule: starts_with.induct) auto

lemma starts_with_append [simp]: "starts_with p (p @ s)"
  by (auto simp: starts_with_iff)

lemma contains_iff: "contains p s \<longleftrightarrow> (\<exists>a b. s = a @ p @ b)"
proof (induction s)
  case Nil
  then show ?case by auto
next
  case (Cons x xs)
  show ?case
  proof
    assume "contains p (x # xs)"
    then consider "starts_with p (x # xs)" | "contains p xs" by auto
    then show "\<exists>a b. x # xs = a @ p @ b"
    proof cases
      case 1
      then obtain t where "x # xs = [] @ p @ t" by (auto simp: starts_with_iff)
      then show ?thesis by blast
    next
      case 2
      with Cons.IH obtain a b where "xs = a @ p @ b" by blast
      then have "x # xs = (x # a) @ p @ b" by simp
      then show ?thesis by blast
    qed
  next
    assume "\<exists>a b. x # xs = a @ p @ b"
    then obtain a b where ab: "x # xs = a @ p @ b" by blast
    show "contains p (x # xs)"
    proof (cases a)
      case Nil
      with ab have "starts_with p (x # xs)" by (auto simp: starts_with_iff)
      then show ?thesis by simp
    next
      case (Cons y ys)
      with ab have "xs = ys @ p @ b" by simp
      with Cons.IH show ?thesis by auto
    qed
  qed
qed

lemma split_on_nonempty [simp]: "split_on c s \<noteq> []"
  by (induction s) (auto split: list.splits)

lemma split_on_no_sep: "c \<notin> set s \<Longrightarrow> split_on c s = [s]"
  by (induction s) auto

lemma split_on_append: "c \<notin> set a \<Longrightarrow> split_on c (a @ c # b) = a # split_on c b"
  by (induction a) auto

lemma split_on_join:
  "\<lbrakk>gs \<noteq> []; \<forall>g \<in> set gs. c \<notin> set g\<rbrakk> \<Longrightarrow> split_on c (join [c] gs) = gs"
proof (induction "[c]" gs rule: join.induct)
  case (2 x)
  then show ?case by (simp add: split_on_no_sep)
next
  case (3 x y zs)
  then show ?case by (simp add: split_on_append)
qed simp

lemma set_join: "set (join sep gs) \<subseteq> set sep \<union> \<Union> (set ` set gs)"
  by (induction sep gs rule: join.induct) auto

lemma filter_join: "\<forall>g \<in> set gs. c \<notin> set g \<Longrightarrow> filter (\<lambda>x. x \<noteq> c) (join [c] gs) = concat gs"
proof (induction "[c]" gs rule: join.induct)
  case (2 x)
  then show ?case by (auto simp: filter_id_conv)
next
  case (3 x y zs)
  then show ?case by (auto simp: filter_id_conv)
qed simp

lemma sep_in_join: "2 \<le> length gs \<Longrightarrow> c \<in> set (join [c] gs)"
  by (cases "([c], gs)" rule: join.cases) auto

lemma py_strip_trim:
  "\<lbrakk>s \<noteq> []; \<not> py_space (hd s); \<not> py_space (last s)\<rbrakk> \<Longrightarrow> py_strip s = s"
proof -
  assume a: "s \<noteq> []" "\<not> py_space (hd s)" "\<not> py_space (last s)"
  from a(1,2) have 1: "dropWhile py_space s = s" by (cases s) auto
  from a(1,3) have 2: "dropWhile py_space (rev s) = rev s" by (cases s rule: rev_cases) auto
  show ?thesis by (simp add: py_strip_def 1 2)
qed

subsection \<open>Rows\<close>

definition upd_where :: "('r \<Rightarrow> bool) \<Rightarrow> ('r \<Rightarrow> 'r) \<Rightarrow> 'r list \<Rightarrow> 'r list" where
  "upd_where p f rs = map (\<lambda>r. if p r then f r else r) rs"

lemma upd_where_Nil [simp]: "upd_where p f [] = []"
  by (simp add: upd_where_def)

lemma upd_where_Cons [simp]: "upd_where p f (r # rs) = (if p r then f r else r) # upd_where p f rs"
  by (simp add: upd_where_def)

lemma upd_where_append [simp]: "upd_where p f (xs @ ys) = upd_where p f xs @ upd_where p f ys"
  by (simp add: upd_where_def)

lemma length_upd_where [simp]: "length (upd_where p f rs) = length rs"
  by (simp add: upd_where_def)

lemma set_upd_where: "set (upd_where p f rs) = (\<lambda>r. if p r then f r else r) ` set rs"
  by (simp add: upd_where_def)

lemma map_upd_where [row_simps]:
  "(\<And>r. p r \<Longrightarrow> k (f r) = k r) \<Longrightarrow> map k (upd_where p f rs) = map k rs"
  by (induction rs) auto

lemma upd_where_none [row_simps]: "(\<And>r. r \<in> set rs \<Longrightarrow> \<not> p r) \<Longrightarrow> upd_where p f rs = rs"
  by (induction rs) auto

lemma filter_upd_where:
  "(\<And>r. p r \<Longrightarrow> q (f r) = q r) \<Longrightarrow> filter q (upd_where p f rs) = upd_where p f (filter q rs)"
  by (induction rs) auto

lemma find_upd_where_other:
  "(\<And>r. p r \<Longrightarrow> \<not> q r \<and> \<not> q (f r)) \<Longrightarrow> find q (upd_where p f rs) = find q rs"
  by (induction rs) auto

lemma find_Some_in: "find p xs = Some x \<Longrightarrow> x \<in> set xs \<and> p x"
  by (induction xs) (auto split: if_splits)

lemma find_unique:
  "\<lbrakk>distinct (map k rs); r \<in> set rs\<rbrakk> \<Longrightarrow> find (\<lambda>x. k x = k r) rs = Some r"
  by (induction rs) force+

lemma find_unique_where:
  "\<lbrakk>distinct (map k rs); r \<in> set rs; P r\<rbrakk> \<Longrightarrow> find (\<lambda>x. k x = k r \<and> P x) rs = Some r"
  by (induction rs) force+

lemma find_upd_where:
  "(\<And>r. p r \<Longrightarrow> q (f r) = q r) \<Longrightarrow>
   find q (upd_where p f rs) = map_option (\<lambda>r. if p r then f r else r) (find q rs)"
  by (induction rs) auto

lemma find_append: "find p (xs @ ys) = (case find p xs of Some x \<Rightarrow> Some x | None \<Rightarrow> find p ys)"
  by (induction xs) auto

lemma find_None_set: "find p xs = None \<longleftrightarrow> (\<forall>x \<in> set xs. \<not> p x)"
  by (induction xs) auto

text \<open>The rows of one key among those of the other keys.\<close>

lemma filter_key_other: "i \<noteq> j \<Longrightarrow> filter (\<lambda>x. k x = i) xs = filter (\<lambda>x. k x = i) (filter (\<lambda>x. k x \<noteq> j) xs)"
  by (induction xs) auto

lemma find_key_other: "i \<noteq> j \<Longrightarrow> find (\<lambda>x. k x = i) xs = find (\<lambda>x. k x = i) (filter (\<lambda>x. k x \<noteq> j) xs)"
  by (induction xs) auto

lemma distinct_map_filterI: "distinct (map k rs) \<Longrightarrow> distinct (map k (filter p rs))"
  by (induction rs) auto

subsection \<open>Results\<close>

text \<open>Sequencing computations that may raise.\<close>

fun bindE :: "'e + 'a \<Rightarrow> ('a \<Rightarrow> 'e + 'b) \<Rightarrow> 'e + 'b" where
  "bindE (Inl e) f = Inl e"
| "bindE (Inr x) f = f x"

lemma bindE_Inr [simp]: "bindE m f = Inr y \<longleftrightarrow> (\<exists>x. m = Inr x \<and> f x = Inr y)"
  by (cases m) auto

lemma bindE_Inl [simp]: "bindE m f = Inl e \<longleftrightarrow> m = Inl e \<or> (\<exists>x. m = Inr x \<and> f x = Inl e)"
  by (cases m) auto

text \<open>What a route handler answers: a status with a body, or an \<open>HTTPException\<close>.\<close>

datatype 'a http = Response nat 'a | HttpError nat

fun http_status :: "'a http \<Rightarrow> nat" where
  "http_status (Response c x) = c"
| "http_status (HttpError c) = c"

subsection \<open>Pages of a listing\<close>

text \<open>
  Every listing of the code asks the database for \<open>limit + 1\<close> rows after \<open>offset\<close>,
  keeps \<open>limit\<close> of them and reports \<open>has_more\<close> when the extra row came back.
\<close>

record 'r page =
  items :: "'r list"
  page_limit :: nat
  page_offset :: nat
  has_more :: bool

text \<open>\<open>LIMIT l OFFSET o\<close>.\<close>

definition limit_offset :: "nat \<Rightarrow> nat \<Rightarrow> 'r list \<Rightarrow> 'r list" where
  "limit_offset l off rs = take l (drop off rs)"

definition page_of :: "'r list \<Rightarrow> nat \<Rightarrow> nat \<Rightarrow> 'r page" where
  "page_of rs lim off = (let rows = limit_offset (lim + 1) off rs in
     \<lparr>items = take lim rows, page_limit = lim, page_offset = off, has_more = length rows > lim\<rparr>)"

lemma page_of_items: "items (page_of rs lim off) = take lim (drop off rs)"
  by (simp add: page_of_def limit_offset_def Let_def min_def)

lemma page_of_has_more: "has_more (page_of rs lim off) \<longleftrightarrow> off + lim < length rs"
  by (auto simp: page_of_def limit_offset_def Let_def)

text \<open>Following the pages of a listing from any offset enumerates what is left of it.\<close>

lemma page_of_split:
  "drop off rs = items (page_of rs lim off) @ drop (off + lim) rs"
  by (metis add.commute append_take_drop_id drop_drop page_of_items)

lemma page_of_last: "\<not> has_more (page_of rs lim off) \<Longrightarrow> items (page_of rs lim off) = drop off rs"
  by (simp add: page_of_items page_of_has_more)

lemma set_map_filter: "set (List.map_filter f xs) = {y. \<exists>x \<in> set xs. f x = Some y}"
  by (induction xs) (auto simp: List.map_filter_simps split: option.splits)

end
