(* ===== verification/Money.thy ===== *)
theory Money
  imports Complex_Main Prelude
begin

section \<open>Money tools: parsing, comparing, VAT, tax codes\<close>

text \<open>
  \<open>doci/tools/parse_money.py\<close>, \<open>compare_amount.py\<close>, \<open>check_vat.py\<close> and
  \<open>validate_tax_id.py\<close>.  Python floats are modelled as the rationals they denote, with every
  float operation of the source followed by \<open>b64\<close>, rounding to 53 significant bits,
  ties to even.  The exponent range is not bounded: amounts beyond \<open>2 ^ 1024\<close>, where the
  code would see an infinity, are outside the model.  The error dictionaries of the tools are
  the constructor \<open>ToolError\<close> with the data their message is formatted from.
\<close>

subsection \<open>Binary floating point\<close>

text \<open>The integer nearest to \<open>x\<close>, a tie going to the even one.\<close>

definition round_even :: "rat \<Rightarrow> int" where
  "round_even x = (let f = \<lfloor>x\<rfloor>; d = x - of_int f in
     if d < 1 / 2 then f else if 1 / 2 < d then f + 1 else if even f then f else f + 1)"

text \<open>\<open>2\<close> to an integer exponent, and the exponent of the leading bit of a positive rational.\<close>

definition pow2 :: "int \<Rightarrow> rat" where
  "pow2 e = (if 0 \<le> e then 2 ^ nat e else 1 / 2 ^ nat (- e))"

function bits :: "int \<Rightarrow> nat" where
  "bits n = (if n \<le> 0 then 0 else Suc (bits (n div 2)))"
  by pat_completeness auto
termination
  by (relation "measure nat") auto

declare bits.simps [simp del]

definition lead_exp :: "rat \<Rightarrow> int" where
  "lead_exp x = (case quotient_of x of (n, d) \<Rightarrow>
     let k = int (bits n) - int (bits d) in if pow2 k \<le> x then k else k - 1)"

definition b64 :: "rat \<Rightarrow> rat" where
  "b64 x = (if x = 0 then 0 else
     let u = pow2 (lead_exp \<bar>x\<bar> - 52) in sgn x * of_int (round_even (\<bar>x\<bar> / u)) * u)"

lemma round_even_int [simp]: "round_even (of_int n) = n"
  by (simp add: round_even_def)

lemma round_even_nonneg: "0 \<le> x \<Longrightarrow> 0 \<le> round_even x"
  by (auto simp: round_even_def Let_def)

lemma pow2_pos [simp]: "0 < pow2 e"
  by (simp add: pow2_def)

lemma pow2_nonneg [simp]: "0 \<le> pow2 e"
  by (simp add: pow2_def)

lemma b64_zero [simp]: "b64 0 = 0"
  by (simp add: b64_def)

lemma b64_minus: "b64 (- x) = - b64 x"
  by (simp add: b64_def Let_def sgn_minus)

lemma b64_nonneg: "0 \<le> x \<Longrightarrow> 0 \<le> b64 x"
  by (auto simp: b64_def Let_def round_even_nonneg)

lemma bits_le: "n < 2 ^ k \<Longrightarrow> bits n \<le> k"
proof (induction k arbitrary: n)
  case 0
  then show ?case by (simp add: bits.simps)
next
  case (Suc k)
  then have "n div 2 < 2 ^ k" by simp
  then have "bits (n div 2) \<le> k" by (rule Suc.IH)
  then show ?case by (simp add: bits.simps [of n])
qed

lemma lead_exp_int: "n < 2 ^ k \<Longrightarrow> lead_exp (of_int n) \<le> int k - 1"
  using bits_le [of n k]
  by (auto simp: lead_exp_def quotient_of_int Let_def bits.simps [of 1] bits.simps [of 0])

text \<open>Whole amounts below \<open>2 ^ 53\<close> are represented exactly.\<close>

lemma b64_exact:
  assumes "\<bar>n\<bar> < 2 ^ 53"
  shows "b64 (of_int n) = of_int n"
proof (cases "n = 0")
  case False
  have "lead_exp (of_int \<bar>n\<bar>) - 52 \<le> 0"
    using lead_exp_int [OF assms] by simp
  then obtain j where j: "pow2 (lead_exp (of_int \<bar>n\<bar>) - 52) = 1 / 2 ^ j"
    by (force simp: pow2_def)
  have "(of_int \<bar>n\<bar> :: rat) / (1 / 2 ^ j) = of_int (\<bar>n\<bar> * 2 ^ j)" by simp
  then have "round_even ((of_int \<bar>n\<bar> :: rat) / (1 / 2 ^ j)) = \<bar>n\<bar> * 2 ^ j"
    by (metis round_even_int)
  with False j have "b64 (of_int n) = sgn (of_int n) * of_int \<bar>n\<bar>"
    by (simp add: b64_def Let_def flip: of_int_abs)
  with False show ?thesis by (cases "0 < n") simp_all
qed simp

subsection \<open>Rounding error\<close>

lemma bits_ge: "0 < n \<Longrightarrow> 2 ^ bits n \<le> 2 * n"
proof (induction n rule: bits.induct)
  case (1 n)
  show ?case
  proof (cases "n div 2 = 0")
    case True
    with "1.prems" have "n = 1" by presburger
    then show ?thesis by (simp add: bits.simps [of 1] bits.simps [of 0])
  next
    case False
    with "1.prems" have "0 < n div 2" by presburger
    with "1.IH" "1.prems" have "2 ^ bits (n div 2) \<le> 2 * (n div 2)" by simp
    then have "2 * 2 ^ bits (n div 2) \<le> 2 * n" by presburger
    with "1.prems" show ?thesis by (simp add: bits.simps [of n])
  qed
qed

lemma bits_gt: "n < 2 ^ bits n"
proof (induction n rule: bits.induct)
  case (1 n)
  show ?case
  proof (cases "n \<le> 0")
    case True
    then show ?thesis by (simp add: bits.simps)
  next
    case False
    with "1.IH" have "n div 2 < 2 ^ bits (n div 2)" by simp
    then have "n < 2 * 2 ^ bits (n div 2)" by presburger
    with False show ?thesis by (simp add: bits.simps [of n])
  qed
qed

lemma pow2_diff: "pow2 (int a - int b) = 2 ^ a / 2 ^ b"
  by (auto simp: pow2_def nat_diff_distrib power_diff field_simps simp flip: power_add)

lemma pow2_pred: "pow2 (e - 1) = pow2 e / 2"
proof (cases "e \<le> 0")
  case True
  then have "nat (- (e - 1)) = Suc (nat (- e))" by simp
  with True show ?thesis by (simp add: pow2_def)
next
  case False
  then have "nat e = Suc (nat (e - 1))" by simp
  with False show ?thesis by (simp add: pow2_def)
qed

lemma lead_exp_lower:
  assumes "0 < x"
  shows "pow2 (lead_exp x) \<le> x"
proof -
  obtain n d where q: "quotient_of x = (n, d)" by force
  then have d: "0 < d" and x: "x = of_int n / of_int d"
    by (simp_all add: quotient_of_denom_pos quotient_of_div)
  with assms have n: "0 < n" by (simp add: zero_less_divide_iff)
  define k where "k = int (bits n) - int (bits d)"
  have "(2 :: rat) ^ bits n \<le> 2 * of_int n"
    using bits_ge [OF n] by (metis of_int_le_iff of_int_mult of_int_numeral of_int_power)
  moreover have "(of_int d :: rat) \<le> 2 ^ bits d"
    using bits_gt [of d] by (metis less_imp_le of_int_le_iff of_int_numeral of_int_power)
  ultimately have "(2 :: rat) ^ bits n / 2 ^ bits d \<le> 2 * of_int n / of_int d"
    using d n by (intro frac_le) auto
  then have "pow2 (k - 1) \<le> x"
    by (simp add: pow2_pred pow2_diff k_def x)
  then show ?thesis by (simp add: lead_exp_def q Let_def k_def)
qed

lemma pow2_minus_nat: "pow2 (e - int k) = pow2 e / 2 ^ k"
proof (induction k)
  case (Suc k)
  have "pow2 (e - int (Suc k)) = pow2 (e - int k - 1)" by (simp add: algebra_simps)
  with Suc show ?case by (simp only: pow2_pred) simp
qed simp

lemma round_even_near: "\<bar>of_int (round_even x) - x\<bar> \<le> 1 / 2"
proof -
  have "of_int \<lfloor>x\<rfloor> \<le> x" "x < of_int \<lfloor>x\<rfloor> + 1" by linarith+
  then show ?thesis by (auto simp: round_even_def Let_def abs_le_iff)
qed

text \<open>One rounding changes a positive value by at most half a unit in its last place.\<close>

lemma b64_error:
  assumes "0 \<le> x"
  shows "\<bar>b64 x - x\<bar> \<le> x / 2 ^ 53"
proof (cases "x = 0")
  case False
  with assms have x: "0 < x" by simp
  define u where "u = pow2 (lead_exp x - 52)"
  have u: "0 < u" "u \<le> x / 2 ^ 52"
    using lead_exp_lower [OF x] pow2_minus_nat [of "lead_exp x" 52]
    by (simp_all add: u_def divide_right_mono)
  have "\<bar>b64 x - x\<bar> = \<bar>of_int (round_even (x / u)) - x / u\<bar> * u"
  proof -
    have "of_int (round_even (x / u)) * u - x = (of_int (round_even (x / u)) - x / u) * u"
      using u(1) by (simp add: field_simps)
    with x u(1) show ?thesis by (simp add: b64_def Let_def abs_mult flip: u_def)
  qed
  also have "\<dots> \<le> 1 / 2 * u"
    using round_even_near [of "x / u"] u(1) by (intro mult_right_mono) auto
  also have "\<dots> \<le> x / 2 ^ 53" using u(2) by simp
  finally show ?thesis .
qed simp

subsection \<open>Parsing amounts\<close>

text \<open>
  The values the tools can be handed.  \<open>PyOther\<close> is any other object, carrying the text
  \<open>str(value)\<close> gives for it.
\<close>

datatype pyobj = PyNone | PyBool bool | PyInt int | PyFloat rat | PyStr ustr | PyOther ustr

fun py_str :: "pyobj \<Rightarrow> ustr" where
  "py_str (PyStr s) = s"
| "py_str (PyOther s) = s"
| "py_str _ = []"

definition is_digit :: "nat \<Rightarrow> bool" where
  "is_digit c \<longleftrightarrow> 48 \<le> c \<and> c \<le> 57"

definition dec_val :: "ustr \<Rightarrow> int" where
  "dec_val ds = foldl (\<lambda>a d. 10 * a + int (d - 48)) 0 ds"

text \<open>
  \<open>float(s)\<close> on strings over digits, dots and commas, the only ones it is applied to here:
  digits with at most one dot among them, at least one digit, no comma.  Any other raises
  \<open>ValueError\<close>, which is \<open>None\<close>.
\<close>

definition py_float :: "ustr \<Rightarrow> rat option" where
  "py_float s = (case split_on 46 s of
       [a] \<Rightarrow> if a \<noteq> [] \<and> list_all is_digit a then Some (b64 (of_int (dec_val a))) else None
     | [a, b] \<Rightarrow> if a @ b \<noteq> [] \<and> list_all is_digit (a @ b)
         then Some (b64 (of_int (dec_val (a @ b)) / 10 ^ length b)) else None
     | _ \<Rightarrow> None)"

text \<open>Code points: comma 44, dot 46, minus 45, opening parenthesis 40.\<close>

definition money_chars :: "ustr \<Rightarrow> ustr" where
  "money_chars s = filter (\<lambda>c. is_digit c \<or> c = 46 \<or> c = 44) s"

definition thousands :: "ustr list \<Rightarrow> bool" where
  "thousands parts \<longleftrightarrow> length parts > 1 \<and> length (hd parts) \<le> 3 \<and> list_all (\<lambda>p. length p = 3) (tl parts)"

definition money_norm :: "ustr \<Rightarrow> ustr" where
  "money_norm s =
     (if 44 \<in> set s \<and> 46 \<in> set s then
        if rfind 46 s < rfind 44 s
        then map (\<lambda>c. if c = 44 then 46 else c) (filter (\<lambda>c. c \<noteq> 46) s)
        else filter (\<lambda>c. c \<noteq> 44) s
      else if 44 \<in> set s then
        if thousands (split_on 44 s) then filter (\<lambda>c. c \<noteq> 44) s
        else map (\<lambda>c. if c = 44 then 46 else c) s
      else if 46 \<in> set s then
        if thousands (split_on 46 s) then filter (\<lambda>c. c \<noteq> 46) s else s
      else s)"

definition to_money :: "pyobj \<Rightarrow> rat option" where
  "to_money v = (case v of
       PyNone \<Rightarrow> None
     | PyBool b \<Rightarrow> Some (if b then 1 else 0)
     | PyInt i \<Rightarrow> Some (b64 (of_int i))
     | PyFloat x \<Rightarrow> Some x
     | _ \<Rightarrow>
        (let raw = py_strip (py_str v);
             neg = starts_with [45] raw \<or> starts_with [40] raw;
             s = money_chars raw
         in if s = [] then None
            else case py_float (money_norm s) of
                   None \<Rightarrow> None
                 | Some f \<Rightarrow> Some (if neg then - f else f)))"

text \<open>A tool returns its dictionary on success, or the data of its error message.\<close>

datatype 'a tool_result = ToolOk 'a | ToolError "ustr list"

definition parse_money :: "ustr \<Rightarrow> rat tool_result" where
  "parse_money value = (case to_money (PyStr value) of
       None \<Rightarrow> ToolError [value]
     | Some n \<Rightarrow> ToolOk n)"

subsection \<open>Comparing amounts\<close>

record amount_cmp =
  cmp_a :: rat
  cmp_b :: rat
  cmp_diff :: rat
  cmp_allowed :: rat
  cmp_match :: bool

definition compare_amount :: "pyobj \<Rightarrow> pyobj \<Rightarrow> rat \<Rightarrow> rat \<Rightarrow> amount_cmp tool_result" where
  "compare_amount a b tol_pct tol_abs =
     (case (to_money a, to_money b) of
        (Some na, Some nb) \<Rightarrow>
          (let diff = \<bar>b64 (na - nb)\<bar>;
               allowed = min (b64 (b64 (max \<bar>na\<bar> \<bar>nb\<bar> * tol_pct) / 100)) tol_abs
           in ToolOk \<lparr>cmp_a = na, cmp_b = nb, cmp_diff = diff, cmp_allowed = allowed,
                      cmp_match = (diff \<le> allowed)\<rparr>)
      | (na, nb) \<Rightarrow>
          ToolError (map fst (filter (\<lambda>(name, n). n = None)
            [(lit ''a'', na), (lit ''b'', nb)])))"

text \<open>The default tolerances of the signature: 1 percent, 100,000 absolute.\<close>

definition default_tol_pct :: rat where "default_tol_pct = 1"
definition default_tol_abs :: rat where "default_tol_abs = 100000"

subsection \<open>VAT\<close>

record vat_check =
  vat_expected :: rat
  vat_got :: rat
  vat_diff :: rat
  vat_allowed :: rat
  vat_match :: bool
  vat_rate :: rat
  vat_rate_valid :: bool

text \<open>\<open>float(re.sub(r"[^0-9.]", "", str(rate)))\<close>, \<open>None\<close> where it raises.\<close>

definition parse_rate :: "ustr \<Rightarrow> rat option" where
  "parse_rate rate = py_float (filter (\<lambda>c. is_digit c \<or> c = 46) rate)"

definition check_vat :: "pyobj \<Rightarrow> ustr \<Rightarrow> pyobj \<Rightarrow> rat \<Rightarrow> rat list option \<Rightarrow> vat_check tool_result" where
  "check_vat subtotal rate vat tol_pct allowed_rates =
     (let rates = (case allowed_rates of None \<Rightarrow> [0, 5, 8, 10] | Some rs \<Rightarrow> rs) in
      case (to_money subtotal, to_money vat, parse_rate rate) of
        (Some sub, Some got, Some rate_val) \<Rightarrow>
          (let expected = b64 (b64 (sub * rate_val) / 100);
               diff = \<bar>b64 (got - expected)\<bar>;
               allowed = b64 (b64 (max expected 1 * tol_pct) / 100)
           in ToolOk \<lparr>vat_expected = expected, vat_got = got, vat_diff = diff, vat_allowed = allowed,
                vat_match = (diff \<le> allowed), vat_rate = rate_val,
                vat_rate_valid = (rate_val \<in> set rates)\<rparr>)
      | (sub, got, rate_val) \<Rightarrow>
          ToolError (map fst (filter (\<lambda>(n, v). v = None)
            [(lit ''subtotal'', sub), (lit ''vat'', got), (lit ''rate'', rate_val)])))"

subsection \<open>Tax codes\<close>

text \<open>
  \<open>re.sub(r"\D", "", s)\<close> keeps the Unicode decimal digits; which code points these are is
  the parameter \<open>udigit\<close>, the Unicode database.
\<close>

record tax_check =
  tax_valid :: bool
  tax_normalized :: ustr
  tax_length :: nat
  tax_reason :: "(nat \<times> nat list) option"

definition validate_tax_id ::
  "(nat \<Rightarrow> bool) \<Rightarrow> ustr option \<Rightarrow> nat list option \<Rightarrow> tax_check tool_result" where
  "validate_tax_id udigit tax_code valid_lengths = (case tax_code of
       None \<Rightarrow> ToolError []
     | Some code \<Rightarrow>
        if py_strip code = [] then ToolError []
        else
          (let lengths = (case valid_lengths of None \<Rightarrow> [10, 13]
                          | Some ls \<Rightarrow> if ls = [] then [10, 13] else ls);
               digits = filter udigit code;
               valid = length digits \<in> set lengths
           in ToolOk \<lparr>tax_valid = valid, tax_normalized = digits, tax_length = length digits,
                tax_reason = (if valid then None else Some (length digits, lengths))\<rparr>))"

subsection \<open>What parsing computes\<close>

lemma digit_chars: "list_all is_digit ds \<Longrightarrow> c \<in> set ds \<Longrightarrow> c \<noteq> 44 \<and> c \<noteq> 46"
  by (auto simp: list_all_iff is_digit_def)

lemma digit_not_space: "is_digit c \<Longrightarrow> \<not> py_space c \<and> c \<noteq> 45 \<and> c \<noteq> 40"
  by (auto simp: is_digit_def py_space_def)

lemma filter_dropWhile: "(\<And>x. q x \<Longrightarrow> \<not> p x) \<Longrightarrow> filter p (dropWhile q xs) = filter p xs"
  by (induction xs) auto

lemma money_chars_strip: "money_chars (py_strip s) = money_chars s"
proof -
  have sp: "\<And>x. py_space x \<Longrightarrow> \<not> (is_digit x \<or> x = 46 \<or> x = 44)"
    by (auto simp: is_digit_def py_space_def)
  show ?thesis
    by (simp add: money_chars_def py_strip_def rev_filter [symmetric] filter_dropWhile [OF sp])
qed

lemma dropWhile_snoc_neq: "\<not> p x \<Longrightarrow> dropWhile p (xs @ [x]) \<noteq> []"
  by (induction xs) auto

lemma py_strip_Cons:
  assumes "\<not> py_space c"
  shows "\<exists>t. py_strip (c # s) = c # t"
proof -
  have "\<exists>u. dropWhile py_space (rev s @ [c]) = u @ [c]" for s
    using assms by (induction s rule: rev_induct) auto
  then obtain u where "dropWhile py_space (rev s @ [c]) = u @ [c]" by blast
  then have "py_strip (c # s) = c # rev u" using assms by (simp add: py_strip_def)
  then show ?thesis by blast
qed

lemma py_float_digits:
  "\<lbrakk>ds \<noteq> []; list_all is_digit ds\<rbrakk> \<Longrightarrow> py_float ds = Some (b64 (of_int (dec_val ds)))"
proof -
  assume a: "ds \<noteq> []" "list_all is_digit ds"
  then have "46 \<notin> set ds" using digit_chars by blast
  with a show ?thesis by (simp add: py_float_def split_on_no_sep)
qed

lemma to_money_text:
  "to_money (PyStr s) =
     (let neg = starts_with [45] (py_strip s) \<or> starts_with [40] (py_strip s);
          t = money_chars s in
      if t = [] then None
      else map_option (\<lambda>f. if neg then - f else f) (py_float (money_norm t)))"
  by (simp add: to_money_def money_chars_strip Let_def split: option.splits)

text \<open>A string whose first character is a digit is not negated; a minus sign before it negates.\<close>

lemma to_money_digit_first:
  assumes "is_digit c"
  shows "to_money (PyStr (c # s)) = py_float (money_norm (money_chars (c # s)))"
proof -
  obtain t where t: "py_strip (c # s) = c # t"
    using py_strip_Cons digit_not_space assms by blast
  have "money_chars (c # s) \<noteq> []" using assms by (simp add: money_chars_def)
  then show ?thesis
    using digit_not_space [OF assms] by (simp add: to_money_text Let_def t option.map_ident)
qed

lemma to_money_minus_first:
  assumes "is_digit c"
  shows "to_money (PyStr (45 # c # s)) = map_option uminus (to_money (PyStr (c # s)))"
proof -
  obtain t where t: "py_strip (45 # c # s) = 45 # t"
    using py_strip_Cons [of 45] by (auto simp: py_space_def)
  have mc: "money_chars (45 # c # s) = money_chars (c # s)" "money_chars (c # s) \<noteq> []"
    using assms by (simp_all add: money_chars_def is_digit_def)
  then show ?thesis
    by (simp add: to_money_digit_first [OF assms]) (simp add: to_money_text Let_def t)
qed

text \<open>Digit groups joined by a thousands separator, with any trailing text that holds no
  digit, dot or comma (a currency word).\<close>

definition grouped :: "ustr list \<Rightarrow> bool" where
  "grouped gs \<longleftrightarrow> thousands gs \<and> hd gs \<noteq> [] \<and> list_all (list_all is_digit) gs"

lemma grouped_facts:
  assumes "grouped gs"
  shows "gs \<noteq> []" "2 \<le> length gs" "concat gs \<noteq> []" "list_all is_digit (concat gs)"
    "\<And>c. c = 44 \<or> c = 46 \<Longrightarrow> \<forall>g \<in> set gs. c \<notin> set g"
proof -
  from assms show 1: "gs \<noteq> []" "2 \<le> length gs"
    by (auto simp: grouped_def thousands_def)
  with assms show "concat gs \<noteq> []" by (cases gs) (auto simp: grouped_def)
  from assms show "list_all is_digit (concat gs)" by (auto simp: grouped_def list_all_iff)
  from assms have "\<forall>g \<in> set gs. list_all is_digit g" by (simp add: grouped_def list_all_iff)
  then show "\<And>c. c = 44 \<or> c = 46 \<Longrightarrow> \<forall>g \<in> set gs. c \<notin> set g"
    using digit_chars by blast
qed

lemma money_norm_grouped:
  assumes g: "grouped gs" and sep: "sep = 44 \<or> sep = 46"
  shows "money_norm (join [sep] gs) = concat gs"
proof -
  note gf = grouped_facts [OF g]
  have no: "\<And>c. c = 44 \<or> c = 46 \<Longrightarrow> c \<noteq> sep \<Longrightarrow> c \<notin> set (join [sep] gs)"
    using set_join [of "[sep]" gs] gf(5) by fastforce
  have "sep \<in> set (join [sep] gs)" using gf(2) by (rule sep_in_join)
  moreover have "split_on sep (join [sep] gs) = gs"
    using gf(1) gf(5) [OF sep] by (rule split_on_join)
  moreover have "filter (\<lambda>c. c \<noteq> sep) (join [sep] gs) = concat gs"
    using gf(5) [OF sep] by (rule filter_join)
  moreover have "thousands gs" using g by (simp add: grouped_def)
  ultimately show ?thesis
    using sep no [of 44] no [of 46] by (auto simp: money_norm_def)
qed

lemma money_chars_grouped:
  assumes g: "grouped gs" and sep: "sep = 44 \<or> sep = 46" and suf: "money_chars suf = []"
  shows "money_chars (join [sep] gs @ suf) = join [sep] gs"
proof -
  have "\<And>c. c \<in> set (join [sep] gs) \<Longrightarrow> is_digit c \<or> c = 46 \<or> c = 44"
    using set_join [of "[sep]" gs] sep g by (fastforce simp: grouped_def list_all_iff)
  then show ?thesis using suf by (simp add: money_chars_def filter_id_conv)
qed

lemma join_hd: "\<lbrakk>gs \<noteq> []; hd gs \<noteq> []\<rbrakk> \<Longrightarrow> \<exists>t. join sep gs = hd (hd gs) # t"
  by (cases "(sep, gs)" rule: join.cases) (auto simp: neq_Nil_conv)

lemma to_money_grouped:
  assumes g: "grouped gs" and sep: "sep = 44 \<or> sep = 46" and suf: "money_chars suf = []"
  shows "to_money (PyStr (join [sep] gs @ suf)) = Some (b64 (of_int (dec_val (concat gs))))"
proof -
  note gf = grouped_facts [OF g]
  obtain t where t: "join [sep] gs = hd (hd gs) # t"
    using join_hd [of gs "[sep]"] g gf(1) by (auto simp: grouped_def)
  have d: "is_digit (hd (hd gs))"
    using g gf(1) by (cases gs) (auto simp: grouped_def list_all_iff)
  have "to_money (PyStr (join [sep] gs @ suf)) = py_float (money_norm (join [sep] gs))"
    using to_money_digit_first [OF d, of "t @ suf"] money_chars_grouped [OF g sep suf]
    by (simp add: t)
  also have "\<dots> = Some (b64 (of_int (dec_val (concat gs))))"
    using gf(3,4) by (simp add: money_norm_grouped [OF g sep] py_float_digits)
  finally show ?thesis .
qed

subsection \<open>What comparing computes\<close>

lemma compare_amount_ok:
  "\<lbrakk>to_money a = Some na; to_money b = Some nb\<rbrakk> \<Longrightarrow>
   compare_amount a b tp ta = ToolOk \<lparr>cmp_a = na, cmp_b = nb, cmp_diff = \<bar>b64 (na - nb)\<bar>,
     cmp_allowed = min (b64 (b64 (max \<bar>na\<bar> \<bar>nb\<bar> * tp) / 100)) ta,
     cmp_match = (\<bar>b64 (na - nb)\<bar> \<le> min (b64 (b64 (max \<bar>na\<bar> \<bar>nb\<bar> * tp) / 100)) ta)\<rparr>"
  by (simp add: compare_amount_def Let_def)

lemma b64_diff_abs: "\<bar>b64 (x - y)\<bar> = \<bar>b64 (y - x)\<bar>"
  using b64_minus [of "x - y"] by simp

lemma to_money_int_exact: "\<bar>n\<bar> < 2 ^ 53 \<Longrightarrow> to_money (PyInt n) = Some (of_int n)"
  by (simp add: to_money_def b64_exact)

text \<open>Rounding a hundredth of a whole number does not move it across a whole number.\<close>

lemma b64_hundredth:
  fixes m d :: int
  assumes "0 \<le> m" "m < 2 ^ 52" "0 \<le> d"
  shows "of_int d \<le> b64 (of_int m / 100) \<longleftrightarrow> 100 * d \<le> m"
proof -
  define y :: rat where "y = of_int m / 100"
  have y0: "0 \<le> y" using assms by (simp add: y_def)
  have "(of_int m :: rat) < 2 ^ 52"
    using assms(2) by (metis of_int_less_iff of_int_numeral of_int_power)
  then have "y / 2 ^ 53 < 1 / 200" by (simp add: y_def)
  then have err: "\<bar>b64 y - y\<bar> < 1 / 200" using b64_error [OF y0] by linarith
  consider "100 * d = m" | "100 * d + 1 \<le> m" | "m + 1 \<le> 100 * d" by linarith
  then show ?thesis
  proof cases
    case 1
    then have "y = of_int d" by (auto simp: y_def)
    moreover have "\<bar>d\<bar> < 2 ^ 53" using 1 assms by simp
    ultimately have "b64 y = of_int d" by (simp add: b64_exact)
    with 1 show ?thesis by (simp add: y_def)
  next
    case 2
    then have "(of_int (100 * d + 1) :: rat) \<le> of_int m" by (simp only: of_int_le_iff)
    then have "of_int d + 1 / 100 \<le> y" by (simp add: y_def)
    with err have "of_int d \<le> b64 y" by linarith
    with 2 show ?thesis by (simp add: y_def)
  next
    case 3
    then have "(of_int (m + 1) :: rat) \<le> of_int (100 * d)" by (simp only: of_int_le_iff)
    then have "y + 1 / 100 \<le> of_int d" by (simp add: y_def)
    with err have "\<not> of_int d \<le> b64 y" by linarith
    with 3 show ?thesis by (simp add: y_def)
  qed
qed

lemma b64_whole_diff:
  fixes m n :: int
  assumes "\<bar>m\<bar> < 2 ^ 52" "\<bar>n\<bar> < 2 ^ 52"
  shows "\<bar>b64 (of_int m - of_int n)\<bar> = of_int \<bar>m - n\<bar>"
proof -
  have "(2 :: int) ^ 53 = 2 * 2 ^ 52" by simp
  then have "\<bar>m - n\<bar> < 2 ^ 53" using assms by linarith
  then have "b64 (of_int (m - n)) = of_int (m - n)" by (rule b64_exact)
  then show ?thesis by (simp flip: of_int_diff of_int_abs)
qed

lemma max_abs_of_int: "max \<bar>of_int m\<bar> \<bar>of_int n :: rat\<bar> = of_int (max \<bar>m\<bar> \<bar>n\<bar>)"
  by (simp add: max_def flip: of_int_abs)

subsection \<open>Properties\<close>

text \<open>
  C39.  A money string of digit groups joined by commas or by dots (one to three digits, then
  groups of exactly three), followed by any text without digits, dots or commas, parses to the
  number its digits spell, rounded to a float; the same string behind a minus sign parses to its
  negation.
\<close>

theorem parse_money_grouped:
  assumes "grouped gs" and "sep = 44 \<or> sep = 46" and "money_chars suf = []"
  shows "parse_money (join [sep] gs @ suf) = ToolOk (b64 (of_int (dec_val (concat gs)))) \<and>
    parse_money (45 # join [sep] gs @ suf) = ToolOk (- b64 (of_int (dec_val (concat gs))))"
proof -
  note gf = grouped_facts [OF assms(1)]
  obtain t where t: "join [sep] gs = hd (hd gs) # t"
    using join_hd [of gs "[sep]"] assms(1) gf(1) by (auto simp: grouped_def)
  have d: "is_digit (hd (hd gs))"
    using assms(1) gf(1) by (cases gs) (auto simp: grouped_def list_all_iff)
  show ?thesis
    using to_money_minus_first [OF d, of "t @ suf"] to_money_grouped [OF assms]
    by (simp add: parse_money_def t)
qed

theorem parse_money_grouped_witness:
  "parse_money (lit ''27,540,000 VND'') = ToolOk 27540000 \<and>
   parse_money (lit ''-27,540,000 VND'') = ToolOk (- 27540000)"
proof -
  have "b64 (of_int 27540000) = (of_int 27540000 :: rat)" by (rule b64_exact) simp
  then show ?thesis
    using parse_money_grouped [of "[lit ''27'', lit ''540'', lit ''000'']" 44 "lit '' VND''"]
    by (simp add: grouped_def thousands_def lit_def is_digit_def money_chars_def dec_val_def)
qed

text \<open>
  For whole amounts below \<open>2 ^ 52\<close> the float arithmetic of \<open>compare_amount\<close> decides
  exactly the documented rule at the default tolerances: the amounts match when their
  difference is at most one percent of the larger magnitude and at most 100,000.  No rounding
  turns a match into a mismatch or the other way round.
\<close>

theorem compare_amount_default_exact:
  assumes "\<bar>m\<bar> < 2 ^ 52" and "\<bar>n\<bar> < 2 ^ 52"
  shows "\<exists>r. compare_amount (PyInt m) (PyInt n) default_tol_pct default_tol_abs = ToolOk r \<and>
    cmp_diff r = of_int \<bar>m - n\<bar> \<and>
    (cmp_match r \<longleftrightarrow> 100 * \<bar>m - n\<bar> \<le> max \<bar>m\<bar> \<bar>n\<bar> \<and> \<bar>m - n\<bar> \<le> 100000)"
proof -
  have tm: "to_money (PyInt m) = Some (of_int m)" "to_money (PyInt n) = Some (of_int n)"
    using assms by (auto intro!: to_money_int_exact)
  have mx: "\<bar>max \<bar>m\<bar> \<bar>n\<bar>\<bar> < 2 ^ 53" "0 \<le> max \<bar>m\<bar> \<bar>n\<bar>" "max \<bar>m\<bar> \<bar>n\<bar> < 2 ^ 52"
  proof -
    have "(2 :: int) ^ 53 = 2 * 2 ^ 52" by simp
    then show "\<bar>max \<bar>m\<bar> \<bar>n\<bar>\<bar> < 2 ^ 53" "0 \<le> max \<bar>m\<bar> \<bar>n\<bar>" "max \<bar>m\<bar> \<bar>n\<bar> < 2 ^ 52"
      using assms by linarith+
  qed
  have *: "b64 (b64 (max \<bar>of_int m\<bar> \<bar>of_int n\<bar> * 1) / 100) = b64 (of_int (max \<bar>m\<bar> \<bar>n\<bar>) / 100)"
    using b64_exact [OF mx(1)] by (simp only: max_abs_of_int mult_1_right)
  have **: "of_int \<bar>m - n\<bar> \<le> b64 (of_int (max \<bar>m\<bar> \<bar>n\<bar>) / 100) \<longleftrightarrow> 100 * \<bar>m - n\<bar> \<le> max \<bar>m\<bar> \<bar>n\<bar>"
    using mx by (intro b64_hundredth) auto
  have "(of_int \<bar>m - n\<bar> :: rat) \<le> 100000 \<longleftrightarrow> \<bar>m - n\<bar> \<le> 100000"
    by (metis of_int_le_iff of_int_numeral)
  then show ?thesis
    unfolding compare_amount_ok [OF tm] default_tol_pct_def default_tol_abs_def *
    using ** b64_whole_diff [OF assms] by simp
qed

theorem compare_amount_default_exact_witness:
  "\<exists>r. compare_amount (PyInt 1000000) (PyInt 990000) default_tol_pct default_tol_abs = ToolOk r \<and>
    cmp_diff r = 10000 \<and> cmp_match r"
  using compare_amount_default_exact [of 1000000 990000] by auto

text \<open>
  \<open>compare_amount\<close> does not depend on the order of its two amounts: swapping them swaps
  the reported values, keeps the difference, the allowance and the decision, and an amount that
  parses matches itself whenever the tolerances are not negative.
\<close>

theorem compare_amount_symmetric:
  "(\<forall>r. compare_amount a b tp ta = ToolOk r \<longrightarrow>
      compare_amount b a tp ta = ToolOk (r\<lparr>cmp_a := cmp_b r, cmp_b := cmp_a r\<rparr>)) \<and>
   (0 \<le> tp \<and> 0 \<le> ta \<and> to_money a \<noteq> None \<longrightarrow>
      (\<exists>r. compare_amount a a tp ta = ToolOk r \<and> cmp_match r))"
proof -
  have refl: "0 \<le> b64 (b64 (\<bar>x\<bar> * tp) / 100)" if "0 \<le> tp" for x
    using that by (intro b64_nonneg divide_nonneg_nonneg mult_nonneg_nonneg) auto
  have "compare_amount b a tp ta = ToolOk (r\<lparr>cmp_a := cmp_b r, cmp_b := cmp_a r\<rparr>)"
    if ok: "compare_amount a b tp ta = ToolOk r" for r
  proof -
    from ok obtain na nb where tm: "to_money a = Some na" "to_money b = Some nb"
      by (auto simp: compare_amount_def split: option.splits)
    show ?thesis
      using ok unfolding compare_amount_ok [OF tm] compare_amount_ok [OF tm(2) tm(1)]
      by (auto simp: b64_diff_abs [of nb na] max.commute [of "\<bar>nb\<bar>"])
  qed
  with refl show ?thesis by (auto simp: compare_amount_def Let_def)
qed

theorem compare_amount_symmetric_witness:
  "\<exists>r. compare_amount (PyInt 5) (PyInt 5) 0 0 = ToolOk r \<and> cmp_match r"
  using compare_amount_symmetric [of "PyInt 5" "PyInt 5" 0 0] by (simp add: to_money_def)

text \<open>
  A correct VAT line passes the check: for a whole subtotal, a whole percentage rate and a
  whole VAT amount with \<open>100 * vat = subtotal * rate\<close> (the product below \<open>2 ^ 53\<close>), the
  expected amount is exactly the given one, the difference is zero and the tool reports a match
  for every tolerance that is not negative; the rate is reported valid exactly when it is one of
  the allowed rates, 0, 5, 8 or 10 percent by default.
\<close>

theorem check_vat_accepts_exact:
  assumes "\<bar>sub * rate\<bar> < 2 ^ 53" and "\<bar>sub\<bar> < 2 ^ 53" and "\<bar>vat\<bar> < 2 ^ 53"
    and "100 * vat = sub * rate" and "parse_rate rt = Some (of_int rate)" and "0 \<le> tol"
  shows "\<exists>r. check_vat (PyInt sub) rt (PyInt vat) tol None = ToolOk r \<and>
    vat_expected r = of_int vat \<and> vat_diff r = 0 \<and> vat_match r \<and>
    (vat_rate_valid r \<longleftrightarrow> rate \<in> {0, 5, 8, 10})"
proof -
  have "(of_int sub * of_int rate :: rat) = 100 * of_int vat"
    by (metis assms(4) of_int_mult of_int_numeral)
  moreover have "b64 (of_int (sub * rate)) = of_int (sub * rate)"
    using assms(1) by (rule b64_exact)
  ultimately have "b64 (b64 (of_int sub * of_int rate) / 100) = b64 (of_int vat)" by simp
  then have ex: "b64 (b64 (of_int sub * of_int rate) / 100) = of_int vat"
    using b64_exact [OF assms(3)] by simp
  have tol: "0 \<le> b64 (b64 (max (of_int vat) 1 * tol) / 100)"
    using assms(6) by (intro b64_nonneg divide_nonneg_nonneg mult_nonneg_nonneg) auto
  have "(of_int rate :: rat) \<in> {0, 5, 8, 10} \<longleftrightarrow> rate \<in> {0, 5, 8, 10}" by auto
  then show ?thesis
    using tol by (simp add: check_vat_def to_money_int_exact [OF assms(2)]
        to_money_int_exact [OF assms(3)] assms(5) ex Let_def)
qed

theorem check_vat_accepts_exact_witness:
  "\<exists>r. check_vat (PyInt 27540000) (lit ''8%'') (PyInt 2203200) (1 / 2) None = ToolOk r \<and>
    vat_match r \<and> vat_rate_valid r"
proof -
  have "b64 (of_int 8) = (of_int 8 :: rat)" by (rule b64_exact) simp
  then have "parse_rate (lit ''8%'') = Some (of_int 8)"
    by (simp add: parse_rate_def py_float_def lit_def is_digit_def dec_val_def)
  then show ?thesis
    using check_vat_accepts_exact [of 27540000 8 2203200 "lit ''8%''" "1 / 2"] by auto
qed

end
