(* ===== verification/Dates.thy ===== *)
theory Dates
  imports Money
begin

section \<open>Date tools: parsing, ordering, invoice age\<close>

text \<open>
  \<open>doci/tools/parse_date.py\<close>, \<open>check_date_order.py\<close> and \<open>invoice_age.py\<close>.  The three
  regular expressions of \<open>to_date\<close> are values of \<open>rx\<close>, matched with the priorities of
  Python's backtracking matcher; the Unicode database behind \<open>\d\<close>, \<open>\b\<close> and
  \<open>str.lower\<close> is the parameter \<open>unicode\<close>.  \<open>datetime.date\<close> is the proleptic Gregorian
  calendar, years 1 to 9999.
\<close>

subsection \<open>Regular expressions\<close>

record unicode =
  udigit :: "nat \<Rightarrow> nat option"   \<comment> \<open>decimal digit value, \<open>None\<close> for other code points\<close>
  uword :: "nat \<Rightarrow> bool"           \<comment> \<open>word characters\<close>
  ulower :: "ustr \<Rightarrow> ustr"         \<comment> \<open>\<open>str.lower\<close>\<close>

text \<open>\<open>Group lo hi\<close> is a capturing group of \<open>lo\<close> to \<open>hi\<close> decimal digits, greedy.\<close>

datatype rx = Group nat nat | Spaces | Lit ustr | OneOf "nat list" | WordB

definition is_word :: "unicode \<Rightarrow> nat option \<Rightarrow> bool" where
  "is_word U c = (case c of None \<Rightarrow> False | Some x \<Rightarrow> uword U x)"

definition head :: "'a list \<Rightarrow> 'a option" where
  "head s = (case s of [] \<Rightarrow> None | x # _ \<Rightarrow> Some x)"

text \<open>All matches at one position, best first: the captured groups of each.\<close>

fun rx_match :: "unicode \<Rightarrow> rx list \<Rightarrow> nat option \<Rightarrow> ustr \<Rightarrow> ustr list list" where
  "rx_match U [] prev s = [[]]"
| "rx_match U (Group lo hi # rs) prev s =
     concat (map (\<lambda>k. if k \<le> length s \<and> list_all (\<lambda>c. udigit U c \<noteq> None) (take k s)
                      then map (\<lambda>gs. take k s # gs)
                             (rx_match U rs (if k = 0 then prev else Some (s ! (k - 1))) (drop k s))
                      else [])
        (rev [lo..<Suc hi]))"
| "rx_match U (Spaces # rs) prev s =
     concat (map (\<lambda>k. rx_match U rs (if k = 0 then prev else Some (s ! (k - 1))) (drop k s))
        (rev [0..<Suc (length (takeWhile py_space s))]))"
| "rx_match U (Lit l # rs) prev s =
     (if starts_with l s
      then rx_match U rs (if l = [] then prev else Some (last l)) (drop (length l) s) else [])"
| "rx_match U (OneOf cs # rs) prev s =
     (case s of [] \<Rightarrow> [] | c # t \<Rightarrow> if c \<in> set cs then rx_match U rs (Some c) t else [])"
| "rx_match U (WordB # rs) prev s =
     (if is_word U prev \<noteq> is_word U (head s) then rx_match U rs prev s else [])"

text \<open>\<open>re.search\<close>: the best match at the leftmost position that has one.\<close>

fun rx_search :: "unicode \<Rightarrow> rx list \<Rightarrow> nat option \<Rightarrow> ustr \<Rightarrow> ustr list option" where
  "rx_search U rs prev s = (case rx_match U rs prev s of
       gs # _ \<Rightarrow> Some gs
     | [] \<Rightarrow> (case s of [] \<Rightarrow> None | c # t \<Rightarrow> rx_search U rs (Some c) t))"

declare rx_search.simps [simp del]

subsection \<open>The calendar\<close>

type_synonym ymd = "nat \<times> nat \<times> nat"

definition leap :: "nat \<Rightarrow> bool" where
  "leap y \<longleftrightarrow> y mod 4 = 0 \<and> (y mod 100 \<noteq> 0 \<or> y mod 400 = 0)"

definition days_in_month :: "nat \<Rightarrow> nat \<Rightarrow> nat" where
  "days_in_month y m = (if m = 2 then (if leap y then 29 else 28)
     else if m \<in> set [4, 6, 9, 11] then 30 else 31)"

definition valid_date :: "ymd \<Rightarrow> bool" where
  "valid_date = (\<lambda>(y, m, d). 1 \<le> y \<and> y \<le> 9999 \<and> 1 \<le> m \<and> m \<le> 12 \<and> 1 \<le> d \<and> d \<le> days_in_month y m)"

definition days_before_month :: "nat \<Rightarrow> nat \<Rightarrow> nat" where
  "days_before_month y m = sum_list (map (days_in_month y) [1..<m])"

definition days_before_year :: "nat \<Rightarrow> nat" where
  "days_before_year y = (y - 1) * 365 + (y - 1) div 4 - (y - 1) div 100 + (y - 1) div 400"

text \<open>\<open>date.toordinal\<close>; subtracting two dates subtracts these.\<close>

definition ordinal :: "ymd \<Rightarrow> int" where
  "ordinal = (\<lambda>(y, m, d). int (days_before_year y + days_before_month y m + d))"

text \<open>Zero-padded decimal digits, \<open>isoformat\<close>, and \<open>fromisoformat\<close> on its results.\<close>

fun padded :: "nat \<Rightarrow> nat \<Rightarrow> ustr" where
  "padded 0 n = []"
| "padded (Suc w) n = padded w (n div 10) @ [48 + n mod 10]"

definition isoformat :: "ymd \<Rightarrow> ustr" where
  "isoformat = (\<lambda>(y, m, d). padded 4 y @ [45] @ padded 2 m @ [45] @ padded 2 d)"

definition fromisoformat :: "ustr \<Rightarrow> ymd" where
  "fromisoformat s = (nat (dec_val (take 4 s)), nat (dec_val (take 2 (drop 5 s))),
                      nat (dec_val (take 2 (drop 8 s))))"

text \<open>The \<open><\<close> of Python strings.\<close>

fun str_less :: "ustr \<Rightarrow> ustr \<Rightarrow> bool" where
  "str_less _ [] = False"
| "str_less [] (y # ys) = True"
| "str_less (x # xs) (y # ys) = (x < y \<or> x = y \<and> str_less xs ys)"

subsection \<open>Parsing\<close>

text \<open>What \<open>to_date\<close> is handed: \<open>None\<close>, a \<open>date\<close>, or an object with its \<open>str\<close>.\<close>

datatype dateobj = DtNone | DtDate ymd | DtOther ustr

definition mk_date :: "nat \<Rightarrow> nat \<Rightarrow> nat \<Rightarrow> ustr option" where
  "mk_date y m d = (if valid_date (y, m, d) then Some (isoformat (y, m, d)) else None)"

text \<open>\<open>int(group)\<close> of a group of decimal digits.\<close>

definition group_val :: "unicode \<Rightarrow> ustr \<Rightarrow> nat" where
  "group_val U ds = foldl (\<lambda>a c. 10 * a + (case udigit U c of None \<Rightarrow> 0 | Some v \<Rightarrow> v)) 0 ds"

text \<open>The words for day, month and year; the accented letters of the last two are the code points 225 and 259.\<close>

definition lit_thang :: ustr where "lit_thang = [116, 104, 225, 110, 103]"
definition lit_nam :: ustr where "lit_nam = [110, 259, 109]"

definition rx_vn :: "rx list" where
  "rx_vn = [Group 1 2, Spaces, Lit lit_thang, Spaces, Group 1 2, Spaces, Lit lit_nam, Spaces, Group 4 4]"

definition rx_iso :: "rx list" where
  "rx_iso = [WordB, Group 4 4, OneOf [47, 45, 46], Group 1 2, OneOf [47, 45, 46], Group 1 2, WordB]"

definition rx_dmy :: "rx list" where
  "rx_dmy = [WordB, Group 1 2, OneOf [47, 45, 46], Group 1 2, OneOf [47, 45, 46], Group 4 4, WordB]"

definition to_date :: "unicode \<Rightarrow> dateobj \<Rightarrow> ustr option" where
  "to_date U v = (case v of
       DtNone \<Rightarrow> None
     | DtDate d \<Rightarrow> Some (isoformat d)
     | DtOther t \<Rightarrow>
        (let s = ulower U (py_strip t) in
         if s = [] then None
         else case rx_search U rx_vn None s of
           Some gs \<Rightarrow> mk_date (group_val U (gs ! 2)) (group_val U (gs ! 1)) (group_val U (gs ! 0))
         | None \<Rightarrow>
            (case rx_search U rx_iso None s of
               Some gs \<Rightarrow> mk_date (group_val U (gs ! 0)) (group_val U (gs ! 1)) (group_val U (gs ! 2))
             | None \<Rightarrow>
                (case rx_search U rx_dmy None s of
                   Some gs \<Rightarrow> mk_date (group_val U (gs ! 2)) (group_val U (gs ! 1)) (group_val U (gs ! 0))
                 | None \<Rightarrow> None))))"

definition parse_date :: "unicode \<Rightarrow> ustr \<Rightarrow> ustr tool_result" where
  "parse_date U value = (case to_date U (DtOther value) of
       None \<Rightarrow> ToolError [value]
     | Some out \<Rightarrow> ToolOk out)"

subsection \<open>Ordering a chain of dates\<close>

text \<open>An item of the list: its label (\<open>None\<close> when the key is absent) and its date.\<close>

record date_item =
  di_label :: "ustr option"
  di_date :: dateobj

fun show_nat :: "nat \<Rightarrow> ustr" where
  "show_nat n = (if n < 10 then [48 + n] else show_nat (n div 10) @ [48 + n mod 10])"

declare show_nat.simps [simp del]

record order_report =
  or_ordered :: bool
  or_parsed :: "(ustr \<times> ustr) list"
  or_unparsed :: "ustr list"
  or_violations :: "((ustr \<times> ustr) \<times> (ustr \<times> ustr)) list"
  or_note :: bool   \<comment> \<open>whether the note \<open>fewer than 2 dates parsed\<close> is attached\<close>

fun split_dates :: "unicode \<Rightarrow> nat \<Rightarrow> date_item list \<Rightarrow> (ustr \<times> ustr) list \<times> ustr list" where
  "split_dates U i [] = ([], [])"
| "split_dates U i (x # xs) =
     (let label = (case di_label x of None \<Rightarrow> 35 # show_nat i | Some l \<Rightarrow> l);
          (parsed, unparsed) = split_dates U (Suc i) xs in
      case to_date U (di_date x) of
        Some out \<Rightarrow> ((label, out) # parsed, unparsed)
      | None \<Rightarrow> (parsed, label # unparsed))"

definition check_date_order :: "unicode \<Rightarrow> date_item list \<Rightarrow> order_report tool_result" where
  "check_date_order U dates =
     (let (parsed, unparsed) = split_dates U 0 dates;
          violations = filter (\<lambda>(prev, cur). str_less (snd cur) (snd prev)) (zip parsed (tl parsed))
      in ToolOk \<lparr>or_ordered = (violations = []), or_parsed = parsed, or_unparsed = unparsed,
           or_violations = violations, or_note = (length parsed < 2)\<rparr>)"

subsection \<open>Invoice age\<close>

record age_report =
  ag_invoice :: ustr
  ag_ref :: ustr
  ag_days :: int
  ag_future :: bool
  ag_over_max :: bool
  ag_max_days :: int

text \<open>\<open>today\<close> is the value of \<open>date.today()\<close>; an empty \<open>ref_date\<close> counts as absent.\<close>

definition invoice_age ::
  "unicode \<Rightarrow> ymd \<Rightarrow> ustr \<Rightarrow> ustr option \<Rightarrow> int \<Rightarrow> age_report tool_result" where
  "invoice_age U today invoice_date ref_date max_days =
     (case to_date U (DtOther invoice_date) of
        None \<Rightarrow> ToolError [invoice_date]
      | Some idate \<Rightarrow>
          (let ref = (case ref_date of
                 Some r \<Rightarrow> if r \<noteq> [] then to_date U (DtOther r) else Some (isoformat today)
               | None \<Rightarrow> Some (isoformat today))
           in case ref of
                None \<Rightarrow> ToolError (case ref_date of None \<Rightarrow> [] | Some r \<Rightarrow> [r])
              | Some ref' \<Rightarrow>
                  (let age = ordinal (fromisoformat ref') - ordinal (fromisoformat idate)
                   in ToolOk \<lparr>ag_invoice = idate, ag_ref = ref', ag_days = age, ag_future = (age < 0),
                        ag_over_max = (max_days < age), ag_max_days = max_days\<rparr>)))"

subsection \<open>Padded digits\<close>

lemma length_padded [simp]: "length (padded w n) = w"
  by (induction w n rule: padded.induct) auto

lemma padded_digit: "c \<in> set (padded w n) \<Longrightarrow> is_digit c"
  by (induction w n rule: padded.induct) (auto simp: is_digit_def)

lemma dec_val_snoc: "dec_val (ds @ [c]) = 10 * dec_val ds + int (c - 48)"
  by (simp add: dec_val_def)

lemma dec_val_padded: "n < 10 ^ w \<Longrightarrow> dec_val (padded w n) = int n"
proof (induction w n rule: padded.induct)
  case (1 n)
  then show ?case by (simp add: dec_val_def)
next
  case (2 w n)
  then have "n div 10 < 10 ^ w" by simp
  then have "dec_val (padded w (n div 10)) = int (n div 10)" by (rule "2.IH")
  moreover have "10 * int (n div 10) + int (n mod 10) = int n"
    by (simp flip: of_nat_mult of_nat_add add: zdiv_int zmod_int)
  ultimately show ?case by (simp add: dec_val_snoc)
qed

lemma fromisoformat_isoformat:
  "valid_date d \<Longrightarrow> fromisoformat (isoformat d) = d"
proof -
  assume v: "valid_date d"
  obtain y m dd where d: "d = (y, m, dd)" by (cases d) auto
  have "y < 10 ^ 4" "m < 10 ^ 2" "dd < 10 ^ 2"
    using v by (auto simp: d valid_date_def days_in_month_def split: if_splits)
  then show ?thesis by (simp add: d isoformat_def fromisoformat_def dec_val_padded)
qed

lemma isoformat_inject: "\<lbrakk>valid_date a; valid_date b; isoformat a = isoformat b\<rbrakk> \<Longrightarrow> a = b"
  by (metis fromisoformat_isoformat)

lemma isoformat_nonempty [simp]: "isoformat d \<noteq> []"
  by (cases d) (simp add: isoformat_def)

subsection \<open>The string order on ISO dates\<close>

lemma str_less_append_eq: "length a = length b \<Longrightarrow>
  str_less (a @ s) (b @ t) \<longleftrightarrow> str_less a b \<or> a = b \<and> str_less s t"
  by (induction a b rule: list_induct2) auto

lemma str_less_irrefl [simp]: "\<not> str_less s s"
  by (induction s) auto

lemma dec_less:
  "c < 10 \<Longrightarrow> d < 10 \<Longrightarrow> 10 * a + c < 10 * b + d \<longleftrightarrow> a < b \<or> a = b \<and> c < (d :: nat)"
  "c < 10 \<Longrightarrow> d < 10 \<Longrightarrow> 10 * a + c = 10 * b + d \<longleftrightarrow> a = b \<and> c = (d :: nat)"
  by presburger+

lemma padded_less: "\<lbrakk>m < 10 ^ w; n < 10 ^ w\<rbrakk> \<Longrightarrow>
  (str_less (padded w m) (padded w n) \<longleftrightarrow> m < n) \<and> (padded w m = padded w n \<longleftrightarrow> m = n)"
proof (induction w arbitrary: m n)
  case (Suc w)
  then have "m div 10 < 10 ^ w" "n div 10 < 10 ^ w" by simp_all
  then have IH: "str_less (padded w (m div 10)) (padded w (n div 10)) \<longleftrightarrow> m div 10 < n div 10"
    "padded w (m div 10) = padded w (n div 10) \<longleftrightarrow> m div 10 = n div 10"
    using Suc.IH by blast+
  have "(m < n) = (m div 10 < n div 10 \<or> m div 10 = n div 10 \<and> m mod 10 < n mod 10)"
    "(m = n) = (m div 10 = n div 10 \<and> m mod 10 = n mod 10)"
    using dec_less [of "m mod 10" "n mod 10" "m div 10" "n div 10"] by simp_all
  then show ?case using IH by (auto simp: str_less_append_eq)
qed simp

definition ymd_less :: "ymd \<Rightarrow> ymd \<Rightarrow> bool" where
  "ymd_less = (\<lambda>(y, m, d) (y', m', d'). y < y' \<or> y = y' \<and> (m < m' \<or> m = m' \<and> d < d'))"

lemma str_less_isoformat:
  assumes "valid_date a" "valid_date b"
  shows "str_less (isoformat a) (isoformat b) \<longleftrightarrow> ymd_less a b"
proof -
  obtain y m d y' m' d' where ab: "a = (y, m, d)" "b = (y', m', d')" by (cases a; cases b) auto
  have "y < 10 ^ 4" "m < 10 ^ 2" "d < 10 ^ 2" "y' < 10 ^ 4" "m' < 10 ^ 2" "d' < 10 ^ 2"
    using assms by (auto simp: ab valid_date_def days_in_month_def split: if_splits)
  then show ?thesis
    using padded_less [of y 4 y'] padded_less [of m 2 m'] padded_less [of d 2 d']
    by (auto simp: ab isoformat_def ymd_less_def str_less_append_eq)
qed

lemma days_before_month_step:
  "1 \<le> m \<Longrightarrow> days_before_month y (Suc m) = days_before_month y m + days_in_month y m"
  by (simp add: days_before_month_def)

lemma days_before_month_mono:
  "\<lbrakk>1 \<le> m; m < m'\<rbrakk> \<Longrightarrow> days_before_month y m + days_in_month y m \<le> days_before_month y m'"
proof (induction m' rule: less_induct)
  case (less m')
  show ?case
  proof (cases "m' = Suc m")
    case True
    with less.prems show ?thesis by (simp add: days_before_month_step)
  next
    case False
    with less.prems obtain k where k: "m' = Suc k" "m < k" by (cases m') auto
    with less have "days_before_month y m + days_in_month y m \<le> days_before_month y k" by simp
    with k less.prems show ?thesis by (simp add: days_before_month_step)
  qed
qed

lemma days_before_month_13: "days_before_month y 13 = (if leap y then 366 else 365)"
proof -
  have "[1..<13] = [1, 2, 3, 4, 5, 6, 7, 8, 9, 10, 11, 12 :: nat]" by (simp add: upt_rec)
  then show ?thesis by (simp add: days_before_month_def days_in_month_def)
qed

lemma days_before_year_step:
  "1 \<le> y \<Longrightarrow> days_before_year (Suc y) = days_before_year y + (if leap y then 366 else 365)"
proof -
  assume y: "1 \<le> y"
  then obtain k where k: "y = Suc k" by (cases y) auto
  have d: "k div 100 = k div 4 div 25" "k div 400 = k div 4 div 100"
    "Suc k div 100 = Suc k div 4 div 25" "Suc k div 400 = Suc k div 4 div 100"
    by (simp_all flip: div_mult2_eq)
  have st: "Suc k div 4 = k div 4 + (if Suc k mod 4 = 0 then 1 else 0)"
    "Suc k div 100 = k div 100 + (if Suc k mod 100 = 0 then 1 else 0)"
    "Suc k div 400 = k div 400 + (if Suc k mod 400 = 0 then 1 else 0)"
    by (simp_all add: div_Suc)
  have im: "Suc k mod 400 = 0 \<Longrightarrow> Suc k mod 100 = 0" "Suc k mod 100 = 0 \<Longrightarrow> Suc k mod 4 = 0"
    using dvd_trans [of 100 400 "Suc k"] dvd_trans [of 4 100 "Suc k"] by (simp_all add: dvd_eq_mod_eq_0)
  have le: "k div 100 \<le> k div 4" by (simp add: div_le_mono2)
  have lhs: "days_before_year (Suc (Suc k)) = Suc k * 365 + Suc k div 4 - Suc k div 100 + Suc k div 400"
    and rhs: "days_before_year (Suc k) = k * 365 + k div 4 - k div 100 + k div 400"
    by (simp_all only: days_before_year_def diff_Suc_1)
  have arith: "Suc k * 365 + (A + a) - (B + b) + (C + c) = k * 365 + A - B + C + (365 + a - b + c)"
    if "B \<le> A" "b \<le> a" for A B C a b c
    unfolding mult_Suc using that by linarith
  have "(if Suc k mod 100 = 0 then 1 else 0) \<le> (if Suc k mod 4 = 0 then 1 else (0 :: nat))"
    using im by simp
  then have "days_before_year (Suc (Suc k)) = days_before_year (Suc k) +
      (365 + (if Suc k mod 4 = 0 then 1 else 0) - (if Suc k mod 100 = 0 then 1 else 0)
        + (if Suc k mod 400 = 0 then 1 else 0))"
    unfolding lhs rhs st by (rule arith [OF le])
  moreover have "365 + (if Suc k mod 4 = 0 then 1 else 0) - (if Suc k mod 100 = 0 then 1 else 0)
        + (if Suc k mod 400 = 0 then 1 else 0) = (if leap (Suc k) then 366 else (365 :: nat))"
    unfolding leap_def
    by (cases "Suc k mod 4 = 0"; cases "Suc k mod 100 = 0"; cases "Suc k mod 400 = 0") (use im in simp_all)
  ultimately show ?thesis by (simp only: k)
qed

lemma days_before_year_mono:
  "\<lbrakk>1 \<le> y; y < y'\<rbrakk> \<Longrightarrow> days_before_year y + (if leap y then 366 else 365) \<le> days_before_year y'"
proof (induction y' rule: less_induct)
  case (less y')
  show ?case
  proof (cases "y' = Suc y")
    case True
    with less.prems show ?thesis by (simp add: days_before_year_step)
  next
    case False
    with less.prems obtain k where k: "y' = Suc k" "y < k" by (cases y') auto
    with less have "days_before_year y + (if leap y then 366 else 365) \<le> days_before_year k" by simp
    with k less.prems show ?thesis by (simp add: days_before_year_step split: if_splits)
  qed
qed

lemma day_of_year_bound:
  assumes "valid_date (y, m, d)"
  shows "days_before_month y m + d \<le> (if leap y then 366 else 365)"
proof -
  have "1 \<le> m" "m < 13" "d \<le> days_in_month y m" using assms by (auto simp: valid_date_def)
  then have "days_before_month y m + d \<le> days_before_month y 13"
    using days_before_month_mono [of m 13 y] by simp
  then show ?thesis by (simp add: days_before_month_13)
qed

lemma ordinal_strict_mono:
  assumes "valid_date a" "valid_date b" "ymd_less a b"
  shows "ordinal a < ordinal b"
proof -
  obtain y m d y' m' d' where ab: "a = (y, m, d)" "b = (y', m', d')" by (cases a; cases b) auto
  have va: "1 \<le> y" "1 \<le> m" "d \<le> days_in_month y m" and vb: "1 \<le> d'"
    using assms by (auto simp: ab valid_date_def)
  from assms(3) consider "y < y'" | "y = y'" "m < m'" | "y = y'" "m = m'" "d < d'"
    by (auto simp: ab ymd_less_def)
  then show ?thesis
  proof cases
    case 1
    then show ?thesis
      using days_before_year_mono [OF va(1) 1] day_of_year_bound [of y m d] assms(1) vb
      by (simp add: ab ordinal_def split: if_splits)
  next
    case 2
    then show ?thesis
      using days_before_month_mono [OF va(2) 2(2), of y] va(3) vb by (simp add: ab ordinal_def)
  next
    case 3
    then show ?thesis by (simp add: ab ordinal_def)
  qed
qed

lemma ymd_less_linear: "ymd_less a b \<or> a = b \<or> ymd_less b a"
  by (cases a; cases b) (auto simp: ymd_less_def)

lemma ordinal_less_iff:
  assumes "valid_date a" "valid_date b"
  shows "ordinal a < ordinal b \<longleftrightarrow> ymd_less a b"
  using ordinal_strict_mono [OF assms] ordinal_strict_mono [OF assms(2,1)] ymd_less_linear [of a b]
  by fastforce

lemma str_less_ordinal:
  "\<lbrakk>valid_date a; valid_date b\<rbrakk> \<Longrightarrow>
   str_less (isoformat a) (isoformat b) \<longleftrightarrow> ordinal a < ordinal b"
  by (simp add: str_less_isoformat ordinal_less_iff)

subsection \<open>Results of parsing\<close>

text \<open>Whatever \<open>to_date\<close> returns is the ISO form of a calendar date.\<close>

definition date_arg_ok :: "dateobj \<Rightarrow> bool" where
  "date_arg_ok v = (case v of DtDate d \<Rightarrow> valid_date d | _ \<Rightarrow> True)"

lemma mk_date_Some: "mk_date y m d = Some r \<longleftrightarrow> valid_date (y, m, d) \<and> r = isoformat (y, m, d)"
  by (auto simp: mk_date_def)

lemma to_date_iso:
  "\<lbrakk>to_date U v = Some r; date_arg_ok v\<rbrakk> \<Longrightarrow> \<exists>d. valid_date d \<and> r = isoformat d"
  by (auto simp: to_date_def date_arg_ok_def mk_date_Some Let_def
      split: dateobj.splits option.splits if_splits)

lemma split_dates_iso:
  "\<lbrakk>split_dates U i xs = (p, u); list_all (\<lambda>x. date_arg_ok (di_date x)) xs; q \<in> set p\<rbrakk>
   \<Longrightarrow> \<exists>d. valid_date d \<and> snd q = isoformat d"
proof (induction xs arbitrary: i p u)
  case (Cons x xs)
  obtain p' u' where r: "split_dates U (Suc i) xs = (p', u')" by force
  show ?case
  proof (cases "to_date U (di_date x)")
    case None
    with Cons.prems r have "q \<in> set p'" by (simp add: Let_def)
    with Cons.IH [OF r] Cons.prems(2) show ?thesis by simp
  next
    case (Some out)
    with Cons.prems r have "snd q = out \<or> q \<in> set p'" by (auto simp: Let_def)
    with Cons.IH [OF r] Cons.prems(2) to_date_iso [OF Some] show ?thesis by auto
  qed
qed simp

text \<open>The day numbers of the parsed dates.\<close>

definition parsed_days :: "order_report \<Rightarrow> int list" where
  "parsed_days r = map (\<lambda>(_, s). ordinal (fromisoformat s)) (or_parsed r)"

lemma sorted_zip_tl: "sorted xs \<longleftrightarrow> (\<forall>(a, b) \<in> set (zip xs (tl xs)). a \<le> b)"
proof (induction xs)
  case (Cons x xs)
  then show ?case by (cases xs) auto
qed simp

subsection \<open>Reading dates back\<close>

text \<open>
  What the round trips need of the Unicode database: the ASCII digits are digits and word
  characters, the separators are neither, and lower-casing fixes both.
\<close>

definition unicode_ok :: "unicode \<Rightarrow> bool" where
  "unicode_ok U \<longleftrightarrow>
     (\<forall>c. 48 \<le> c \<and> c \<le> 57 \<longrightarrow> udigit U c = Some (c - 48) \<and> uword U c)
     \<and> (\<forall>c \<in> {45, 46, 47}. udigit U c = None \<and> \<not> uword U c)
     \<and> (\<forall>s. set s \<subseteq> {45..57} \<longrightarrow> ulower U s = s)"

definition ascii_unicode :: unicode where
  "ascii_unicode = \<lparr>udigit = (\<lambda>c. if 48 \<le> c \<and> c \<le> 57 then Some (c - 48) else None),
     uword = (\<lambda>c. 48 \<le> c \<and> c \<le> 57 \<or> 65 \<le> c \<and> c \<le> 90 \<or> 97 \<le> c \<and> c \<le> 122 \<or> c = 95),
     ulower = map (\<lambda>c. if 65 \<le> c \<and> c \<le> 90 then c + 32 else c)\<rparr>"

lemma unicode_ok_ascii: "unicode_ok ascii_unicode"
proof -
  have "map (\<lambda>c. if 65 \<le> c \<and> c \<le> 90 then c + 32 else c) s = s" if "set s \<subseteq> {45..57 :: nat}" for s
    using that by (induction s) auto
  then show ?thesis by (simp add: unicode_ok_def ascii_unicode_def)
qed

lemma rx_vn_no_match: "116 \<notin> set s \<Longrightarrow> rx_match U rx_vn prev s = []"
proof -
  define rest where "rest = [Spaces, Group 1 2, Spaces, Lit lit_nam, Spaces, Group 4 4]"
  have lit: "rx_match U (Lit lit_thang # rest) prev s = []" if "116 \<notin> set s" for prev s
    using that by (auto simp: starts_with_iff lit_thang_def)
  have spaces: "rx_match U (Spaces # Lit lit_thang # rest) prev s = []" if "116 \<notin> set s" for prev s
  proof -
    have "116 \<notin> set (drop j s)" for j using that set_drop_subset by (metis subsetD)
    then show ?thesis by (simp add: lit del: upt_Suc rx_match.simps(4))
  qed
  assume "116 \<notin> set s"
  then have "116 \<notin> set (drop j s)" for j using set_drop_subset by (metis subsetD)
  then have "rx_match U (Group 1 2 # Spaces # Lit lit_thang # rest) prev s = []"
    by (auto simp: spaces simp del: upt_Suc rx_match.simps(3,4))
  then show ?thesis by (simp only: rx_vn_def rest_def)
qed

lemma rx_search_Nil: "rx_search U rs prev [] = (case rx_match U rs prev [] of gs # _ \<Rightarrow> Some gs | [] \<Rightarrow> None)"
  by (subst rx_search.simps) (simp split: list.split)

lemma rx_search_Cons: "rx_search U rs prev (c # t) =
   (case rx_match U rs prev (c # t) of gs # _ \<Rightarrow> Some gs | [] \<Rightarrow> rx_search U rs (Some c) t)"
  by (subst rx_search.simps) (simp split: list.split)

lemma rx_vn_no_search: "116 \<notin> set s \<Longrightarrow> rx_search U rx_vn prev s = None"
  by (induction s arbitrary: prev) (simp_all add: rx_search_Nil rx_search_Cons rx_vn_no_match)

lemma padded_2: "padded 2 n = [48 + n div 10 mod 10, 48 + n mod 10]"
proof -
  have "(2 :: nat) = Suc (Suc 0)" by simp
  then show ?thesis by (simp only: padded.simps append.simps)
qed

lemma padded_4: "padded 4 n = [48 + n div 10 div 10 div 10 mod 10, 48 + n div 10 div 10 mod 10,
    48 + n div 10 mod 10, 48 + n mod 10]"
proof -
  have "(4 :: nat) = Suc (Suc (Suc (Suc 0)))" by simp
  then show ?thesis by (simp only: padded.simps append.simps)
qed

lemma group_val_padded:
  assumes "unicode_ok U"
  shows "n < 10 ^ w \<Longrightarrow> group_val U (padded w n) = n"
proof (induction w arbitrary: n)
  case (Suc w)
  have "udigit U (48 + n mod 10) = Some (n mod 10)" using assms by (simp add: unicode_ok_def)
  moreover have "group_val U (padded w (n div 10)) = n div 10" using Suc by simp
  ultimately show ?case by (simp add: group_val_def)
qed (simp add: group_val_def)

lemma upt_1_3: "rev [1..<3] = [2, 1 :: nat]" "rev [Suc 0..<3] = [2, 1 :: nat]" "rev [4..<5] = [4 :: nat]" "rev [4..<Suc 4] = [4 :: nat]"
  by (simp_all add: upt_rec)

lemma rx_iso_isoformat:
  assumes U: "unicode_ok U"
  shows "rx_search U rx_iso None (isoformat (y, m, d)) = Some [padded 4 y, padded 2 m, padded 2 d]"
proof -
  have dig: "udigit U (48 + n mod 10) = Some (n mod 10)" "uword U (48 + n mod 10)" for n
    using U by (simp_all add: unicode_ok_def)
  show ?thesis
    by (simp add: rx_search_Cons rx_iso_def isoformat_def padded_2 padded_4 upt_1_3 is_word_def head_def
        dig nth_append)
qed

text \<open>The form \<open>dd<sep>mm<sep>yyyy\<close> of a date.\<close>

definition dmy_form :: "nat \<Rightarrow> ymd \<Rightarrow> ustr" where
  "dmy_form sep = (\<lambda>(y, m, d). padded 2 d @ [sep] @ padded 2 m @ [sep] @ padded 4 y)"

lemma rx_dmy_form:
  assumes U: "unicode_ok U" and sep: "sep \<in> set [45, 46, 47]"
  shows "rx_search U rx_iso None (dmy_form sep (y, m, d)) = None"
    "rx_search U rx_dmy None (dmy_form sep (y, m, d)) = Some [padded 2 d, padded 2 m, padded 4 y]"
proof -
  have dig: "udigit U (48 + n mod 10) = Some (n mod 10)" "uword U (48 + n mod 10)" for n
    using U by (simp_all add: unicode_ok_def)
  have s: "udigit U sep = None" "\<not> uword U sep" using U sep by (auto simp: unicode_ok_def)
  have ne: "48 + n mod 10 \<noteq> 47" for n :: nat by simp
  show "rx_search U rx_iso None (dmy_form sep (y, m, d)) = None"
    by (simp add: rx_search_Cons rx_search_Nil rx_iso_def dmy_form_def padded_2 padded_4 upt_1_3 is_word_def
        head_def dig s)
  show "rx_search U rx_dmy None (dmy_form sep (y, m, d)) = Some [padded 2 d, padded 2 m, padded 4 y]"
    using sep by (simp add: rx_search_Cons rx_search_Nil rx_dmy_def dmy_form_def padded_2 padded_4 upt_1_3 is_word_def
        head_def dig s) auto
qed

lemma padded_range: "set (padded w n) \<subseteq> {45..57}"
  using padded_digit by (fastforce simp: is_digit_def)

lemma isoformat_chars: "set (isoformat d) \<subseteq> {45..57}"
  by (cases d) (use padded_range in \<open>auto simp: isoformat_def\<close>)

lemma dmy_form_chars: "sep \<in> set [45, 46, 47] \<Longrightarrow> set (dmy_form sep d) \<subseteq> {45..57}"
  by (cases d) (use padded_range in \<open>auto simp: dmy_form_def\<close>)

lemma strip_date_chars: "set s \<subseteq> {45..57} \<Longrightarrow> py_strip s = s"
proof (cases "s = []")
  case True
  then show ?thesis by (simp add: py_strip_def)
next
  case False
  assume a: "set s \<subseteq> {45..57}"
  have "\<not> py_space c" if "c \<in> {45..57}" for c using that by (auto simp: py_space_def)
  with a False show ?thesis using hd_in_set [of s] last_in_set [of s] by (intro py_strip_trim) blast+
qed

lemma to_date_chars:
  assumes "unicode_ok U" "set s \<subseteq> {45..57}" "s \<noteq> []"
  shows "to_date U (DtOther s) =
    (case rx_search U rx_iso None s of
       Some gs \<Rightarrow> mk_date (group_val U (gs ! 0)) (group_val U (gs ! 1)) (group_val U (gs ! 2))
     | None \<Rightarrow> (case rx_search U rx_dmy None s of
         Some gs \<Rightarrow> mk_date (group_val U (gs ! 2)) (group_val U (gs ! 1)) (group_val U (gs ! 0))
       | None \<Rightarrow> None))"
proof -
  have "116 \<notin> set s" using assms(2) by auto
  moreover have "ulower U s = s" using assms(1,2) by (simp add: unicode_ok_def)
  ultimately show ?thesis
    using assms by (simp add: to_date_def strip_date_chars rx_vn_no_search)
qed

lemma valid_date_digits:
  "valid_date (y, m, d) \<Longrightarrow> y < 10 ^ 4 \<and> m < 10 ^ 2 \<and> d < 10 ^ 2"
  by (auto simp: valid_date_def days_in_month_def split: if_splits)

lemma to_date_isoformat:
  assumes "unicode_ok U" "valid_date d"
  shows "to_date U (DtOther (isoformat d)) = Some (isoformat d)"
proof -
  obtain y m dd where d: "d = (y, m, dd)" by (cases d) auto
  show ?thesis
    using assms to_date_chars [OF assms(1) isoformat_chars isoformat_nonempty] valid_date_digits [of y m dd]
    by (simp add: d rx_iso_isoformat group_val_padded mk_date_def)
qed

subsection \<open>Properties\<close>

text \<open>
  \<open>check_date_order\<close> compares ISO strings, and that is the chronological comparison: the
  chain is reported ordered exactly when the day numbers of the dates that parsed are in
  non-decreasing order, and the reported violations are exactly the neighbouring pairs whose
  later label has the earlier day.
\<close>

theorem check_date_order_chronological:
  assumes "list_all (\<lambda>x. date_arg_ok (di_date x)) xs"
  shows "\<exists>r. check_date_order U xs = ToolOk r \<and>
    (or_ordered r \<longleftrightarrow> sorted (parsed_days r)) \<and>
    or_violations r = filter (\<lambda>(p, q). ordinal (fromisoformat (snd q)) < ordinal (fromisoformat (snd p)))
      (zip (or_parsed r) (tl (or_parsed r)))"
proof -
  obtain p u where pu: "split_dates U 0 xs = (p, u)" by force
  define day where "day = (\<lambda>q :: ustr \<times> ustr. ordinal (fromisoformat (snd q)))"
  have less: "str_less (snd q) (snd q') \<longleftrightarrow> day q < day q'" if "q \<in> set p" "q' \<in> set p" for q q'
    using split_dates_iso [OF pu assms that(1)] split_dates_iso [OF pu assms that(2)]
    by (auto simp: day_def fromisoformat_isoformat str_less_ordinal)
  have zip_in: "a \<in> set p \<and> b \<in> set p" if "(a, b) \<in> set (zip p (tl p))" for a b
    using that by (cases p) (auto dest: set_zip_leftD set_zip_rightD)
  have viol: "filter (\<lambda>(a, b). str_less (snd b) (snd a)) (zip p (tl p))
      = filter (\<lambda>(a, b). day b < day a) (zip p (tl p))"
  proof (rule filter_cong [OF refl])
    fix q
    assume q: "q \<in> set (zip p (tl p))"
    obtain a b where ab: "q = (a, b)" by (cases q)
    have "a \<in> set p \<and> b \<in> set p" using zip_in [of a b] q ab by blast
    then show "(case q of (a, b) \<Rightarrow> str_less (snd b) (snd a)) = (case q of (a, b) \<Rightarrow> day b < day a)"
      using less [of b a] by (simp only: ab prod.case)
  qed
  have "zip (map day p) (tl (map day p)) = map (\<lambda>(a, b). (day a, day b)) (zip p (tl p))"
    by (simp add: map_tl [symmetric] zip_map_map)
  then have "sorted (map day p) \<longleftrightarrow> (\<forall>(a, b) \<in> set (zip p (tl p)). day a \<le> day b)"
    by (auto simp: sorted_zip_tl)
  also have "\<dots> \<longleftrightarrow> filter (\<lambda>(a, b). day b < day a) (zip p (tl p)) = []"
    by (auto simp: filter_empty_conv not_less)
  finally show ?thesis
    using viol by (simp add: check_date_order_def pu Let_def parsed_days_def day_def
        case_prod_beta')
qed

text \<open>
  C40.  Reading back: for every calendar date, \<open>parse_date\<close> of its ISO form and of its
  \<open>dd<sep>mm<sep>yyyy\<close> form, for each of the three separators, returns the ISO form.
\<close>

theorem parse_date_forms:
  assumes "unicode_ok U" "valid_date d" "sep \<in> set [45, 46, 47]"
  shows "parse_date U (isoformat d) = ToolOk (isoformat d)
    \<and> parse_date U (dmy_form sep d) = ToolOk (isoformat d)"
proof
  show "parse_date U (isoformat d) = ToolOk (isoformat d)"
    by (simp add: parse_date_def to_date_isoformat assms)
  obtain y m dd where d: "d = (y, m, dd)" by (cases d) auto
  have ne: "dmy_form sep d \<noteq> []" by (simp add: d dmy_form_def)
  show "parse_date U (dmy_form sep d) = ToolOk (isoformat d)"
    using assms to_date_chars [OF assms(1) dmy_form_chars [OF assms(3)] ne] valid_date_digits [of y m dd]
    by (simp add: parse_date_def d rx_dmy_form group_val_padded mk_date_def)
qed

lemma valid_leap_day: "valid_date (2024, 2, 29)" "valid_date (2024, 3, 5)"
  by (simp_all add: valid_date_def days_in_month_def leap_def)

theorem parse_date_forms_witness:
  "parse_date ascii_unicode (isoformat (2024, 2, 29)) = ToolOk (isoformat (2024, 2, 29))
    \<and> parse_date ascii_unicode (dmy_form 47 (2024, 2, 29)) = ToolOk (isoformat (2024, 2, 29))"
  by (rule parse_date_forms) (simp_all add: unicode_ok_ascii valid_leap_day)

text \<open>\<open>invoice_age\<close> on ISO dates never fails and reports the calendar distance: the days
  from the invoice to the reference date (today when none is given), \<open>future_dated\<close> exactly
  when the invoice is later on the calendar than the reference, and \<open>over_max\<close> exactly when
  the reference lies more than \<open>max_days\<close> days after it.\<close>

theorem invoice_age_days:
  assumes "unicode_ok U" "valid_date i" "valid_date today" "\<forall>d. r = Some d \<longrightarrow> valid_date d"
  shows "\<exists>a. invoice_age U today (isoformat i) (map_option isoformat r) mx = ToolOk a \<and>
     ag_days a = ordinal (case r of None \<Rightarrow> today | Some d \<Rightarrow> d) - ordinal i \<and>
     (ag_future a \<longleftrightarrow> ymd_less (case r of None \<Rightarrow> today | Some d \<Rightarrow> d) i) \<and>
     (ag_over_max a \<longleftrightarrow> ordinal i + mx < ordinal (case r of None \<Rightarrow> today | Some d \<Rightarrow> d))"
proof -
  define ref where "ref = (case r of None \<Rightarrow> today | Some d \<Rightarrow> d)"
  have v: "valid_date ref" using assms by (simp add: ref_def split: option.split)
  have "invoice_age U today (isoformat i) (map_option isoformat r) mx = ToolOk
      \<lparr>ag_invoice = isoformat i, ag_ref = isoformat ref, ag_days = ordinal ref - ordinal i,
       ag_future = (ordinal ref < ordinal i), ag_over_max = (mx < ordinal ref - ordinal i),
       ag_max_days = mx\<rparr>"
    using assms v by (cases r) (simp_all add: invoice_age_def Let_def to_date_isoformat
        fromisoformat_isoformat ref_def)
  then show ?thesis
    using ordinal_less_iff [OF v assms(2)] by (auto simp: ref_def [symmetric])
qed

theorem invoice_age_days_witness:
  "\<exists>a. invoice_age ascii_unicode (2024, 3, 5) (isoformat (2024, 2, 29)) None 4 = ToolOk a \<and>
     ag_days a = 5 \<and> \<not> ag_future a \<and> ag_over_max a"
proof -
  have "ordinal (2024, 3, 5) - ordinal (2024, 2, 29) = 5"
    by (simp add: ordinal_def days_before_month_def days_in_month_def leap_def upt_rec)
  then show ?thesis
    using invoice_age_days [of ascii_unicode "(2024, 2, 29)" "(2024, 3, 5)" None 4]
    by (auto simp: unicode_ok_ascii valid_leap_day ymd_less_def)
qed

theorem check_date_order_chronological_witness:
  "\<exists>r. check_date_order ascii_unicode
     [\<lparr>di_label = None, di_date = DtDate (2024, 2, 29)\<rparr>, \<lparr>di_label = None, di_date = DtDate (2024, 3, 5)\<rparr>]
       = ToolOk r \<and> (or_ordered r \<longleftrightarrow> sorted (parsed_days r)) \<and>
    or_violations r = filter (\<lambda>(p, q). ordinal (fromisoformat (snd q)) < ordinal (fromisoformat (snd p)))
      (zip (or_parsed r) (tl (or_parsed r)))"
  by (rule check_date_order_chronological) (simp add: date_arg_ok_def valid_leap_day)

end
