(* ===== verification/Bucket.thy ===== *)
theory Bucket
  imports Dates
begin

section \<open>The distributed token bucket\<close>

text \<open>
  \<open>doci/llm/ratelimit.py\<close> and \<open>doci/agents/ratelimit.py\<close>.  The two Lua scripts, whose
  text is in the source, are functions on the state of one Redis hash; Redis runs each
  atomically, so a fleet of workers is a sequence of script runs.  Times are seconds on the
  Redis clock and, like the token counts, exact rationals: rounding of doubles is not
  modelled.  \<open>int\<close> of a string accepts the decimal digits of the \<open>unicode\<close> parameter.
\<close>

subsection \<open>The scripts\<close>

text \<open>The hash at the key, with the time its \<open>EXPIRE\<close> removes it.\<close>

record bucket_hash =
  bk_tokens :: rat
  bk_ts :: rat
  bk_expires :: rat

type_synonym bucket_state = "bucket_hash option"

text \<open>\<open>HMGET\<close> of both fields, then the refill both scripts begin with.\<close>

definition lua_refill :: "rat \<Rightarrow> rat \<Rightarrow> rat \<Rightarrow> bucket_state \<Rightarrow> rat" where
  "lua_refill rate capacity now st =
     (let (tokens, ts) = (case st of
            None \<Rightarrow> (capacity, now)
          | Some h \<Rightarrow> if bk_expires h \<le> now then (capacity, now) else (bk_tokens h, bk_ts h));
          elapsed = now - ts;
          elapsed' = (if elapsed < 0 then 0 else elapsed)
      in min capacity (tokens + elapsed' * rate))"

definition lua_acquire ::
  "rat \<Rightarrow> rat \<Rightarrow> int \<Rightarrow> int \<Rightarrow> rat \<Rightarrow> bucket_state \<Rightarrow> int \<times> bucket_state" where
  "lua_acquire rate capacity requested ttl now st =
     (let tokens = lua_refill rate capacity now st;
          req = of_int requested;
          (tokens', wait_ms) = (if tokens \<ge> req then (tokens - req, 0)
                                else (tokens, \<lceil>(req - tokens) / rate * 1000\<rceil>))
      in (wait_ms, Some \<lparr>bk_tokens = tokens', bk_ts = now, bk_expires = now + of_int ttl\<rparr>))"

definition lua_adjust ::
  "rat \<Rightarrow> rat \<Rightarrow> int \<Rightarrow> int \<Rightarrow> rat \<Rightarrow> bucket_state \<Rightarrow> bucket_state" where
  "lua_adjust rate capacity delta ttl now st =
     (let tokens = lua_refill rate capacity now st - of_int delta;
          tokens' = (if tokens > capacity then capacity else tokens)
      in Some \<lparr>bk_tokens = tokens', bk_ts = now, bk_expires = now + of_int ttl\<rparr>)"

subsection \<open>Configuration\<close>

type_synonym environ = "ustr \<Rightarrow> ustr option"

definition default_rate_limit_tpm :: int where "default_rate_limit_tpm = 500000"
definition default_rate_limit_window_s :: int where "default_rate_limit_window_s = 60"

text \<open>\<open>a or b\<close> on what \<open>os.getenv\<close> returns: an empty value counts as unset.\<close>

definition truthy :: "ustr option \<Rightarrow> ustr option" where
  "truthy v = (case v of Some s \<Rightarrow> if s = [] then None else Some s | None \<Rightarrow> None)"

text \<open>\<open>DOCI_LLM_<TASK>_<field>\<close>, then \<open>DOCI_LLM_<field>\<close>; the caller supplies the default.\<close>

definition llm_env :: "(ustr \<Rightarrow> ustr) \<Rightarrow> environ \<Rightarrow> ustr \<Rightarrow> ustr \<Rightarrow> ustr option" where
  "llm_env upper env task field =
     (case truthy (env (lit ''DOCI_LLM_'' @ upper task @ lit ''_'' @ field)) of
        Some v \<Rightarrow> Some v
      | None \<Rightarrow> truthy (env (lit ''DOCI_LLM_'' @ field)))"

text \<open>\<open>int(s)\<close>: surrounding space, a sign, digits with single underscores between them.\<close>

fun int_digits :: "unicode \<Rightarrow> bool \<Rightarrow> nat \<Rightarrow> ustr \<Rightarrow> nat option" where
  "int_digits U ok acc [] = (if ok then Some acc else None)"
| "int_digits U ok acc (c # cs) = (case udigit U c of
     Some v \<Rightarrow> int_digits U True (10 * acc + v) cs
   | None \<Rightarrow> if c = 95 \<and> ok then int_digits U False acc cs else None)"

definition py_int :: "unicode \<Rightarrow> ustr \<Rightarrow> int option" where
  "py_int U s = (case py_strip s of
     [] \<Rightarrow> None
   | c # cs \<Rightarrow> if c = 45 then map_option (\<lambda>n. - int n) (int_digits U False 0 cs)
              else if c = 43 then map_option int (int_digits U False 0 cs)
              else map_option int (int_digits U False 0 (c # cs)))"

text \<open>A setting that is present but is not a number raises, \<open>None\<close>.\<close>

definition resolve_setting ::
  "unicode \<Rightarrow> (ustr \<Rightarrow> ustr) \<Rightarrow> environ \<Rightarrow> ustr \<Rightarrow> ustr \<Rightarrow> int \<Rightarrow> int option \<Rightarrow> int option" where
  "resolve_setting U upper env task field dflt arg = (case arg of
     Some v \<Rightarrow> Some v
   | None \<Rightarrow> (case llm_env upper env task field of None \<Rightarrow> Some dflt | Some s \<Rightarrow> py_int U s))"

definition resolve_rate_limit ::
  "unicode \<Rightarrow> (ustr \<Rightarrow> ustr) \<Rightarrow> environ \<Rightarrow> ustr \<Rightarrow> int option \<Rightarrow> int option \<Rightarrow> (int \<times> int) option" where
  "resolve_rate_limit U upper env task tpm window_s =
     (case resolve_setting U upper env task (lit ''RATE_LIMIT_TPM'') default_rate_limit_tpm tpm of
        None \<Rightarrow> None
      | Some t \<Rightarrow>
          (case resolve_setting U upper env task (lit ''RATE_LIMIT_WINDOW_S'')
                  default_rate_limit_window_s window_s of
             None \<Rightarrow> None
           | Some w \<Rightarrow> Some (t, w)))"

subsection \<open>The bucket\<close>

record bucket =
  bu_capacity :: rat
  bu_rate :: rat
  bu_key :: ustr
  bu_ttl_s :: int
  bu_max_sleep_s :: rat

definition mk_bucket :: "int \<Rightarrow> int \<Rightarrow> ustr \<Rightarrow> int option \<Rightarrow> rat \<Rightarrow> bucket" where
  "mk_bucket tpm window_s key ttl_s max_sleep_s =
     \<lparr>bu_capacity = of_int tpm, bu_rate = of_int tpm / of_int (max 1 window_s), bu_key = key,
      bu_ttl_s = (case ttl_s of Some t \<Rightarrow> t | None \<Rightarrow> max (window_s * 2) 60),
      bu_max_sleep_s = max_sleep_s\<rparr>"

definition clamp_need :: "bucket \<Rightarrow> int \<Rightarrow> int" where
  "clamp_need B tokens = (let need = max 0 tokens in
     if of_int need > bu_capacity B then \<lfloor>bu_capacity B\<rfloor> else need)"

text \<open>
  The polling loop of \<open>acquire\<close>.  Round \<open>i\<close> runs the script at \<open>now\<close>; when told to wait it
  sleeps \<open>min(wait_ms / 1000, max_sleep)\<close> and \<open>late i\<close> more (the jitter and every other delay
  before the next run).  \<open>others i\<close> is what the other workers do to the hash meanwhile.
  The result is the time of the successful run and the hash after it; \<open>None\<close> means that the
  fuel ran out while the loop was still waiting.
\<close>

fun acquire_loop ::
  "bucket \<Rightarrow> int \<Rightarrow> (nat \<Rightarrow> rat) \<Rightarrow> (nat \<Rightarrow> bucket_state \<Rightarrow> bucket_state) \<Rightarrow> nat \<Rightarrow> nat \<Rightarrow> rat
   \<Rightarrow> bucket_state \<Rightarrow> (rat \<times> bucket_state) option" where
  "acquire_loop B need late others 0 i now st = None"
| "acquire_loop B need late others (Suc fuel) i now st =
     (let (wait_ms, st') = lua_acquire (bu_rate B) (bu_capacity B) need (bu_ttl_s B) now st in
      if wait_ms \<le> 0 then Some (now, st')
      else acquire_loop B need late others fuel (Suc i)
             (now + (min (of_int wait_ms / 1000) (bu_max_sleep_s B) + late i)) (others i st'))"

definition acquire ::
  "bucket \<Rightarrow> int \<Rightarrow> (nat \<Rightarrow> rat) \<Rightarrow> (nat \<Rightarrow> bucket_state \<Rightarrow> bucket_state) \<Rightarrow> nat \<Rightarrow> rat
   \<Rightarrow> bucket_state \<Rightarrow> (rat \<times> bucket_state) option" where
  "acquire B tokens late others fuel now st =
     acquire_loop B (clamp_need B tokens) late others fuel 0 now st"

definition adjust :: "bucket \<Rightarrow> int \<Rightarrow> rat \<Rightarrow> bucket_state \<Rightarrow> bucket_state" where
  "adjust B delta now st = (if delta = 0 then st
     else lua_adjust (bu_rate B) (bu_capacity B) delta (bu_ttl_s B) now st)"

subsection \<open>The middleware\<close>

text \<open>
  A message's \<open>usage_metadata\<close>: \<open>None\<close> when absent or empty, else its \<open>total_tokens\<close> entry.  A
  response has a \<open>result\<close> list of messages, or is itself a message.
\<close>

type_synonym usage = "int option option"

datatype response = RsResult "usage list" | RsBare usage

fun first_total :: "usage list \<Rightarrow> int option" where
  "first_total [] = None"
| "first_total (u # us) = (case u of
     Some (Some t) \<Rightarrow> if t \<noteq> 0 then Some t else first_total us
   | _ \<Rightarrow> first_total us)"

definition actual_total_tokens :: "response \<Rightarrow> int option" where
  "actual_total_tokens r = (let messages = (case r of RsResult ms \<Rightarrow> ms | RsBare u \<Rightarrow> [u])
     in first_total (rev messages))"

text \<open>
  One gated call.  \<open>handler\<close> maps the time it starts to the time it ends, the hash as the other
  workers left it then, and the response, or \<open>None\<close> when it raises; then nothing is given back.
\<close>

datatype call_outcome = StillWaiting | CallRaised bucket_state | CallDone response bucket_state

definition awrap_model_call ::
  "bucket \<Rightarrow> int \<Rightarrow> (rat \<Rightarrow> bucket_state \<Rightarrow> rat \<times> bucket_state \<times> response option)
   \<Rightarrow> (nat \<Rightarrow> rat) \<Rightarrow> (nat \<Rightarrow> bucket_state \<Rightarrow> bucket_state) \<Rightarrow> nat \<Rightarrow> rat \<Rightarrow> bucket_state \<Rightarrow> call_outcome" where
  "awrap_model_call B estimate handler late others fuel now st =
     (case acquire B estimate late others fuel now st of
        None \<Rightarrow> StillWaiting
      | Some (t1, st1) \<Rightarrow>
          (case handler t1 st1 of
             (t2, st2, None) \<Rightarrow> CallRaised st2
           | (t2, st2, Some resp) \<Rightarrow>
               (case actual_total_tokens resp of
                  None \<Rightarrow> CallDone resp st2
                | Some actual \<Rightarrow> CallDone resp (adjust B (actual - estimate) t2 st2))))"

text \<open>\<open>None\<close> when resolving raises; otherwise the list of middleware, one bucket or none.\<close>

definition build_rate_limit_middleware ::
  "unicode \<Rightarrow> (ustr \<Rightarrow> ustr) \<Rightarrow> environ \<Rightarrow> ustr \<Rightarrow> int option \<Rightarrow> int option \<Rightarrow> bucket list option" where
  "build_rate_limit_middleware U upper env task tpm window_s =
     (case resolve_rate_limit U upper env task tpm window_s of
        None \<Rightarrow> None
      | Some (t, w) \<Rightarrow>
          if t \<le> 0 then Some []
          else Some [mk_bucket t w (lit ''ratelimit:llm:'' @ ulower U task) None 5])"

subsection \<open>One script run\<close>

text \<open>A bucket as \<open>mk_bucket\<close> builds it for a positive budget.\<close>

definition bucket_ok :: "bucket \<Rightarrow> bool" where
  "bucket_ok B \<longleftrightarrow> 0 < bu_rate B \<and> 0 < bu_capacity B \<and> 2 * bu_capacity B \<le> bu_rate B * of_int (bu_ttl_s B)
     \<and> 0 < bu_max_sleep_s B"

lemma bucket_ok_mk:
  assumes "0 < tpm" "0 < max_sleep"
  shows "bucket_ok (mk_bucket tpm window_s key None max_sleep)"
proof -
  define w where "w = max 1 window_s"
  define ttl where "ttl = max (window_s * 2) 60"
  have w: "0 < w" "2 * w \<le> ttl" by (auto simp: w_def ttl_def)
  have "2 * (of_int w :: rat) \<le> of_int ttl" using w(2) by (metis of_int_le_iff of_int_mult of_int_numeral)
  then have "of_int tpm * (2 * (of_int w :: rat)) \<le> of_int tpm * of_int ttl"
    using assms(1) by (intro mult_left_mono) auto
  then have "2 * (of_int tpm :: rat) \<le> of_int tpm / of_int w * of_int ttl"
    using w(1) by (simp add: field_simps)
  then show ?thesis
    using assms w(1) by (simp add: bucket_ok_def mk_bucket_def w_def [symmetric] ttl_def [symmetric])
qed

text \<open>
  \<open>level\<close> is what a script finds at a time: the tokens after the refill.  A hash is sound when
  it is not over-full and its debt is at most the capacity.
\<close>

definition level :: "bucket \<Rightarrow> rat \<Rightarrow> bucket_state \<Rightarrow> rat" where
  "level B now st = lua_refill (bu_rate B) (bu_capacity B) now st"

definition hash_sound :: "bucket \<Rightarrow> bucket_state \<Rightarrow> bool" where
  "hash_sound B st \<longleftrightarrow> (case st of None \<Rightarrow> True | Some h \<Rightarrow>
     bk_tokens h \<le> bu_capacity B \<and> - bu_capacity B \<le> bk_tokens h
     \<and> bk_expires h = bk_ts h + of_int (bu_ttl_s B))"

lemma level_le_capacity: "level B now st \<le> bu_capacity B"
  by (simp add: level_def lua_refill_def Let_def split: prod.split)

lemma level_None [simp]: "0 \<le> bu_capacity B \<Longrightarrow> level B now None = bu_capacity B"
  by (simp add: level_def lua_refill_def)

text \<open>
  Expiry is invisible: by the time Redis drops the hash, the refill would have filled the
  bucket anyway.
\<close>

lemma level_sound:
  assumes "bucket_ok B" "hash_sound B (Some h)" "bk_ts h \<le> now"
  shows "level B now (Some h) = min (bu_capacity B) (bk_tokens h + (now - bk_ts h) * bu_rate B)"
proof (cases "bk_expires h \<le> now")
  case True
  have "of_int (bu_ttl_s B) \<le> now - bk_ts h" using True assms(2) by (simp add: hash_sound_def)
  then have "of_int (bu_ttl_s B) * bu_rate B \<le> (now - bk_ts h) * bu_rate B"
    using assms(1) by (intro mult_right_mono) (auto simp: bucket_ok_def)
  moreover have "2 * bu_capacity B \<le> of_int (bu_ttl_s B) * bu_rate B" "- bu_capacity B \<le> bk_tokens h"
    using assms(1,2) by (simp_all add: bucket_ok_def hash_sound_def mult.commute)
  ultimately have "bu_capacity B \<le> bk_tokens h + (now - bk_ts h) * bu_rate B" by linarith
  then show ?thesis using True assms(1) by (simp add: level_def lua_refill_def bucket_ok_def)
next
  case False
  then show ?thesis using assms(3) by (simp add: level_def lua_refill_def)
qed

lemma level_refill:
  assumes "bucket_ok B" "hash_sound B (Some h)" "bk_ts h \<le> now"
  shows "level B now (Some h) \<le> bk_tokens h + (now - bk_ts h) * bu_rate B"
    "bk_tokens h \<le> level B now (Some h)"
proof -
  have "0 \<le> (now - bk_ts h) * bu_rate B" using assms by (simp add: bucket_ok_def)
  then show "level B now (Some h) \<le> bk_tokens h + (now - bk_ts h) * bu_rate B"
    "bk_tokens h \<le> level B now (Some h)"
    using assms(2) by (simp_all add: level_sound [OF assms] hash_sound_def)
qed

text \<open>The hash the scripts leave behind.\<close>

definition hash_at :: "bucket \<Rightarrow> rat \<Rightarrow> rat \<Rightarrow> bucket_hash" where
  "hash_at B now tokens = \<lparr>bk_tokens = tokens, bk_ts = now, bk_expires = now + of_int (bu_ttl_s B)\<rparr>"

lemma hash_at_simps [simp]: "bk_tokens (hash_at B now k) = k" "bk_ts (hash_at B now k) = now"
  by (simp_all add: hash_at_def)

lemma hash_sound_at [simp]:
  "hash_sound B (Some (hash_at B now k)) \<longleftrightarrow> k \<le> bu_capacity B \<and> - bu_capacity B \<le> k"
  by (simp add: hash_sound_def hash_at_def)

lemma acquire_step:
  "lua_acquire (bu_rate B) (bu_capacity B) need (bu_ttl_s B) now st =
     (if of_int need \<le> level B now st then (0, Some (hash_at B now (level B now st - of_int need)))
      else (\<lceil>(of_int need - level B now st) / bu_rate B * 1000\<rceil>, Some (hash_at B now (level B now st))))"
  by (simp add: lua_acquire_def level_def hash_at_def Let_def)

lemma acquire_step_wait:
  assumes "bucket_ok B"
  shows "fst (lua_acquire (bu_rate B) (bu_capacity B) need (bu_ttl_s B) now st) \<le> 0
    \<longleftrightarrow> of_int need \<le> level B now st"
proof (cases "of_int need \<le> level B now st")
  case False
  then have "0 < (of_int need - level B now st) / bu_rate B * 1000"
    using assms by (simp add: bucket_ok_def)
  with False show ?thesis by (simp add: acquire_step not_le)
qed (simp add: acquire_step)

lemma adjust_step:
  "delta \<noteq> 0 \<Longrightarrow> adjust B delta now st =
     Some (hash_at B now (min (bu_capacity B) (level B now st - of_int delta)))"
  by (simp add: adjust_def lua_adjust_def level_def hash_at_def Let_def min_def)

subsection \<open>The fleet\<close>

text \<open>
  Every worker's script runs, in the order Redis executes them, each with its time.  A run's
  charge is what it takes from the bucket: the tokens of a granted reservation, nothing for one
  told to wait, the signed delta of an adjustment.
\<close>

datatype client_op = Acq int | Adj int

fun op_step :: "bucket \<Rightarrow> rat \<times> client_op \<Rightarrow> bucket_state \<Rightarrow> int \<times> bucket_state" where
  "op_step B (t, Acq need) st =
     (let (w, st') = lua_acquire (bu_rate B) (bu_capacity B) need (bu_ttl_s B) t st
      in (if w \<le> 0 then need else 0, st'))"
| "op_step B (t, Adj delta) st = (delta, adjust B delta t st)"

fun run_ops :: "bucket \<Rightarrow> (rat \<times> client_op) list \<Rightarrow> bucket_state \<Rightarrow> int \<times> bucket_state" where
  "run_ops B [] st = (0, st)"
| "run_ops B (x # xs) st =
     (let (c, st1) = op_step B x st; (c', st2) = run_ops B xs st1 in (c + c', st2))"

fun debts_ok :: "bucket \<Rightarrow> (rat \<times> client_op) list \<Rightarrow> bucket_state \<Rightarrow> bool" where
  "debts_ok B [] st = True"
| "debts_ok B (x # xs) st = (hash_sound B (snd (op_step B x st)) \<and> debts_ok B xs (snd (op_step B x st)))"

text \<open>
  The calls of a fleet: a granted reservation opens a call, and its adjustment, of zero when the call raised or
  reported no usage, closes it.  At most \<open>W\<close> calls are open at a time, and none costs more than \<open>D\<close> tokens
  above its reservation.
\<close>

definition granted :: "bucket \<Rightarrow> rat \<Rightarrow> int \<Rightarrow> bucket_state \<Rightarrow> bool" where
  "granted B t need st \<longleftrightarrow> fst (lua_acquire (bu_rate B) (bu_capacity B) need (bu_ttl_s B) t st) \<le> 0"

fun open_calls :: "bucket \<Rightarrow> (rat \<times> client_op) list \<Rightarrow> nat \<Rightarrow> bucket_state \<Rightarrow> nat" where
  "open_calls B [] n st = n"
| "open_calls B ((t, Acq need) # xs) n st =
     open_calls B xs (if granted B t need st then Suc n else n) (snd (op_step B (t, Acq need) st))"
| "open_calls B ((t, Adj delta) # xs) n st = open_calls B xs (n - 1) (snd (op_step B (t, Adj delta) st))"

fun calls_ok :: "bucket \<Rightarrow> nat \<Rightarrow> int \<Rightarrow> (rat \<times> client_op) list \<Rightarrow> nat \<Rightarrow> bucket_state \<Rightarrow> bool" where
  "calls_ok B W D [] n st = True"
| "calls_ok B W D ((t, Acq need) # xs) n st =
     (0 \<le> need \<and> (granted B t need st \<longrightarrow> n < W)
      \<and> calls_ok B W D xs (if granted B t need st then Suc n else n) (snd (op_step B (t, Acq need) st)))"
| "calls_ok B W D ((t, Adj delta) # xs) n st =
     (0 < n \<and> delta \<le> D \<and> calls_ok B W D xs (n - 1) (snd (op_step B (t, Adj delta) st)))"

text \<open>What could have been taken by time \<open>T\<close> at most: the potential of the fleet's budget.\<close>

definition potential :: "bucket \<Rightarrow> rat \<Rightarrow> rat \<Rightarrow> bucket_state \<Rightarrow> rat" where
  "potential B t0 T st = (case st of
     None \<Rightarrow> bu_capacity B + (T - t0) * bu_rate B
   | Some h \<Rightarrow> bk_tokens h + (T - bk_ts h) * bu_rate B)"

definition not_after :: "rat \<Rightarrow> bucket_state \<Rightarrow> bool" where
  "not_after t st = (case st of None \<Rightarrow> True | Some h \<Rightarrow> bk_ts h \<le> t)"

lemma level_potential:
  assumes "bucket_ok B" "hash_sound B st" "not_after t st" "t0 \<le> t" "t \<le> T"
  shows "level B t st + (T - t) * bu_rate B \<le> potential B t0 T st"
proof (cases st)
  case None
  have "(T - t) * bu_rate B \<le> (T - t0) * bu_rate B"
    using assms by (intro mult_right_mono) (auto simp: bucket_ok_def)
  with None assms(1) show ?thesis by (simp add: potential_def bucket_ok_def)
next
  case (Some h)
  then have "level B t st \<le> bk_tokens h + (t - bk_ts h) * bu_rate B"
    using level_refill(1) [OF assms(1)] assms(2,3) by (simp add: not_after_def)
  with Some show ?thesis by (simp add: potential_def algebra_simps)
qed

lemma op_step_potential:
  assumes "bucket_ok B" "hash_sound B st" "not_after t st" "t0 \<le> t" "t \<le> T" "op_step B (t, x) st = (c, st')"
  shows "of_int c + potential B t0 T st' \<le> potential B t0 T st \<and> not_after t st'"
proof -
  have lp: "level B t st + (T - t) * bu_rate B \<le> potential B t0 T st"
    using assms by (intro level_potential)
  show ?thesis
  proof (cases x)
    case (Acq need)
    then show ?thesis
      using assms(6) lp acquire_step_wait [OF assms(1), of need t st]
      by (auto simp: acquire_step potential_def not_after_def split: if_splits)
  next
    case (Adj delta)
    show ?thesis
    proof (cases "delta = 0")
      case True
      then show ?thesis using Adj assms(3,6) by (auto simp: adjust_def)
    next
      case False
      then have "c = delta" "st' = Some (hash_at B t (min (bu_capacity B) (level B t st - of_int delta)))"
        using Adj assms(6) by (auto simp: adjust_step)
      then show ?thesis using lp by (simp add: potential_def not_after_def min_def)
    qed
  qed
qed

lemma run_ops_potential:
  assumes "bucket_ok B"
  shows "\<lbrakk>hash_sound B st; debts_ok B xs st; sorted (map fst xs); \<forall>x \<in> set xs. t0 \<le> fst x \<and> fst x \<le> T;
    \<forall>x \<in> set xs. not_after (fst x) st; t0 \<le> T; not_after T st; run_ops B xs st = (c, st')\<rbrakk>
    \<Longrightarrow> of_int c + level B T st' \<le> potential B t0 T st"
proof (induction xs arbitrary: st c)
  case Nil
  then show ?case using level_potential [OF assms, of st T t0 T] by simp
next
  case (Cons x xs)
  obtain t op where x: "x = (t, op)" by (cases x)
  obtain c1 st1 where s: "op_step B x st = (c1, st1)" by force
  obtain c2 where r: "run_ops B xs st1 = (c2, st')" and c: "c = c1 + c2"
    using Cons.prems s by (auto split: prod.splits)
  have 1: "of_int c1 + potential B t0 T st1 \<le> potential B t0 T st \<and> not_after t st1"
    using Cons.prems s by (intro op_step_potential [OF assms]) (auto simp: x)
  have na: "not_after t' st1" if "t \<le> t'" for t'
    using 1 that by (auto simp: not_after_def split: option.splits)
  have "of_int c2 + level B T st' \<le> potential B t0 T st1"
  proof (rule Cons.IH [OF _ _ _ _ _ _ _ r])
    show "\<forall>y \<in> set xs. not_after (fst y) st1" using Cons.prems na by (auto simp: x)
    show "not_after T st1" using Cons.prems na by (auto simp: x)
  qed (use Cons.prems s in auto)
  with 1 c show ?case by simp
qed

text \<open>
  The debt of the bucket is at most \<open>D\<close> per closed call since no grant leaves one, so every hash is sound.
\<close>

definition debt_le :: "bucket \<Rightarrow> rat \<Rightarrow> bucket_state \<Rightarrow> bool" where
  "debt_le B q st \<longleftrightarrow> (case st of None \<Rightarrow> True | Some h \<Rightarrow> - q \<le> bk_tokens h)"

lemma debt_le_level:
  assumes "bucket_ok B" "hash_sound B st" "not_after t st" "debt_le B q st" "0 \<le> q"
  shows "- q \<le> level B t st"
  using assms level_refill(2) [OF assms(1)] by (cases st) (fastforce simp: bucket_ok_def not_after_def debt_le_def)+

lemma granted_level: "bucket_ok B \<Longrightarrow> granted B t need st \<longleftrightarrow> of_int need \<le> level B t st"
  by (simp add: granted_def acquire_step_wait)

lemma debt_step: "(of_nat (W - n) + 1) * of_int D \<le> of_nat (W - (n - 1)) * (of_int D :: rat)" if "0 < n" "n \<le> W" "0 \<le> D"
proof -
  have "of_nat (W - (n - 1)) = (of_nat (W - n) + 1 :: rat)" using that by (simp add: of_nat_diff)
  then show ?thesis by (simp only: order_refl)
qed

lemma calls_sound:
  assumes "bucket_ok B" "0 \<le> D" "of_nat W * of_int D \<le> bu_capacity B"
  shows "\<lbrakk>hash_sound B st; debt_le B (of_nat (W - n) * of_int D) st; n \<le> W; sorted (map fst xs);
    \<forall>x \<in> set xs. not_after (fst x) st; calls_ok B W D xs n st; run_ops B xs st = (c, st');
    \<forall>x \<in> set xs. fst x \<le> T; not_after T st\<rbrakk>
    \<Longrightarrow> debts_ok B xs st \<and> hash_sound B st' \<and> not_after T st' \<and> open_calls B xs n st \<le> W
      \<and> debt_le B (of_nat (W - open_calls B xs n st) * of_int D) st'"
proof (induction xs arbitrary: st c n)
  case Nil
  then show ?case by simp
next
  case (Cons x xs)
  obtain t op where x: "x = (t, op)" by fastforce
  obtain c1 st1 where s: "op_step B x st = (c1, st1)" by fastforce
  obtain c2 where r: "run_ops B xs st1 = (c2, st')" using Cons.prems(7) s by (auto split: prod.splits)
  have q: "0 \<le> of_nat (W - m) * (of_int D :: rat) \<and> of_nat (W - m) * (of_int D :: rat) \<le> bu_capacity B" for m
  proof -
    have "of_nat (W - m) * (of_int D :: rat) \<le> of_nat W * of_int D" using assms(2) by (intro mult_right_mono) auto
    then show ?thesis using assms(2,3) by simp
  qed
  have l: "- (of_nat (W - n) * of_int D) \<le> level B t st" "level B t st \<le> bu_capacity B"
    using debt_le_level [OF assms(1) Cons.prems(1) _ Cons.prems(2)] Cons.prems(5) q level_le_capacity by (auto simp: x)
  define n1 where "n1 = (case op of Acq need \<Rightarrow> if granted B t need st then Suc n else n | Adj delta \<Rightarrow> n - 1)"
  have rest: "calls_ok B W D xs n1 st1" "open_calls B (x # xs) n st = open_calls B xs n1 st1"
    using Cons.prems(6) s by (auto simp: x n1_def split: client_op.splits)
  have "n1 \<le> W \<and> hash_sound B st1 \<and> debt_le B (of_nat (W - n1) * of_int D) st1 \<and> (st1 = st \<or> (\<exists>k. st1 = Some (hash_at B t k)))"
  proof (cases op)
    case (Acq need)
    have need: "0 \<le> need" "granted B t need st \<longrightarrow> n < W" using Cons.prems(6) by (auto simp: x Acq)
    show ?thesis
    proof (cases "of_int need \<le> level B t st")
      case True
      then have "st1 = Some (hash_at B t (level B t st - of_int need))" using s by (auto simp: x Acq acquire_step)
      moreover have "(0 :: rat) \<le> of_int need" using need(1) by simp
      moreover have "0 < bu_capacity B" using assms(1) by (simp add: bucket_ok_def)
      ultimately show ?thesis
        using True need(2) l(2) q [of "Suc n"] by (auto simp: n1_def Acq granted_level [OF assms(1)] debt_le_def)
    next
      case False
      then have "st1 = Some (hash_at B t (level B t st))" using s by (auto simp: x Acq acquire_step)
      then show ?thesis
        using False Cons.prems(3) l q [of n] by (auto simp: n1_def Acq granted_level [OF assms(1)] debt_le_def)
    qed
  next
    case (Adj delta)
    have d: "0 < n" "delta \<le> D" using Cons.prems(6) by (auto simp: x Adj)
    note step = debt_step [OF d(1) Cons.prems(3) assms(2)]
    have dq: "(of_int delta :: rat) \<le> of_int D" "(0 :: rat) \<le> of_int D" using d(2) assms(2) by simp_all
    show ?thesis
    proof (cases "delta = 0")
      case True
      then have "st1 = st" using s by (simp add: x Adj adjust_def)
      moreover have "debt_le B (of_nat (W - (n - 1)) * of_int D) st"
        using Cons.prems(2) step dq by (auto simp: debt_le_def algebra_simps split: option.splits)
      ultimately show ?thesis using Cons.prems(1,3) by (auto simp: n1_def Adj)
    next
      case False
      then have st1: "st1 = Some (hash_at B t (min (bu_capacity B) (level B t st - of_int delta)))"
        using s by (auto simp: x Adj adjust_step)
      have low: "- (of_nat (W - (n - 1)) * of_int D) \<le> level B t st - of_int delta"
        using l(1) step dq by (simp add: algebra_simps)
      moreover have "0 < bu_capacity B" using assms(1) by (simp add: bucket_ok_def)
      ultimately show ?thesis using Cons.prems(3) q [of "n - 1"] by (auto simp: n1_def Adj st1 debt_le_def min_def)
    qed
  qed
  note st1 = this
  have na: "not_after t' st1" if "t \<le> t'" "not_after t' st" for t' using that st1 by (auto simp: not_after_def)
  have "debts_ok B xs st1 \<and> hash_sound B st' \<and> not_after T st' \<and> open_calls B xs n1 st1 \<le> W
      \<and> debt_le B (of_nat (W - open_calls B xs n1 st1) * of_int D) st'"
  proof (rule Cons.IH [OF _ _ _ _ _ rest(1) r])
    show "\<forall>y \<in> set xs. not_after (fst y) st1" using Cons.prems(4,5) na by (auto simp: x)
    show "not_after T st1" using Cons.prems(8,9) na by (auto simp: x)
  qed (use st1 Cons.prems(4,8) in auto)
  then show ?case using st1 rest(2) s by (simp del: of_nat_diff)
qed

lemma run_ops_snoc: "run_ops B (xs @ [x]) st = (case run_ops B xs st of (c, s) \<Rightarrow> (case op_step B x s of (c', s') \<Rightarrow> (c + c', s')))"
  by (induction xs arbitrary: st) (auto split: prod.splits)

subsection \<open>Waiting\<close>

lemma level_wait:
  assumes "bucket_ok B" "k \<le> bu_capacity B" "- bu_capacity B \<le> k" "0 \<le> d"
  shows "level B (now + d) (Some (hash_at B now k)) = min (bu_capacity B) (k + d * bu_rate B)"
  using level_sound [OF assms(1), of "hash_at B now k" "now + d"] assms by simp

lemma min_wait: "\<lbrakk>a \<le> b; 0 < b; 0 \<le> e; 0 < m\<rbrakk> \<Longrightarrow> min a m \<le> min b m + e \<and> 0 \<le> min b m + (e :: rat)"
  by (auto simp: min_def)

lemma level_formula:
  assumes "bucket_ok B" "hash_sound B (Some h)"
  shows "level B u (Some h) = min (bu_capacity B) (bk_tokens h + max 0 (u - bk_ts h) * bu_rate B)"
proof (cases "bk_ts h \<le> u")
  case True
  then show ?thesis using level_sound [OF assms] by simp
next
  case False
  have "0 < 2 * bu_capacity B" "2 * bu_capacity B \<le> bu_rate B * of_int (bu_ttl_s B)" "0 < bu_rate B" using assms(1) by (auto simp: bucket_ok_def)
  then have "0 < bu_rate B * of_int (bu_ttl_s B)" by linarith
  then have "(0 :: rat) < of_int (bu_ttl_s B)" using \<open>0 < bu_rate B\<close> by (simp add: zero_less_mult_iff)
  then show ?thesis using False assms(2) by (simp add: level_def lua_refill_def hash_sound_def)
qed

text \<open>Waiting never loses tokens, and gains at most the refill.\<close>

lemma level_wait_bounds:
  assumes "bucket_ok B" "hash_sound B s" "u \<le> v"
  shows "level B u s \<le> level B v s" "level B v s \<le> level B u s + (v - u) * bu_rate B"
proof -
  have r: "0 < bu_rate B" "0 < bu_capacity B" using assms(1) by (auto simp: bucket_ok_def)
  have "level B u s \<le> level B v s \<and> level B v s \<le> level B u s + (v - u) * bu_rate B"
  proof (cases s)
    case None
    then show ?thesis using r assms(3) by simp
  next
    case (Some h)
    let ?a = "max 0 (u - bk_ts h)" and ?b = "max 0 (v - bk_ts h)"
    have "?a \<le> ?b" "?b \<le> ?a + (v - u)" using assms(3) by auto
    then have "?a * bu_rate B \<le> ?b * bu_rate B" "?b * bu_rate B \<le> (?a + (v - u)) * bu_rate B" "0 \<le> (v - u) * bu_rate B"
      using r assms(3) by (auto intro!: mult_right_mono)
    then show ?thesis using assms(2) by (simp add: Some level_formula [OF assms(1)] distrib_right min_def)
  qed
  then show "level B u s \<le> level B v s" "level B v s \<le> level B u s + (v - u) * bu_rate B" by blast+
qed

text \<open>The tokens other workers ask for, in reservations of at least zero and in adjustments.\<close>

fun op_tokens :: "rat \<times> client_op \<Rightarrow> rat" where
  "op_tokens (t, Acq need) = of_int need"
| "op_tokens (t, Adj delta) = of_int (max 0 delta)"

definition asked :: "(rat \<times> client_op) list \<Rightarrow> rat" where
  "asked ops = sum_list (map op_tokens ops)"

definition requests :: "(rat \<times> client_op) list \<Rightarrow> bool" where
  "requests ops \<longleftrightarrow> (\<forall>x \<in> set ops. 0 \<le> op_tokens x)"

lemma asked_simps [simp]: "asked [] = 0" "asked (x # ops) = op_tokens x + asked ops"
  "requests [] = True" "requests (x # ops) = (0 \<le> op_tokens x \<and> requests ops)"
  by (simp_all add: asked_def requests_def)

lemma asked_nonneg: "requests ops \<Longrightarrow> 0 \<le> asked ops"
  by (induction ops) simp_all

lemma hash_at_level:
  assumes "bucket_ok B" "hash_sound B s" "k \<le> bu_capacity B" "- bu_capacity B \<le> k" "level B t s - a \<le> k" "0 \<le> a"
  shows "level B u s - a \<le> level B u (Some (hash_at B t k))"
proof -
  have l: "level B u (Some (hash_at B t k)) = min (bu_capacity B) (k + max 0 (u - t) * bu_rate B)"
    using level_formula [OF assms(1), of "hash_at B t k" u] assms(3,4) by simp
  show ?thesis
  proof (cases "t \<le> u")
    case True
    then have "level B u s - a \<le> k + max 0 (u - t) * bu_rate B" using level_wait_bounds(2) [OF assms(1,2) True] assms(5) by simp
    then show ?thesis unfolding l using level_le_capacity [of B u s] assms(6) by simp
  next
    case False
    then have "level B u s - a \<le> k" using level_wait_bounds(1) [OF assms(1,2), of u t] assms(5) by simp
    then show ?thesis unfolding l using False assms(3) by simp
  qed
qed

lemma op_takes:
  assumes "bucket_ok B" "hash_sound B s" "debt_le B q s" "- bu_capacity B \<le> q" "q + op_tokens x \<le> bu_capacity B" "0 \<le> op_tokens x"
  shows "hash_sound B (snd (op_step B x s)) \<and> debt_le B (q + op_tokens x) (snd (op_step B x s)) \<and> level B u s - op_tokens x \<le> level B u (snd (op_step B x s))"
proof -
  obtain t op where x: "x = (t, op)" by fastforce
  have low: "- q \<le> level B t s"
  proof (cases s)
    case None
    then show ?thesis using assms(1,4) by (simp add: bucket_ok_def)
  next
    case (Some h)
    have "0 \<le> max 0 (t - bk_ts h) * bu_rate B" using assms(1) by (simp add: bucket_ok_def)
    then show ?thesis using assms(2-4) by (simp add: Some level_formula [OF assms(1)] debt_le_def)
  qed
  show ?thesis
  proof (cases "snd (op_step B x s) = s")
    case True
    then show ?thesis using assms(2,3,6) by (auto simp: debt_le_def split: option.splits)
  next
    case False
    have "\<exists>k. snd (op_step B x s) = Some (hash_at B t k) \<and> k \<le> bu_capacity B \<and> level B t s - op_tokens x \<le> k"
    proof (cases op)
      case (Acq need)
      then show ?thesis using level_le_capacity [of B t s] assms(6) by (auto simp: x acquire_step)
    next
      case (Adj delta)
      then have "delta \<noteq> 0" using False by (auto simp: x adjust_def)
      then show ?thesis using level_le_capacity [of B t s] by (auto simp: x Adj adjust_step max_def)
    qed
    then obtain k where k: "snd (op_step B x s) = Some (hash_at B t k)" "k \<le> bu_capacity B" "level B t s - op_tokens x \<le> k" by blast
    have "- bu_capacity B \<le> k" using low k(3) assms(5) by linarith
    then show ?thesis
      using k low hash_at_level [OF assms(1,2) k(2) _ k(3) assms(6), of u] by (simp add: debt_le_def)
  qed
qed

lemma run_takes:
  assumes "bucket_ok B"
  shows "\<lbrakk>hash_sound B s; debt_le B q s; - bu_capacity B \<le> q; q + asked ops \<le> bu_capacity B; requests ops\<rbrakk>
    \<Longrightarrow> level B u s - asked ops \<le> level B u (snd (run_ops B ops s))"
proof (induction ops arbitrary: s q)
  case (Cons x ops)
  have "0 \<le> asked ops" using Cons.prems(5) asked_nonneg by simp
  then have x: "hash_sound B (snd (op_step B x s)) \<and> debt_le B (q + op_tokens x) (snd (op_step B x s))
      \<and> level B u s - op_tokens x \<le> level B u (snd (op_step B x s))"
    using Cons.prems by (intro op_takes [OF assms]) auto
  have "level B u (snd (op_step B x s)) - asked ops \<le> level B u (snd (run_ops B ops (snd (op_step B x s))))"
    using Cons.prems x by (intro Cons.IH [of _ "q + op_tokens x"]) auto
  then show ?case using x by (simp add: split_beta)
qed simp

text \<open>
  A round that is told to wait gains \<open>rate * max_sleep\<close> or all that is missing, less what the others take.
\<close>

lemma wait_round:
  assumes B: "bucket_ok B" and need: "of_int need \<le> bu_capacity B" and late: "0 \<le> x"
    and l: "l = level B now st" "l < of_int need" "- bu_capacity B \<le> l - asked ops" and ops: "requests ops"
    and w: "w = \<lceil>(of_int need - l) / bu_rate B * 1000\<rceil>" and d: "d = min (of_int w / 1000) (bu_max_sleep_s B) + x"
  shows "0 < w \<and> 0 \<le> d \<and> lua_acquire (bu_rate B) (bu_capacity B) need (bu_ttl_s B) now st = (w, Some (hash_at B now l))
    \<and> min (of_int need) (l + bu_rate B * bu_max_sleep_s B) - asked ops \<le> level B (now + d) (snd (run_ops B ops (Some (hash_at B now l))))"
proof -
  have pos: "0 < bu_rate B" "0 < bu_max_sleep_s B" using B by (auto simp: bucket_ok_def)
  have wp: "0 < w" using l(2) pos by (simp add: w)
  have "(of_int need - l) / bu_rate B * 1000 \<le> of_int w" unfolding w by (rule le_of_int_ceiling)
  then have "(of_int need - l) / bu_rate B \<le> of_int w / 1000" by (simp add: field_simps)
  moreover have "0 < (of_int w / 1000 :: rat)" using wp by simp
  ultimately have dd: "min ((of_int need - l) / bu_rate B) (bu_max_sleep_s B) \<le> d" "0 \<le> d"
    using min_wait [of "(of_int need - l) / bu_rate B" "of_int w / 1000" x "bu_max_sleep_s B"] late pos unfolding d by blast+
  have "min ((of_int need - l) / bu_rate B) (bu_max_sleep_s B) * bu_rate B \<le> d * bu_rate B"
    using dd(1) pos by (intro mult_right_mono) auto
  then have dr: "min (of_int need - l) (bu_max_sleep_s B * bu_rate B) \<le> d * bu_rate B"
    using pos by (simp add: min_def split: if_splits) (simp add: field_simps)+
  have a: "0 \<le> asked ops" "l \<le> bu_capacity B" using asked_nonneg [OF ops] level_le_capacity l(1) by auto
  then have s: "hash_sound B (Some (hash_at B now l))" using l(3) by simp
  have "level B (now + d) (Some (hash_at B now l)) = min (bu_capacity B) (l + d * bu_rate B)"
    using level_wait [OF B a(2) _ dd(2)] l(3) a(1) by simp
  moreover have "level B (now + d) (Some (hash_at B now l)) - asked ops \<le> level B (now + d) (snd (run_ops B ops (Some (hash_at B now l))))"
    using l(3) a ops by (intro run_takes [OF B s, of "- l"]) (auto simp: debt_le_def)
  moreover have "lua_acquire (bu_rate B) (bu_capacity B) need (bu_ttl_s B) now st = (w, Some (hash_at B now l))"
    using l(1,2) unfolding acquire_step w by simp
  ultimately show ?thesis using wp dd(2) dr need by (simp add: min_def algebra_simps split: if_splits)
qed

lemma card_shift: "card {j. j < Suc n \<and> P j} = (if P 0 then 1 else 0) + card {j. j < n \<and> P (Suc j)}"
proof -
  have "{j. j < Suc n \<and> P j} = {j :: nat. j = 0 \<and> P 0} \<union> Suc ` {j. j < n \<and> P (Suc j)}" by (auto simp: image_iff less_Suc_eq_0_disj)
  moreover have "card ({j :: nat. j = 0 \<and> P 0} \<union> Suc ` {j. j < n \<and> P (Suc j)}) = card {j :: nat. j = 0 \<and> P 0} + card {j. j < n \<and> P (Suc j)}"
    by (subst card_Un_disjoint) (auto simp: card_image)
  moreover have "{j :: nat. j = 0 \<and> P 0} = (if P 0 then {0} else {})" by auto
  ultimately show ?thesis by simp
qed

text \<open>
  With others taking \<open>asked (ops j)\<close> in round \<open>j\<close>: \<open>m\<close> bounds the rounds in which they take anything, \<open>k\<close> rounds
  refill what is missing and what they take.
\<close>

lemma acquire_loop_returns:
  assumes B: "bucket_ok B" and need: "0 \<le> need" "of_int need \<le> bu_capacity B" and late: "\<forall>i. 0 \<le> late i" and ops: "\<forall>i. requests (ops i)"
  shows "\<lbrakk>n = k + m; S = (\<Sum>j < n. asked (ops (i + j))); - bu_capacity B \<le> level B now st - S;
      of_int need - level B now st + S \<le> of_nat k * (bu_rate B * bu_max_sleep_s B);
      card {j. j < n \<and> asked (ops (i + j)) \<noteq> 0} \<le> m\<rbrakk>
    \<Longrightarrow> \<exists>T r. acquire_loop B need late (\<lambda>i s. snd (run_ops B (ops i) s)) (Suc n) i now st = Some (T, Some (hash_at B T r)) \<and> now \<le> T \<and> 0 \<le> r"
proof (induction n arbitrary: k m i now st S)
  case 0
  then show ?case by (auto simp: acquire_step)
next
  case (Suc n)
  define l where "l = level B now st"
  define S' where "S' = (\<Sum>j < n. asked (ops (Suc i + j)))"
  let ?R = "bu_rate B * bu_max_sleep_s B" and ?others = "\<lambda>i s. snd (run_ops B (ops i) s)"
  have a: "0 \<le> asked (ops j)" for j using asked_nonneg ops by blast
  have S: "S = asked (ops i) + S'" "0 \<le> S'"
    unfolding Suc.prems(2) S'_def by (simp_all add: sum.lessThan_Suc_shift a sum_nonneg del: sum.lessThan_Suc)
  have R: "0 < ?R" using B by (auto simp: bucket_ok_def)
  show ?case
  proof (cases "of_int need \<le> l")
    case True
    then show ?thesis by (auto simp: acquire_step l_def [symmetric])
  next
    case False
    define w where "w = \<lceil>(of_int need - l) / bu_rate B * 1000\<rceil>"
    define d where "d = min (of_int w / 1000) (bu_max_sleep_s B) + late i"
    define st' where "st' = ?others i (Some (hash_at B now l))"
    have round: "0 < w \<and> 0 \<le> d \<and> lua_acquire (bu_rate B) (bu_capacity B) need (bu_ttl_s B) now st = (w, Some (hash_at B now l))
        \<and> min (of_int need) (l + ?R) - asked (ops i) \<le> level B (now + d) st'"
      unfolding st'_def
      by (rule wait_round [OF B need(2) _ l_def _ _ _ w_def d_def]) (use False late ops Suc.prems(3) S in \<open>auto simp: l_def\<close>)
    have step: "acquire_loop B need late ?others (Suc (Suc n)) i now st = acquire_loop B need late ?others (Suc n) (Suc i) (now + d) st'"
      using round unfolding acquire_loop.simps(2) [of B need late _ "Suc n"] d_def st'_def
      by (simp only: prod.case Let_def not_le [symmetric] if_False)
    have "\<exists>T r. acquire_loop B need late ?others (Suc n) (Suc i) (now + d) st' = Some (T, Some (hash_at B T r)) \<and> now + d \<le> T \<and> 0 \<le> r"
    proof (cases "of_int need \<le> level B (now + d) st'")
      case True
      then show ?thesis by (auto simp: acquire_step)
    next
      case miss: False
      have lev: "- bu_capacity B \<le> level B (now + d) st' - S'"
        using round Suc.prems(3) S False R by (simp add: l_def min_def split: if_splits)
      have cd: "(if asked (ops i) \<noteq> 0 then 1 else 0) + card {j. j < n \<and> asked (ops (Suc i + j)) \<noteq> 0} \<le> m"
        using Suc.prems(5) card_shift [of n "\<lambda>j. asked (ops (i + j)) \<noteq> 0"] by (simp split: if_splits)
      show ?thesis
      proof (cases "asked (ops i) = 0")
        case True
        have "0 < k" using Suc.prems(4) S False a [of i] by (cases k) (auto simp: l_def)
        then obtain k' where k': "k = Suc k'" by (cases k) auto
        have full: "l + ?R < of_int need" using round miss True by (simp add: min_def split: if_splits)
        have "of_int need - level B (now + d) st' + S' \<le> of_nat k' * ?R"
          using round full Suc.prems(4) S True by (simp add: k' l_def min_def algebra_simps split: if_splits)
        then show ?thesis
          using Suc.prems(1) cd True lev by (intro Suc.IH [OF _ S'_def, of k' m]) (auto simp: k')
      next
        case False
        then obtain m' where m': "m = Suc m'" using cd by (cases m) auto
        have "of_int need - level B (now + d) st' + S' \<le> of_nat k * ?R"
          using round Suc.prems(4) S R \<open>\<not> of_int need \<le> l\<close> by (simp add: l_def min_def split: if_splits)
        then show ?thesis
          using Suc.prems(1) cd False lev by (intro Suc.IH [OF _ S'_def, of k m']) (auto simp: m')
      qed
    qed
    then obtain T r where T: "acquire_loop B need late ?others (Suc n) (Suc i) (now + d) st' = Some (T, Some (hash_at B T r))"
      "now + d \<le> T" "0 \<le> r" by blast
    then show ?thesis unfolding step using round by (intro exI [of _ T] exI [of _ r]) auto
  qed
qed

text \<open>One who takes the refill just before every poll starves the waiter.\<close>

lemma acquire_starves:
  assumes B: "bucket_ok B" and n: "of_int n = bu_rate B * bu_max_sleep_s B" "n < need" "of_int need \<le> bu_capacity B"
    and greedy: "greedy = (\<lambda>i s. snd (run_ops B [(now + of_nat (Suc i) * bu_max_sleep_s B, Acq n)] s))"
  shows "acquire_loop B need (\<lambda>_. 0) greedy fuel i (now + of_nat i * bu_max_sleep_s B) (Some (hash_at B (now + of_nat i * bu_max_sleep_s B) 0)) = None"
proof (induction fuel arbitrary: i)
  case (Suc fuel)
  define t where "t = now + of_nat i * bu_max_sleep_s B"
  define t' where "t' = now + of_nat (Suc i) * bu_max_sleep_s B"
  have pos: "0 < bu_rate B" "0 < bu_max_sleep_s B" "0 < bu_capacity B" using B by (auto simp: bucket_ok_def)
  have tt: "t' = t + bu_max_sleep_s B" by (simp add: t_def t'_def algebra_simps)
  have nn: "(0 :: rat) < of_int n" using n(1) pos by simp
  have l0: "level B t (Some (hash_at B t 0)) = 0" using level_wait [OF B, of 0 0 t] pos by simp
  have cap: "(of_int n :: rat) \<le> bu_capacity B" using n(2,3) by (meson less_imp_le of_int_le_iff order_trans)
  have l1: "level B t' (Some (hash_at B t 0)) = of_int n"
    using level_wait [OF B, of 0 "bu_max_sleep_s B" t] pos n(1) cap by (simp add: tt mult.commute)
  define w where "w = \<lceil>of_int need / bu_rate B * 1000\<rceil>"
  have "bu_rate B * bu_max_sleep_s B < of_int need" using n(1,2) by (metis of_int_less_iff)
  then have "bu_max_sleep_s B * 1000 \<le> of_int need / bu_rate B * 1000" using pos by (simp add: field_simps)
  also have "\<dots> \<le> of_int w" unfolding w_def by (rule le_of_int_ceiling)
  finally have w: "min (of_int w / 1000) (bu_max_sleep_s B) = bu_max_sleep_s B" "0 < w"
    using pos by (simp_all add: min_def field_simps)
  have acq: "lua_acquire (bu_rate B) (bu_capacity B) need (bu_ttl_s B) t (Some (hash_at B t 0)) = (w, Some (hash_at B t 0))"
    using nn n(2) by (simp add: acquire_step l0 w_def)
  have g: "greedy i (Some (hash_at B t 0)) = Some (hash_at B t' 0)"
    by (simp add: greedy t'_def [symmetric] acquire_step l1 del: of_nat_Suc)
  show ?case
    using Suc [of "Suc i"] w(2) unfolding acquire_loop.simps(2) t_def [symmetric] acq t'_def [symmetric]
    by (simp add: w(1) g tt)
qed simp

subsection \<open>Properties\<close>

text \<open>
  C5.  The budget is enforced across the fleet, up to what calls cost beyond their reservations.  However the
  calls of any number of workers interleave from a fresh key, with at most \<open>W\<close> of them
  open at a time, none costing more than \<open>D\<close> tokens above its reservation, and \<open>W * D\<close> within the capacity:
  the tokens charged by time \<open>T\<close>, less the debt that is left, are within one full budget plus the refill since
  the first run; the debt is at most \<open>D\<close> per call that is not open; and whenever a reservation has just been
  granted there is no debt, so everything charged so far is within the budget plus the refill.
\<close>

theorem fleet_budget:
  assumes "bucket_ok B" "sorted (map fst xs)" "\<forall>x \<in> set xs. t0 \<le> fst x \<and> fst x \<le> T" "t0 \<le> T"
    and "run_ops B xs None = (charged, st)"
    and "calls_ok B W D xs 0 None" "0 \<le> D" "of_nat W * of_int D \<le> bu_capacity B"
  shows "of_int charged + level B T st \<le> bu_capacity B + (T - t0) * bu_rate B
    \<and> of_int charged \<le> bu_capacity B + (T - t0) * bu_rate B + of_nat (W - open_calls B xs 0 None) * of_int D
    \<and> (\<forall>ys t need c s. xs = ys @ [(t, Acq need)] \<longrightarrow> run_ops B ys None = (c, s) \<longrightarrow> granted B t need s \<longrightarrow>
         0 \<le> level B T st \<and> of_int charged \<le> bu_capacity B + (T - t0) * bu_rate B)"
proof -
  have sound: "debts_ok B xs None \<and> hash_sound B st \<and> not_after T st \<and> open_calls B xs 0 None \<le> W
      \<and> debt_le B (of_nat (W - open_calls B xs 0 None) * of_int D) st"
    using assms by (intro calls_sound) (auto simp: hash_sound_def not_after_def debt_le_def)
  have all: "of_int charged + level B T st \<le> potential B t0 T None"
    using assms sound by (intro run_ops_potential [OF assms(1) _ _ assms(2,3) _ assms(4) _ assms(5)])
      (auto simp: hash_sound_def not_after_def)
  have low: "- q \<le> level B T st" if "debt_le B q st" "0 \<le> q" for q
    using debt_le_level [OF assms(1) _ _ that] sound by blast
  have "- (of_nat (W - open_calls B xs 0 None) * of_int D) \<le> level B T st" using sound assms(7) by (intro low) auto
  moreover have "0 \<le> level B T st" if "xs = ys @ [(t, Acq need)]" "run_ops B ys None = (c, s)" "granted B t need s" for ys t need c s
  proof -
    have "st = Some (hash_at B t (level B t s - of_int need))"
      using assms(5) that by (simp add: run_ops_snoc granted_level [OF assms(1)] acquire_step)
    then show ?thesis using that(3) low [of 0] by (simp add: debt_le_def granted_level [OF assms(1)])
  qed
  ultimately show ?thesis using all by (fastforce simp: potential_def)
qed

text \<open>
  A call that reserves 100 of 100 tokens and costs 150: 150 tokens are charged at time 0, and the next call, at 90
  seconds, waits until the bucket has paid the debt back.
\<close>

theorem fleet_budget_witness:
  "let B = mk_bucket 100 60 [] None 5; xs = [(0, Acq 100), (0, Adj 50), (30, Acq 80), (90, Acq 80)] in
   (of_int (fst (run_ops B xs None)) :: rat) = 230 \<and> (of_int (fst (run_ops B xs None)) :: rat) \<le> 100 + 90 * bu_rate B"
proof -
  let ?B = "mk_bucket 100 60 [] None 5" and ?xs = "[(0, Acq 100), (0, Adj 50), (30, Acq 80), (90, Acq 80)] :: (rat \<times> client_op) list"
  have ok: "bucket_ok ?B" by (rule bucket_ok_mk) simp_all
  note ev = mk_bucket_def lua_acquire_def lua_refill_def adjust_def lua_adjust_def Let_def granted_def
  have calls: "calls_ok ?B 1 50 ?xs 0 None" by (simp add: ev)
  have split: "?xs = [(0, Acq 100), (0, Adj 50), (30, Acq 80)] @ [(90, Acq 80)]" by simp
  obtain c s where cs: "run_ops ?B [(0, Acq 100), (0, Adj 50), (30, Acq 80)] None = (c, s)" by fastforce
  then have g: "granted ?B 90 80 s" by (auto simp: ev)
  have "fst (run_ops ?B ?xs None) = 230" by (simp add: ev)
  moreover have "(of_int (fst (run_ops ?B ?xs None)) :: rat) \<le> bu_capacity ?B + (90 - 0) * bu_rate ?B"
    by (rule fleet_budget [OF ok _ _ _ surjective_pairing calls, of 0 90, THEN conjunct2, THEN conjunct2, rule_format,
          OF _ _ _ _ _ split cs g, THEN conjunct2]) (auto simp: mk_bucket_def)
  ultimately show ?thesis by (simp add: Let_def mk_bucket_def)
qed



text \<open>
  C30.  What one gated call costs the bucket.  When the bucket can serve it at once, the model
  reports its usage and no other worker interferes, the level afterwards is the level before
  plus the refill, less the tokens actually used: the reservation is reconciled exactly.  Except
  when the estimate exceeds the capacity: \<open>acquire\<close> reserves only the capacity, yet the
  middleware refunds against the unclamped estimate, so the call is charged
  \<open>estimate - capacity\<close> too little.
\<close>

theorem gated_call_cost:
  assumes "bucket_ok B" "bu_capacity B = of_int cap" "hash_sound B st" "not_after t1 st" "t1 \<le> t2" "0 \<le> estimate"
    and "of_int (clamp_need B estimate) \<le> level B t1 st" "actual_total_tokens resp = Some actual"
    and "actual \<noteq> estimate"
    and "level B t1 st - of_int (clamp_need B estimate) + (t2 - t1) * bu_rate B \<le> bu_capacity B"
    and "- bu_capacity B \<le> level B t1 st"
  shows "\<exists>st'. awrap_model_call B estimate (\<lambda>t st. (t2, st, Some resp)) late others (Suc fuel) t1 st
      = CallDone resp (Some st') \<and> bk_ts st' = t2
    \<and> bk_tokens st' = min (bu_capacity B)
        (level B t1 st + (t2 - t1) * bu_rate B - of_int actual + of_int (max 0 (estimate - cap)))"
proof -
  define need where "need = clamp_need B estimate"
  have need: "need = estimate - max 0 (estimate - cap)" "0 \<le> need"
    using assms(1,2,6) by (auto simp: need_def clamp_need_def Let_def bucket_ok_def)
  have acq: "acquire B estimate late others (Suc fuel) t1 st = Some (t1, Some (hash_at B t1 (level B t1 st - of_int need)))"
    using assms(7) by (simp add: acquire_def need_def acquire_step)
  have "level B (t1 + (t2 - t1)) (Some (hash_at B t1 (level B t1 st - of_int need)))
      = min (bu_capacity B) (level B t1 st - of_int need + (t2 - t1) * bu_rate B)"
    using assms level_le_capacity [of B t1 st] need(2)
    by (intro level_wait) (auto simp: need_def [symmetric] bucket_ok_def)
  then have eq: "level B t2 (Some (hash_at B t1 (level B t1 st - of_int need)))
      = level B t1 st - of_int need + (t2 - t1) * bu_rate B"
    using assms(10) by (simp add: need_def)
  have "(of_int need :: rat) = of_int estimate - of_int (max 0 (estimate - cap))"
    using need(1) by simp
  then have "level B t1 st - of_int need + (t2 - t1) * bu_rate B - of_int (actual - estimate)
      = level B t1 st + (t2 - t1) * bu_rate B - of_int actual + of_int (max 0 (estimate - cap))"
    by simp
  moreover have "awrap_model_call B estimate (\<lambda>t st. (t2, st, Some resp)) late others (Suc fuel) t1 st
      = CallDone resp (Some (hash_at B t2 (min (bu_capacity B)
          (level B t1 st - of_int need + (t2 - t1) * bu_rate B - of_int (actual - estimate)))))"
    using assms(8,9) by (simp add: awrap_model_call_def acq adjust_step eq)
  ultimately show ?thesis by simp
qed

text \<open>A budget of 100 tokens, a call estimated and billed at 250: only 100 tokens are charged.\<close>

theorem gated_call_cost_witness:
  "\<exists>st'. awrap_model_call (mk_bucket 100 60 [] None 5) 250 (\<lambda>t st. (0, st, Some (RsBare (Some (Some 249)))))
        (\<lambda>_. 0) (\<lambda>_. id) (Suc 0) 0 None = CallDone (RsBare (Some (Some 249))) (Some st')
    \<and> bk_ts st' = 0 \<and> bk_tokens st' = 1"
  using gated_call_cost [of "mk_bucket 100 60 [] None 5" 100 None 0 0 250 "RsBare (Some (Some 249))" 249
      "\<lambda>_. 0" "\<lambda>_. id" 0] bucket_ok_mk [of 100 5 60 "[]"]
  by (simp add: mk_bucket_def hash_sound_def not_after_def actual_total_tokens_def clamp_need_def)

end
