(* ===== verification/Registry.thy ===== *)
theory Registry
  imports Prelude "HOL-Library.AList" "HOL-Library.List_Lexorder"
begin

section \<open>The tool registry and keyword discovery\<close>

text \<open>
  \<open>doci/tools/registry.py\<close> and \<open>find_tools.py\<close>.  The registry is the insertion-ordered
  dictionary \<open>_specs\<close>, an association list with distinct keys: \<open>AList.update\<close> replaces the
  value of a key in place and appends a new key at the end, as a Python dictionary does.
  \<open>lower\<close> is \<open>str.lower\<close>.
\<close>

record base_tool =
  t_name :: ustr
  t_description :: "ustr option"
  t_args :: "ustr list"

record tool_spec =
  ts_tool :: base_tool
  ts_tags :: "ustr list"

type_synonym registry = "(ustr \<times> tool_spec) list"

definition spec_name :: "tool_spec \<Rightarrow> ustr" where
  "spec_name s = t_name (ts_tool s)"

definition spec_description :: "tool_spec \<Rightarrow> ustr" where
  "spec_description s = (case t_description (ts_tool s) of None \<Rightarrow> [] | Some d \<Rightarrow> d)"

definition reg_register :: "base_tool \<Rightarrow> ustr list \<Rightarrow> registry \<Rightarrow> registry" where
  "reg_register t tags R = AList.update (t_name t) \<lparr>ts_tool = t, ts_tags = tags\<rparr> R"

fun reg_add :: "(base_tool \<times> ustr list) list \<Rightarrow> registry \<Rightarrow> registry" where
  "reg_add [] R = R"
| "reg_add ((t, tags) # xs) R = reg_add xs (reg_register t tags R)"

definition reg_get :: "registry \<Rightarrow> ustr \<Rightarrow> base_tool option" where
  "reg_get R n = map_option ts_tool (map_of R n)"

definition reg_tools :: "registry \<Rightarrow> ustr list \<Rightarrow> base_tool list" where
  "reg_tools R names = map (\<lambda>n. ts_tool (the (map_of R n))) (filter (\<lambda>n. map_of R n \<noteq> None) names)"

definition reg_all_tools :: "registry \<Rightarrow> base_tool list" where
  "reg_all_tools R = map (\<lambda>(_, s). ts_tool s) R"

definition reg_names :: "registry \<Rightarrow> ustr list" where
  "reg_names R = map fst R"

text \<open>\<open>xs[:n]\<close>: a negative bound counts from the end.\<close>

definition py_take :: "int \<Rightarrow> 'a list \<Rightarrow> 'a list" where
  "py_take n xs = (if 0 \<le> n then take (nat n) xs else take (nat (int (length xs) + n)) xs)"

record hit =
  h_name :: ustr
  h_description :: ustr
  h_args :: "ustr list"
  h_score :: int

definition kw_score :: "(ustr \<Rightarrow> ustr) \<Rightarrow> tool_spec \<Rightarrow> ustr \<Rightarrow> int" where
  "kw_score lower s kw =
     (if contains kw (lower (spec_name s)) then 3 else 0)
     + (if list_ex (\<lambda>t. contains kw (lower t)) (ts_tags s) then 2 else 0)
     + (if contains kw (lower (spec_description s)) then 1 else 0)"

definition keywords_of :: "(ustr \<Rightarrow> ustr) \<Rightarrow> ustr list \<Rightarrow> ustr list" where
  "keywords_of lower ks = map (\<lambda>k. py_strip (lower k)) (filter (\<lambda>k. k \<noteq> [] \<and> py_strip k \<noteq> []) ks)"

definition spec_score :: "(ustr \<Rightarrow> ustr) \<Rightarrow> ustr list \<Rightarrow> tool_spec \<Rightarrow> int" where
  "spec_score lower kws s = sum_list (map (kw_score lower s) kws)"

definition rank_key :: "int \<times> tool_spec \<Rightarrow> int \<times> ustr" where
  "rank_key x = (- fst x, spec_name (snd x))"

definition hit_of :: "int \<times> tool_spec \<Rightarrow> hit" where
  "hit_of x = \<lparr>h_name = spec_name (snd x), h_description = spec_description (snd x),
     h_args = t_args (ts_tool (snd x)), h_score = fst x\<rparr>"

definition reg_scored :: "(ustr \<Rightarrow> ustr) \<Rightarrow> registry \<Rightarrow> ustr list \<Rightarrow> (int \<times> tool_spec) list" where
  "reg_scored lower R kws =
     filter (\<lambda>(sc, s). sc > 0 \<or> kws = []) (map (\<lambda>(_, s). (spec_score lower kws s, s)) R)"

definition reg_search :: "(ustr \<Rightarrow> ustr) \<Rightarrow> registry \<Rightarrow> ustr list \<Rightarrow> int \<Rightarrow> hit list" where
  "reg_search lower R keywords limit =
     (let kws = keywords_of lower keywords;
          ranked = sort_key rank_key (reg_scored lower R kws)
      in map hit_of (py_take limit ranked))"

text \<open>The arguments a model sends: a list, or one string, tolerated.\<close>

datatype kw_arg = KwOne ustr | KwMany "ustr list"

record find_result =
  fr_results :: "hit list"
  fr_note :: bool

definition find_tools :: "(ustr \<Rightarrow> ustr) \<Rightarrow> registry \<Rightarrow> kw_arg \<Rightarrow> int \<Rightarrow> find_result" where
  "find_tools lower R keywords limit =
     (let ks = (case keywords of KwOne k \<Rightarrow> [k] | KwMany ks \<Rightarrow> ks);
          results = reg_search lower R ks limit
      in if results = [] then \<lparr>fr_results = [], fr_note = True\<rparr>
         else \<lparr>fr_results = results, fr_note = False\<rparr>)"

subsection \<open>The dictionary\<close>

text \<open>The registry invariant: distinct keys, each the name of its tool.\<close>

definition reg_wf :: "registry \<Rightarrow> bool" where
  "reg_wf R \<longleftrightarrow> distinct (map fst R) \<and> list_all (\<lambda>(n, s). n = spec_name s) R"

lemma reg_wf_Nil [simp]: "reg_wf []"
  by (simp add: reg_wf_def)

lemma list_all_update:
  "list_all P R \<Longrightarrow> P (k, v) \<Longrightarrow> list_all P (AList.update k v R)"
  by (induction R) auto

lemma reg_wf_register [simp]: "reg_wf R \<Longrightarrow> reg_wf (reg_register t tags R)"
  by (auto simp: reg_wf_def reg_register_def spec_name_def distinct_update intro!: list_all_update)

lemma reg_wf_add [simp]: "reg_wf R \<Longrightarrow> reg_wf (reg_add xs R)"
  by (induction xs R rule: reg_add.induct) auto

lemma reg_get_register:
  "reg_get (reg_register t tags R) n = (if n = t_name t then Some t else reg_get R n)"
  by (simp add: reg_get_def reg_register_def update_conv')

lemma reg_names_register:
  "reg_names (reg_register t tags R) =
     (if t_name t \<in> set (reg_names R) then reg_names R else reg_names R @ [t_name t])"
  by (simp add: reg_names_def reg_register_def update_keys)

lemma reg_get_tools: "reg_tools R names = map the (filter (\<lambda>x. x \<noteq> None) (map (reg_get R) names))"
  by (induction names) (auto simp: reg_tools_def reg_get_def)

lemma reg_get_add:
  "reg_get (reg_add xs R) n =
     (case find (\<lambda>(t, _). t_name t = n) (rev xs) of Some (t, _) \<Rightarrow> Some t | None \<Rightarrow> reg_get R n)"
proof (induction xs R rule: reg_add.induct)
  case (2 t tags xs R)
  have "find p (ys @ [z]) = (case find p ys of None \<Rightarrow> if p z then Some z else None | Some y \<Rightarrow> Some y)"
    for p :: "base_tool \<times> ustr list \<Rightarrow> bool" and ys z
    by (induction ys) auto
  with 2 show ?case by (auto simp: reg_get_register split: option.splits)
qed simp

subsection \<open>The ranking\<close>

lemma kw_score_bounds: "0 \<le> kw_score lower s kw" "kw_score lower s kw \<le> 6"
  by (simp_all add: kw_score_def)

lemma kw_score_0: "kw_score lower s kw = 0 \<longleftrightarrow>
  \<not> contains kw (lower (spec_name s)) \<and> \<not> list_ex (\<lambda>t. contains kw (lower t)) (ts_tags s)
  \<and> \<not> contains kw (lower (spec_description s))"
  by (simp add: kw_score_def)

lemma spec_score_nonneg: "0 \<le> spec_score lower kws s"
proof (induction kws)
  case (Cons kw kws)
  then show ?case using kw_score_bounds(1) [of lower s kw] by (simp add: spec_score_def)
qed (simp add: spec_score_def)

lemma spec_score_pos: "0 < spec_score lower kws s \<longleftrightarrow> (\<exists>kw \<in> set kws. kw_score lower s kw \<noteq> 0)"
proof (induction kws)
  case (Cons kw kws)
  then show ?case using spec_score_nonneg [of lower kws s] kw_score_bounds(1) [of lower s kw]
    by (auto simp: spec_score_def)
qed (simp add: spec_score_def)

lemma set_scored: "(sc, s) \<in> set (reg_scored lower R kws) \<longleftrightarrow>
  (\<exists>n. (n, s) \<in> set R) \<and> sc = spec_score lower kws s \<and> (sc > 0 \<or> kws = [])"
  by (auto simp: reg_scored_def image_iff split: prod.splits)

lemma py_take_prefix: "\<exists>k. py_take n xs = take k xs"
  by (auto simp: py_take_def)

lemma sorted_take_rest:
  "\<lbrakk>sorted (map f xs); x \<in> set (take k xs); y \<in> set xs; f y < f x\<rbrakk> \<Longrightarrow> y \<in> set (take k xs)"
proof -
  assume a: "sorted (map f xs)" "x \<in> set (take k xs)" "y \<in> set xs" "f y < f x"
  have "y \<in> set (take k xs) \<or> y \<in> set (drop k xs)" using a(3) by (metis append_take_drop_id Un_iff set_append)
  moreover have "f x \<le> f z" if "z \<in> set (drop k xs)" for z
  proof -
    have "sorted (map f (take k xs) @ map f (drop k xs))" using a(1) by (simp flip: map_append)
    with a(2) that show ?thesis by (auto simp: sorted_append)
  qed
  ultimately show ?thesis using a(4) by fastforce
qed

text \<open>A tool is offered for the keywords when there are none or one of them hits it.\<close>

definition offered :: "(ustr \<Rightarrow> ustr) \<Rightarrow> ustr list \<Rightarrow> tool_spec \<Rightarrow> bool" where
  "offered lower kws s \<longleftrightarrow> kws = [] \<or> (\<exists>kw \<in> set kws. kw_score lower s kw \<noteq> 0)"

definition hit_for :: "(ustr \<Rightarrow> ustr) \<Rightarrow> ustr list \<Rightarrow> tool_spec \<Rightarrow> hit" where
  "hit_for lower kws s = hit_of (spec_score lower kws s, s)"

definition ranks_before :: "hit \<Rightarrow> hit \<Rightarrow> bool" where
  "ranks_before h h' \<longleftrightarrow> h_score h' < h_score h \<or> h_score h = h_score h' \<and> h_name h < h_name h'"

lemma ranks_before_key: "ranks_before (hit_of x) (hit_of y) \<longleftrightarrow> rank_key x < rank_key y"
  by (auto simp: ranks_before_def hit_of_def rank_key_def less_prod_def)

lemma scored_offered: "reg_scored lower R kws =
  map (\<lambda>(_, s). (spec_score lower kws s, s)) (filter (\<lambda>(_, s). offered lower kws s) R)"
  by (induction R) (auto simp: reg_scored_def offered_def spec_score_pos)

lemma distinct_rank_keys: "reg_wf R \<Longrightarrow> distinct (map rank_key (reg_scored lower R kws))"
proof -
  assume wf: "reg_wf R"
  have "map (snd \<circ> rank_key) (reg_scored lower R kws) = map fst (filter (\<lambda>(_, s). offered lower kws s) R)"
    using wf by (auto simp: scored_offered reg_wf_def rank_key_def list_all_iff)
  then have "distinct (map snd (map rank_key (reg_scored lower R kws)))"
    using wf by (simp add: reg_wf_def distinct_map_filterI)
  then show ?thesis by (simp only: distinct_map)
qed

lemma sorted_strict: "\<lbrakk>sorted (map f xs); distinct (map f xs)\<rbrakk> \<Longrightarrow> sorted_wrt (\<lambda>x y. f x < f y) xs"
  by (induction xs) (auto simp: order_less_le)

text \<open>What it is for a list of hits to be the ranking of the registry, cut at \<open>k\<close>.\<close>

definition ranking_of :: "(ustr \<Rightarrow> ustr) \<Rightarrow> registry \<Rightarrow> ustr list \<Rightarrow> nat \<Rightarrow> hit list \<Rightarrow> bool" where
  "ranking_of lower R kws k hits \<longleftrightarrow>
     sorted_wrt ranks_before hits
     \<and> length hits = min k (length (filter (\<lambda>(_, s). offered lower kws s) R))
     \<and> set hits \<subseteq> {hit_for lower kws s | n s. (n, s) \<in> set R \<and> offered lower kws s}
     \<and> (\<forall>(n, s) \<in> set R. offered lower kws s \<longrightarrow> hit_for lower kws s \<notin> set hits \<longrightarrow>
          list_all (\<lambda>h. ranks_before h (hit_for lower kws s)) hits)"

subsection \<open>Properties\<close>

text \<open>
  C37.  The ranking \<open>search\<close> promises: the hits are strictly ordered by decreasing score and,
  among equal scores, by name; they are as many as the limit and the offered tools allow; each
  is an offered tool of the registry with its own score; and an offered tool left out ranks
  after every hit.
\<close>

theorem reg_search_ranked:
  assumes "reg_wf R" "0 \<le> limit"
  shows "ranking_of lower R (keywords_of lower keywords) (nat limit) (reg_search lower R keywords limit)"
proof -
  define kws where "kws = keywords_of lower keywords"
  define hits where "hits = reg_search lower R keywords limit"
  define ranked where "ranked = sort_key rank_key (reg_scored lower R kws)"
  have hits: "hits = map hit_of (take (nat limit) ranked)"
    using assms(2) by (simp add: hits_def reg_search_def ranked_def kws_def py_take_def Let_def)
  have strict: "sorted_wrt (\<lambda>x y. rank_key x < rank_key y) ranked"
  proof (rule sorted_strict)
    show "sorted (map rank_key ranked)" by (simp add: ranked_def)
    show "distinct (map rank_key ranked)"
      using distinct_rank_keys [OF assms(1), of lower kws] by (simp add: ranked_def distinct_map)
  qed
  then have 1: "sorted_wrt ranks_before hits"
    by (simp add: hits sorted_wrt_map ranks_before_key sorted_wrt_take)
  have 2: "length hits = min (nat limit) (length (filter (\<lambda>(_, s). offered lower kws s) R))"
    by (simp add: hits ranked_def scored_offered)
  have set: "set ranked = {(spec_score lower kws s, s) | n s. (n, s) \<in> set R \<and> offered lower kws s}"
    by (auto simp: ranked_def scored_offered image_iff)
  have 3: "set hits \<subseteq> {hit_for lower kws s | n s. (n, s) \<in> set R \<and> offered lower kws s}"
  proof
    fix h
    assume "h \<in> set hits"
    then obtain x where x: "h = hit_of x" "x \<in> set (take (nat limit) ranked)" by (auto simp: hits)
    then have "x \<in> set ranked" by (meson in_set_takeD)
    then obtain n s where "x = (spec_score lower kws s, s)" "(n, s) \<in> set R" "offered lower kws s"
      unfolding set by blast
    then show "h \<in> {hit_for lower kws s | n s. (n, s) \<in> set R \<and> offered lower kws s}"
      using x(1) unfolding hit_for_def by blast
  qed
  have 4: "ranks_before h (hit_for lower kws s)"
    if "(n, s) \<in> set R" "offered lower kws s" "hit_for lower kws s \<notin> set hits" "h \<in> set hits" for n s h
  proof -
    define y where "y = (spec_score lower kws s, s)"
    have "h \<in> hit_of ` set (take (nat limit) ranked)" using that(4) by (simp add: hits)
    then obtain x where x: "h = hit_of x" "x \<in> set (take (nat limit) ranked)" by blast
    have "y \<in> set ranked" using set that(1,2) by (auto simp: y_def)
    moreover have "y \<notin> set (take (nat limit) ranked)"
      using that(3) by (auto simp: hits hit_for_def y_def)
    ultimately have "y \<in> set (drop (nat limit) ranked)"
      by (metis append_take_drop_id Un_iff set_append)
    moreover have "sorted_wrt (\<lambda>x y. rank_key x < rank_key y) (take (nat limit) ranked @ drop (nat limit) ranked)"
      using strict by simp
    ultimately have "rank_key x < rank_key y" using x(2) unfolding sorted_wrt_append by blast
    then show ?thesis by (simp add: x(1) hit_for_def ranks_before_key y_def)
  qed
  show ?thesis using 1 2 3 4 unfolding kws_def [symmetric] hits_def [symmetric]
    by (auto simp: ranking_of_def list_all_iff)
qed

definition demo_tool :: "string \<Rightarrow> string \<Rightarrow> base_tool" where
  "demo_tool n d = \<lparr>t_name = lit n, t_description = Some (lit d), t_args = []\<rparr>"

definition demo_registry :: registry where
  "demo_registry = reg_add [(demo_tool ''check_vat'' ''verify tax'', []), (demo_tool ''parse_date'' ''read'', [])] []"

theorem reg_search_ranked_witness:
  "ranking_of id demo_registry (keywords_of id [lit ''vat'']) 5 (reg_search id demo_registry [lit ''vat''] 5)"
  using reg_search_ranked [of demo_registry 5 id "[lit ''vat'']"] by (simp add: demo_registry_def)

text \<open>
  The registry is a dictionary from names to tools: after registering any sequence of
  tools the names stay distinct and \<open>get\<close> returns, for every name, the last tool registered
  under it, or what was there before.
\<close>

theorem reg_add_get:
  assumes "reg_wf R"
  shows "distinct (reg_names (reg_add xs R))
    \<and> reg_get (reg_add xs R) n = (case find (\<lambda>(t, _). t_name t = n) (rev xs) of
         Some (t, _) \<Rightarrow> Some t | None \<Rightarrow> reg_get R n)"
  using reg_wf_add [OF assms, of xs] by (simp add: reg_get_add reg_wf_def reg_names_def)

theorem reg_add_get_witness:
  "distinct (reg_names (reg_add [(demo_tool ''check_vat'' ''v1'', []), (demo_tool ''check_vat'' ''v2'', [])] []))
    \<and> reg_get (reg_add [(demo_tool ''check_vat'' ''v1'', []), (demo_tool ''check_vat'' ''v2'', [])] [])
        (lit ''check_vat'') = Some (demo_tool ''check_vat'' ''v2'')"
  using reg_add_get [of "[]" "[(demo_tool ''check_vat'' ''v1'', []), (demo_tool ''check_vat'' ''v2'', [])]"
      "lit ''check_vat''"] by (simp add: demo_tool_def)

end
