(* ===== verification/Store.thy ===== *)
theory Store
  imports Prelude Complex_Main
begin

section \<open>The database of the mining side\<close>

text \<open>
  The tables of \<open>migrations/\<close> that the media, document, workflow, result and audit services
  use, as lists of rows in insertion order, and the record classes of their \<open>models.py\<close>.
  \<open>JSONB\<close> columns hold \<open>json\<close> values.  \<open>delete_media\<close> is \<open>DELETE FROM media\<close> with the
  foreign-key actions the migrations declare.
\<close>

datatype json = JNull | JBool bool | JInt int | JReal rat | JStr ustr | JList "json list"
  | JObj "(ustr \<times> json) list"

text \<open>\<open>data[k]\<close> (\<open>None\<close> is the \<open>KeyError\<close>) and \<open>data.get(k, default)\<close>.\<close>

fun jfield :: "json \<Rightarrow> ustr \<Rightarrow> json option" where
  "jfield (JObj kvs) k = map_of kvs k"
| "jfield _ k = None"

definition jget :: "json \<Rightarrow> ustr \<Rightarrow> json \<Rightarrow> json" where
  "jget d k dflt = (case jfield d k of None \<Rightarrow> dflt | Some v \<Rightarrow> v)"

subsection \<open>UUIDs as text\<close>

definition hex_digit :: "nat \<Rightarrow> nat" where
  "hex_digit d = (if d < 10 then 48 + d else 87 + d)"

fun hex_padded :: "nat \<Rightarrow> nat \<Rightarrow> ustr" where
  "hex_padded 0 n = []"
| "hex_padded (Suc w) n = hex_padded w (n div 16) @ [hex_digit (n mod 16)]"

definition uuid_ok :: "uuid \<Rightarrow> bool" where
  "uuid_ok u \<longleftrightarrow> u < 16 ^ 32"

text \<open>\<open>str(uuid)\<close>: 32 hexadecimal digits in groups of 8, 4, 4, 4 and 12.\<close>

definition uuid_str :: "uuid \<Rightarrow> ustr" where
  "uuid_str u = (let h = hex_padded 32 u in
     take 8 h @ [45] @ take 4 (drop 8 h) @ [45] @ take 4 (drop 12 h) @ [45] @ take 4 (drop 16 h) @ [45] @ drop 20 h)"

text \<open>\<open>UUID(s)\<close>, \<open>None\<close> when it raises \<open>ValueError\<close>.\<close>

function py_remove :: "ustr \<Rightarrow> ustr \<Rightarrow> ustr" where
  "py_remove p [] = []"
| "py_remove p (x # xs) = (if p \<noteq> [] \<and> starts_with p (x # xs) then py_remove p (drop (length p) (x # xs))
     else x # py_remove p xs)"
  by pat_completeness auto
termination by (relation "measure (length \<circ> snd)") auto

definition hex_val :: "nat \<Rightarrow> nat option" where
  "hex_val c = (if 48 \<le> c \<and> c \<le> 57 then Some (c - 48) else if 97 \<le> c \<and> c \<le> 102 then Some (c - 87)
     else if 65 \<le> c \<and> c \<le> 70 then Some (c - 55) else None)"

fun hex_vals :: "nat \<Rightarrow> ustr \<Rightarrow> nat option" where
  "hex_vals acc [] = Some acc"
| "hex_vals acc (c # cs) = (case hex_val c of None \<Rightarrow> None | Some v \<Rightarrow> hex_vals (16 * acc + v) cs)"

definition strip_braces :: "ustr \<Rightarrow> ustr" where
  "strip_braces s = (let b = (\<lambda>c. c = 123 \<or> c = 125) in rev (dropWhile b (rev (dropWhile b s))))"

definition uuid_parse :: "ustr \<Rightarrow> uuid option" where
  "uuid_parse s = (let h = filter (\<lambda>c. c \<noteq> 45) (strip_braces (py_remove (lit ''uuid:'') (py_remove (lit ''urn:'') s))) in
     if length h = 32 then hex_vals 0 h else None)"

lemma length_hex_padded [simp]: "length (hex_padded w n) = w"
  by (induction w n rule: hex_padded.induct) auto

lemma hex_digit_chars: "d < 16 \<Longrightarrow> hex_digit d \<in> {48..57} \<union> {97..102}"
  by (auto simp: hex_digit_def)

lemma hex_padded_chars: "set (hex_padded w n) \<subseteq> {48..57} \<union> {97..102}"
  by (induction w n rule: hex_padded.induct) (use hex_digit_chars in auto)

lemma hex_val_digit: "d < 16 \<Longrightarrow> hex_val (hex_digit d) = Some d"
  by (auto simp: hex_val_def hex_digit_def)

lemma hex_vals_append: "hex_vals acc (xs @ [c]) =
  (case hex_vals acc xs of None \<Rightarrow> None | Some a \<Rightarrow> (case hex_val c of None \<Rightarrow> None | Some v \<Rightarrow> Some (16 * a + v)))"
  by (induction acc xs rule: hex_vals.induct) (auto split: option.splits)

lemma hex_vals_padded: "n < 16 ^ w \<Longrightarrow> hex_vals 0 (hex_padded w n) = Some n"
proof (induction w n rule: hex_padded.induct)
  case (2 w n)
  then have "n div 16 < 16 ^ w" by (simp add: less_mult_imp_div_less)
  with 2 have "hex_vals 0 (hex_padded w (n div 16)) = Some (n div 16)" by simp
  then show ?case by (simp add: hex_vals_append hex_val_digit)
qed simp

lemma uuid_str_chars: "set (uuid_str u) \<subseteq> {48..57} \<union> {97..102} \<union> {45}"
proof -
  have "set (take i (drop j (hex_padded 32 u))) \<subseteq> {48..57} \<union> {97..102}" for i j
    using hex_padded_chars set_take_subset set_drop_subset by (meson order_trans)
  from this [of _ 0] this [of 4] hex_padded_chars [of 32 u] show ?thesis
    unfolding uuid_str_def Let_def using set_drop_subset [of 20 "hex_padded 32 u"] by fastforce
qed

lemma length_uuid_str [simp]: "length (uuid_str u) = 36"
  by (simp add: uuid_str_def Let_def)

lemma take_drop_join: "k = i + j \<Longrightarrow> take i (drop j h) @ drop k h = drop j h"
  by (metis append_take_drop_id drop_drop)

lemma filter_uuid_str: "filter (\<lambda>c. c \<noteq> 45) (uuid_str u) = hex_padded 32 u"
proof -
  define h where "h = hex_padded 32 u"
  have no: "45 \<notin> set h" using hex_padded_chars [of 32 u] by (auto simp: h_def)
  have "45 \<notin> set (take i (drop j h))" for i j using no by (meson in_set_dropD in_set_takeD)
  then have f: "filter (\<lambda>c. c \<noteq> 45) (take i (drop j h)) = take i (drop j h)" for i j
    by (metis (mono_tags, lifting) filter_True)
  have g: "filter (\<lambda>c. c \<noteq> 45) (drop j h) = drop j h" for j
    using f [of "length h" j] by simp
  have "filter (\<lambda>c. c \<noteq> 45) (uuid_str u) = take 8 (drop 0 h) @ take 4 (drop 8 h) @ take 4 (drop 12 h) @ take 4 (drop 16 h) @ drop 20 h"
    using f [of 8 0] by (simp add: uuid_str_def Let_def h_def [symmetric] f g)
  also have "\<dots> = h"
    by (simp add: take_drop_join [of 20 4 16 h] take_drop_join [of 16 4 12 h] take_drop_join [of 12 4 8 h] del: drop_0 append_take_drop_id)
      simp
  finally show ?thesis by (simp add: h_def)
qed

lemma py_remove_absent: "hd p \<notin> set s \<Longrightarrow> py_remove p s = s"
proof (induction p s rule: py_remove.induct)
  case (2 p x xs)
  have "\<not> (p \<noteq> [] \<and> starts_with p (x # xs))" using "2.prems" by (cases p) auto
  moreover have "py_remove p xs = xs" using "2.IH"(2) calculation "2.prems" by auto
  ultimately show ?case by (simp only: py_remove.simps if_False)
qed simp

lemma uuid_parse_str: "uuid_ok u \<Longrightarrow> uuid_parse (uuid_str u) = Some u"
proof -
  assume u: "uuid_ok u"
  have no: "c \<notin> set (uuid_str u)" if "c \<in> {117, 123, 125}" for c
    using uuid_str_chars [of u] that by auto
  have rem: "py_remove (lit ''uuid:'') (py_remove (lit ''urn:'') (uuid_str u)) = uuid_str u"
    using no [of 117] by (simp add: py_remove_absent lit_def)
  have "dropWhile (\<lambda>c. c = 123 \<or> c = 125) s = s" if "set s \<subseteq> set (uuid_str u)" for s
    using that no by (cases s) auto
  then have "strip_braces (uuid_str u) = uuid_str u" by (simp add: strip_braces_def)
  then show ?thesis
    using u by (simp add: uuid_parse_def rem filter_uuid_str hex_vals_padded uuid_ok_def)
qed

lemma uuid_str_inject: "\<lbrakk>uuid_ok u; uuid_ok v; uuid_str u = uuid_str v\<rbrakk> \<Longrightarrow> u = v"
  by (metis option.inject uuid_parse_str)

subsection \<open>Rows\<close>

record media_row =
  m_id :: uuid
  m_object_key :: ustr
  m_mime :: "ustr option"
  m_size :: "nat option"
  m_deleted :: "time option"
  m_purge :: "time option"
  m_created :: time
  m_updated :: time

datatype document_status = DocNew | DocReady | DocInvalid

fun status_int :: "document_status \<Rightarrow> int" where
  "status_int DocNew = 0" | "status_int DocReady = 1" | "status_int DocInvalid = 2"

datatype part_kind = TextPart | ImagePart

record document_row =
  d_id :: uuid
  d_media_id :: uuid
  d_name :: "ustr option"
  d_status :: document_status
  d_page_count :: "int option"
  d_deleted :: "time option"
  d_purge :: "time option"
  d_created :: time
  d_updated :: time

record part_row =
  p_id :: uuid
  p_document_id :: uuid
  p_locator :: ustr
  p_kind :: part_kind
  p_page_number :: "int option"
  p_media_id :: "uuid option"
  p_thumb :: "uuid option"
  p_created :: time
  p_updated :: time

datatype workflow_status = Queued | Running | Succeeded | Failed

record execution_row =
  e_id :: uuid
  e_workflow :: ustr
  e_entity_type :: ustr
  e_entity_id :: uuid
  e_status :: workflow_status
  e_input :: json
  e_result :: "json option"
  e_metadata :: json
  e_started :: "time option"
  e_finished :: "time option"
  e_created :: time
  e_updated :: time

datatype result_kind = Extract | Annotation

record result_row =
  r_id :: uuid
  r_execution_id :: uuid
  r_part_id :: uuid
  r_kind :: result_kind
  r_content :: json
  r_created :: time
  r_updated :: time

record finding_row =
  f_id :: uuid
  f_execution_id :: uuid
  f_rule_key :: "ustr option"
  f_severity :: ustr
  f_status :: ustr
  f_message :: ustr
  f_evidence :: json
  f_created :: time

record verdict_row =
  v_execution_id :: uuid
  v_dossier_key :: "ustr option"
  v_document_id :: "uuid option"
  v_verdict :: ustr
  v_rationale :: "ustr option"
  v_created :: time
  v_updated :: time

record db =
  media :: "media_row list"
  documents :: "document_row list"
  parts :: "part_row list"
  executions :: "execution_row list"
  results :: "result_row list"
  findings :: "finding_row list"
  verdicts :: "verdict_row list"

definition empty_db :: db where
  "empty_db = \<lparr>media = [], documents = [], parts = [], executions = [], results = [], findings = [], verdicts = []\<rparr>"

subsection \<open>Constraints\<close>

text \<open>Primary keys, unique columns and foreign keys.\<close>

definition keys_ok :: "db \<Rightarrow> bool" where
  "keys_ok s \<longleftrightarrow> distinct (map m_id (media s)) \<and> distinct (map m_object_key (media s))
     \<and> distinct (map d_id (documents s)) \<and> distinct (map d_media_id (documents s))
     \<and> distinct (map p_id (parts s)) \<and> distinct (map (\<lambda>p. (p_document_id p, p_locator p)) (parts s))
     \<and> distinct (map e_id (executions s)) \<and> distinct (map r_id (results s))
     \<and> distinct (map (\<lambda>r. (r_execution_id r, r_part_id r, r_kind r)) (results s))
     \<and> distinct (map f_id (findings s)) \<and> distinct (map v_execution_id (verdicts s))"

definition media_ids :: "db \<Rightarrow> uuid set" where "media_ids s = m_id ` set (media s)"
definition document_ids :: "db \<Rightarrow> uuid set" where "document_ids s = d_id ` set (documents s)"
definition part_ids :: "db \<Rightarrow> uuid set" where "part_ids s = p_id ` set (parts s)"
definition execution_ids :: "db \<Rightarrow> uuid set" where "execution_ids s = e_id ` set (executions s)"

definition document_refs :: "db \<Rightarrow> bool" where
  "document_refs s \<longleftrightarrow> d_media_id ` set (documents s) \<subseteq> media_ids s"

definition part_refs :: "db \<Rightarrow> bool" where
  "part_refs s \<longleftrightarrow> (\<forall>p \<in> set (parts s). p_document_id p \<in> document_ids s
     \<and> set_option (p_media_id p) \<subseteq> media_ids s \<and> set_option (p_thumb p) \<subseteq> media_ids s)"

definition result_refs :: "db \<Rightarrow> bool" where
  "result_refs s \<longleftrightarrow> (\<forall>r \<in> set (results s). r_part_id r \<in> part_ids s \<and> r_execution_id r \<in> execution_ids s)"

definition audit_refs :: "db \<Rightarrow> bool" where
  "audit_refs s \<longleftrightarrow> f_execution_id ` set (findings s) \<subseteq> execution_ids s
     \<and> (\<forall>v \<in> set (verdicts s). v_execution_id v \<in> execution_ids s \<and> set_option (v_document_id v) \<subseteq> document_ids s)"

definition refs_ok :: "db \<Rightarrow> bool" where
  "refs_ok s \<longleftrightarrow> document_refs s \<and> part_refs s \<and> result_refs s \<and> audit_refs s"

lemmas ref_defs = document_refs_def part_refs_def result_refs_def audit_refs_def refs_ok_def
  media_ids_def document_ids_def part_ids_def execution_ids_def

text \<open>The constraints the database enforces.\<close>

definition db_ok :: "db \<Rightarrow> bool" where
  "db_ok s \<longleftrightarrow> keys_ok s \<and> refs_ok s"

definition opt_in :: "'a option \<Rightarrow> 'a list \<Rightarrow> bool" where
  "opt_in x xs = (case x of None \<Rightarrow> False | Some y \<Rightarrow> y \<in> set xs)"

text \<open>\<open>DELETE FROM media WHERE id = ANY(ids)\<close> and its cascades.\<close>

definition delete_media :: "uuid list \<Rightarrow> db \<Rightarrow> db" where
  "delete_media ids s =
    (let gone_docs = map d_id (filter (\<lambda>d. d_media_id d \<in> set ids) (documents s));
         part_gone = (\<lambda>p. opt_in (p_media_id p) ids \<or> p_document_id p \<in> set gone_docs);
         gone_parts = map p_id (filter part_gone (parts s))
     in s\<lparr>media := filter (\<lambda>m. m_id m \<notin> set ids) (media s),
          documents := filter (\<lambda>d. d_media_id d \<notin> set ids) (documents s),
          parts := upd_where (\<lambda>p. opt_in (p_thumb p) ids) (\<lambda>p. p\<lparr>p_thumb := None\<rparr>)
                     (filter (\<lambda>p. \<not> part_gone p) (parts s)),
          results := filter (\<lambda>r. r_part_id r \<notin> set gone_parts) (results s),
          verdicts := filter (\<lambda>v. \<not> opt_in (v_document_id v) gone_docs) (verdicts s)\<rparr>)"

lemma db_ok_empty: "db_ok empty_db"
  by (simp add: db_ok_def keys_ok_def ref_defs empty_db_def)

lemma opt_in_None [simp]: "\<not> opt_in None xs"
  by (simp add: opt_in_def)

lemma opt_in_Some [simp]: "opt_in (Some y) xs \<longleftrightarrow> y \<in> set xs"
  by (simp add: opt_in_def)

lemma opt_in_iff: "opt_in x xs \<longleftrightarrow> (\<exists>y \<in> set_option x. y \<in> set xs)"
  by (cases x) auto

text \<open>Deleting with cascades keeps every constraint.\<close>

lemma keys_ok_delete_media: "keys_ok s \<Longrightarrow> keys_ok (delete_media ids s)"
proof -
  have m: "map f (upd_where c (\<lambda>p. p\<lparr>p_thumb := None\<rparr>) xs) = map f xs"
    if "\<And>p. f (p\<lparr>p_thumb := None\<rparr>) = f p" for f :: "part_row \<Rightarrow> 'a" and c xs
    by (rule map_upd_where) (rule that)
  assume "keys_ok s"
  then show ?thesis
    by (simp add: keys_ok_def delete_media_def Let_def distinct_map_filterI m)
qed

lemma refs_ok_delete_media: "db_ok s \<Longrightarrow> refs_ok (delete_media ids s)"
proof -
  assume s: "db_ok s"
  define t where "t = delete_media ids s"
  have mt: "media_ids t = media_ids s - set ids"
    by (auto simp: t_def delete_media_def Let_def media_ids_def)
  have dt: "d_id d \<in> document_ids t" if "d \<in> set (documents s)" "d_media_id d \<notin> set ids" for d
    using that by (auto simp: t_def delete_media_def Let_def document_ids_def)
  have gone: "d_media_id d \<notin> set ids"
    if "d \<in> set (documents s)" "d_id d \<notin> set (map d_id (filter (\<lambda>d. d_media_id d \<in> set ids) (documents s)))" for d
    using that by auto
  have doc: "x \<in> document_ids t"
    if x: "x \<in> document_ids s" "x \<notin> set (map d_id (filter (\<lambda>d. d_media_id d \<in> set ids) (documents s)))" for x
  proof -
    obtain d where d: "d \<in> set (documents s)" "x = d_id d" using x(1) by (auto simp: document_ids_def)
    from x(2) have "d_media_id d \<notin> set ids" unfolding d(2) by (rule gone [OF d(1)])
    with d show ?thesis by (simp add: dt)
  qed
  have part: "x \<in> part_ids t"
    if x: "x \<in> part_ids s" "x \<notin> set (map p_id (filter (\<lambda>p. opt_in (p_media_id p) ids \<or> p_document_id p \<in>
        set (map d_id (filter (\<lambda>d. d_media_id d \<in> set ids) (documents s)))) (parts s)))" for x
  proof -
    obtain p where p: "p \<in> set (parts s)" "x = p_id p" using x(1) by (auto simp: part_ids_def)
    have "map p_id (parts t) = map p_id (filter (\<lambda>p. \<not> (opt_in (p_media_id p) ids \<or> p_document_id p \<in>
        set (map d_id (filter (\<lambda>d. d_media_id d \<in> set ids) (documents s))))) (parts s))"
      unfolding t_def delete_media_def Let_def by (simp add: map_upd_where)
    then have "p_id ` set (parts t) = p_id ` set (filter (\<lambda>p. \<not> (opt_in (p_media_id p) ids \<or> p_document_id p \<in>
        set (map d_id (filter (\<lambda>d. d_media_id d \<in> set ids) (documents s))))) (parts s))"
      by (metis set_map)
    moreover have "p \<in> set (filter (\<lambda>p. \<not> (opt_in (p_media_id p) ids \<or> p_document_id p \<in>
        set (map d_id (filter (\<lambda>d. d_media_id d \<in> set ids) (documents s))))) (parts s))"
      using x(2) p by auto
    ultimately show ?thesis unfolding part_ids_def p(2) by blast
  qed
  have "document_refs t"
    using s mt by (auto simp: db_ok_def refs_ok_def document_refs_def t_def delete_media_def Let_def media_ids_def)
  moreover have "part_refs t"
    unfolding part_refs_def
  proof
    fix q
    assume "q \<in> set (parts t)"
    then obtain p where p: "p \<in> set (parts s)" "\<not> opt_in (p_media_id p) ids"
      "p_document_id p \<notin> set (map d_id (filter (\<lambda>d. d_media_id d \<in> set ids) (documents s)))"
      "q = (if opt_in (p_thumb p) ids then p\<lparr>p_thumb := None\<rparr> else p)"
      unfolding t_def delete_media_def Let_def by (auto simp: set_upd_where)
    have r: "p_document_id p \<in> document_ids s" "set_option (p_media_id p) \<subseteq> media_ids s" "set_option (p_thumb p) \<subseteq> media_ids s"
      using s p(1) by (auto simp: db_ok_def refs_ok_def part_refs_def)
    have "p_document_id p \<in> document_ids t" by (rule doc [OF r(1) p(3)])
    then show "p_document_id q \<in> document_ids t \<and> set_option (p_media_id q) \<subseteq> media_ids t \<and> set_option (p_thumb q) \<subseteq> media_ids t"
      using r(2,3) p(2,4) by (auto simp: mt opt_in_iff)
  qed
  moreover have "result_refs t"
    unfolding result_refs_def
  proof
    fix r
    assume "r \<in> set (results t)"
    then have "r \<in> set (results s)" and
      n: "r_part_id r \<notin> set (map p_id (filter (\<lambda>p. opt_in (p_media_id p) ids \<or> p_document_id p \<in>
        set (map d_id (filter (\<lambda>d. d_media_id d \<in> set ids) (documents s)))) (parts s)))"
      unfolding t_def delete_media_def Let_def by auto
    then have "r_part_id r \<in> part_ids s" "r_execution_id r \<in> execution_ids s"
      using s by (auto simp: db_ok_def refs_ok_def result_refs_def)
    then show "r_part_id r \<in> part_ids t \<and> r_execution_id r \<in> execution_ids t"
      using part [OF _ n] by (simp add: t_def delete_media_def Let_def execution_ids_def)
  qed
  moreover have "audit_refs t"
    unfolding audit_refs_def
  proof
    show "f_execution_id ` set (findings t) \<subseteq> execution_ids t"
      using s by (simp add: db_ok_def refs_ok_def audit_refs_def t_def delete_media_def Let_def execution_ids_def)
    show "\<forall>v \<in> set (verdicts t). v_execution_id v \<in> execution_ids t \<and> set_option (v_document_id v) \<subseteq> document_ids t"
    proof
      fix v
      assume "v \<in> set (verdicts t)"
      then have v: "v \<in> set (verdicts s)"
        "\<not> opt_in (v_document_id v) (map d_id (filter (\<lambda>d. d_media_id d \<in> set ids) (documents s)))"
        unfolding t_def delete_media_def Let_def by auto
      then have r: "v_execution_id v \<in> execution_ids s" "set_option (v_document_id v) \<subseteq> document_ids s"
        using s by (auto simp: db_ok_def refs_ok_def audit_refs_def)
      moreover have "x \<in> document_ids t" if "x \<in> set_option (v_document_id v)" for x
        using doc that r(2) v(2) unfolding opt_in_iff by blast
      ultimately show "v_execution_id v \<in> execution_ids t \<and> set_option (v_document_id v) \<subseteq> document_ids t"
        by (auto simp: t_def delete_media_def Let_def execution_ids_def)
    qed
  qed
  ultimately show ?thesis by (simp add: refs_ok_def t_def)
qed

lemma db_ok_delete_media: "db_ok s \<Longrightarrow> db_ok (delete_media ids s)"
  using keys_ok_delete_media refs_ok_delete_media by (auto simp: db_ok_def)

text \<open>Adding blobs breaks no reference.\<close>

lemma refs_ok_mono:
  assumes "refs_ok s" "media_ids s \<subseteq> media_ids t" "documents t = documents s" "parts t = parts s"
    "executions t = executions s" "results t = results s" "findings t = findings s" "verdicts t = verdicts s"
  shows "refs_ok t"
proof -
  have ids: "document_ids t = document_ids s" "part_ids t = part_ids s" "execution_ids t = execution_ids s"
    using assms by (simp_all add: document_ids_def part_ids_def execution_ids_def)
  have "document_refs t" using assms(1,2) by (auto simp: refs_ok_def document_refs_def assms(3))
  moreover have "part_refs t"
    unfolding part_refs_def assms(4) ids
  proof
    fix p
    assume "p \<in> set (parts s)"
    then have "p_document_id p \<in> document_ids s \<and> set_option (p_media_id p) \<subseteq> media_ids s \<and> set_option (p_thumb p) \<subseteq> media_ids s"
      using assms(1) by (simp only: refs_ok_def part_refs_def)
    with assms(2) show "p_document_id p \<in> document_ids s \<and> set_option (p_media_id p) \<subseteq> media_ids t \<and> set_option (p_thumb p) \<subseteq> media_ids t"
      by (meson subset_trans)
  qed
  moreover have "result_refs t" "audit_refs t"
    using assms(1) by (simp_all add: refs_ok_def result_refs_def audit_refs_def assms(6-8) ids)
  ultimately show ?thesis by (simp add: refs_ok_def)
qed

end
