(* ===== verification/Blobs.thy ===== *)
theory Blobs
  imports Bucket Store
begin

section \<open>Versioned blobs of a workflow execution\<close>

text \<open>
  \<open>doci/workflows/models.py\<close>: the \<open>input\<close>, \<open>result\<close> and \<open>metadata\<close> JSON columns, their
  writers (\<open>..._to_json\<close>), their readers (\<open>..._from_json\<close>) and the version check.  A reader
  copies most values without looking at them; those fields are \<open>json\<close>.
\<close>

subsection \<open>Python values\<close>

text \<open>\<open>BadVersion\<close> and \<open>BadValue\<close> are \<open>ValueError\<close>s, \<open>BadType\<close> an \<open>AttributeError\<close> or \<open>TypeError\<close>.\<close>

datatype json_error = BadVersion | BadValue | BadType | MissingKey

fun jtruthy :: "json \<Rightarrow> bool" where
  "jtruthy JNull = False"
| "jtruthy (JBool b) = b"
| "jtruthy (JInt i) = (i \<noteq> 0)"
| "jtruthy (JReal r) = (r \<noteq> 0)"
| "jtruthy (JStr s) = (s \<noteq> [])"
| "jtruthy (JList xs) = (xs \<noteq> [])"
| "jtruthy (JObj kvs) = (kvs \<noteq> [])"

definition jopt :: "ustr option \<Rightarrow> json" where
  "jopt x = (case x of None \<Rightarrow> JNull | Some s \<Rightarrow> JStr s)"

text \<open>\<open>data.get(k, default)\<close> and \<open>data[k]\<close> on a value that need not be a dictionary.\<close>

definition py_get :: "json \<Rightarrow> string \<Rightarrow> json \<Rightarrow> json_error + json" where
  "py_get d k dflt = (case d of JObj kvs \<Rightarrow> Inr (jget d (lit k) dflt) | _ \<Rightarrow> Inl BadType)"

definition py_item :: "json \<Rightarrow> string \<Rightarrow> json_error + json" where
  "py_item d k = (case d of
     JObj kvs \<Rightarrow> (case jfield d (lit k) of None \<Rightarrow> Inl MissingKey | Some v \<Rightarrow> Inr v)
   | _ \<Rightarrow> Inl BadType)"

text \<open>\<open>UUID(str(v))\<close>; only strings and integers can print as 32 hexadecimal digits.\<close>

definition py_uuid :: "json \<Rightarrow> json_error + uuid" where
  "py_uuid v = (case (case v of JStr s \<Rightarrow> uuid_parse s | JInt i \<Rightarrow> if i < 0 then None else uuid_parse (show_nat (nat i)) | _ \<Rightarrow> None)
     of None \<Rightarrow> Inl BadValue | Some u \<Rightarrow> Inr u)"

subsection \<open>Times\<close>

text \<open>A UTC \<open>datetime\<close>, \<open>isoformat\<close>, and \<open>fromisoformat\<close> on the texts \<open>isoformat\<close> writes.\<close>

record utc =
  ut_date :: ymd
  ut_hour :: nat
  ut_min :: nat
  ut_sec :: nat
  ut_us :: nat

definition utc_ok :: "utc \<Rightarrow> bool" where
  "utc_ok t \<longleftrightarrow> valid_date (ut_date t) \<and> ut_hour t < 24 \<and> ut_min t < 60 \<and> ut_sec t < 60 \<and> ut_us t < 1000000"

definition utc_iso :: "utc \<Rightarrow> ustr" where
  "utc_iso t = isoformat (ut_date t) @ [84] @ padded 2 (ut_hour t) @ [58] @ padded 2 (ut_min t) @ [58] @ padded 2 (ut_sec t)
     @ (if ut_us t = 0 then [] else [46] @ padded 6 (ut_us t)) @ lit ''+00:00''"

definition utc_parse :: "ustr \<Rightarrow> utc option" where
  "utc_parse s =
     (let frac = drop 19 s;
          t = \<lparr>ut_date = fromisoformat (take 10 s), ut_hour = nat (dec_val (take 2 (drop 11 s))),
               ut_min = nat (dec_val (take 2 (drop 14 s))), ut_sec = nat (dec_val (take 2 (drop 17 s))),
               ut_us = (if take 1 frac = [46] then nat (dec_val (take 6 (drop 1 frac))) else 0)\<rparr>
      in if utc_ok t \<and> utc_iso t = s then Some t else None)"

definition iso_opt :: "utc option \<Rightarrow> json" where
  "iso_opt v = (case v of None \<Rightarrow> JNull | Some t \<Rightarrow> JStr (utc_iso t))"

definition dt_of :: "json \<Rightarrow> json_error + utc option" where
  "dt_of v = (case v of
     JNull \<Rightarrow> Inr None
   | JStr s \<Rightarrow> (case utc_parse s of None \<Rightarrow> Inl BadValue | Some t \<Rightarrow> Inr (Some t))
   | _ \<Rightarrow> Inl BadType)"

subsection \<open>Versions\<close>

definition input_version :: ustr where "input_version = lit ''v1.1''"
definition result_version :: ustr where "result_version = lit ''v1.0''"
definition metadata_version :: ustr where "metadata_version = lit ''v1.0''"

definition major :: "unicode \<Rightarrow> ustr \<Rightarrow> json_error + int" where
  "major U v = (case py_int U (hd (split_on 46 (dropWhile (\<lambda>c. c = 118 \<or> c = 86) v))) of
     None \<Rightarrow> Inl BadValue | Some n \<Rightarrow> Inr n)"

definition require_compatible :: "unicode \<Rightarrow> ustr \<Rightarrow> ustr \<Rightarrow> json_error + unit" where
  "require_compatible U stored current =
     bindE (major U stored) (\<lambda>a. bindE (major U current) (\<lambda>b. if a \<noteq> b then Inl BadVersion else Inr ()))"

text \<open>The version of a blob, checked; a version that is not a string has no \<open>lstrip\<close>.\<close>

definition checked_version :: "unicode \<Rightarrow> ustr \<Rightarrow> json \<Rightarrow> json_error + ustr" where
  "checked_version U current data =
     bindE (py_get data ''version'' (JStr current)) (\<lambda>v. case v of
         JStr s \<Rightarrow> bindE (require_compatible U s current) (\<lambda>_. Inr s)
       | _ \<Rightarrow> Inl BadType)"

subsection \<open>The blobs\<close>

record wf_input =
  wi_document_id :: uuid
  wi_dossier_key :: json
  wi_annotate_reflect :: json
  wi_version :: ustr

definition input_to_json :: "wf_input \<Rightarrow> json" where
  "input_to_json x = JObj [(lit ''version'', JStr (wi_version x)), (lit ''document_id'', JStr (uuid_str (wi_document_id x))),
     (lit ''dossier_key'', wi_dossier_key x), (lit ''annotate_reflect'', wi_annotate_reflect x)]"

definition input_from_json :: "unicode \<Rightarrow> json \<Rightarrow> json_error + wf_input" where
  "input_from_json U d =
     bindE (checked_version U input_version d) (\<lambda>v.
     bindE (py_item d ''document_id'') (\<lambda>i.
     bindE (py_uuid i) (\<lambda>u.
     bindE (py_get d ''dossier_key'' JNull) (\<lambda>k.
     bindE (py_get d ''annotate_reflect'' (JBool False)) (\<lambda>r.
     Inr \<lparr>wi_document_id = u, wi_dossier_key = k, wi_annotate_reflect = r, wi_version = v\<rparr>)))))"

record wf_result =
  wr_output :: json
  wr_error :: json
  wr_version :: ustr

definition result_to_json :: "wf_result \<Rightarrow> json" where
  "result_to_json x = JObj [(lit ''version'', JStr (wr_version x)), (lit ''output'', wr_output x), (lit ''error'', wr_error x)]"

definition result_from_json :: "unicode \<Rightarrow> json \<Rightarrow> json_error + wf_result" where
  "result_from_json U d =
     bindE (checked_version U result_version d) (\<lambda>v.
     bindE (py_get d ''output'' JNull) (\<lambda>out.
     bindE (py_get d ''error'' JNull) (\<lambda>e.
     Inr \<lparr>wr_output = out, wr_error = e, wr_version = v\<rparr>)))"

record taskiq_meta =
  tm_task_id :: json

definition taskiq_to_json :: "taskiq_meta \<Rightarrow> json" where
  "taskiq_to_json x = JObj [(lit ''task_id'', tm_task_id x)]"

definition taskiq_from_json :: "json \<Rightarrow> json_error + taskiq_meta" where
  "taskiq_from_json d = bindE (py_get d ''task_id'' JNull) (\<lambda>t. Inr \<lparr>tm_task_id = t\<rparr>)"

record langgraph_meta =
  lm_thread_id :: json
  lm_checkpoint_id :: json
  lm_deadline :: "utc option"

definition langgraph_to_json :: "langgraph_meta \<Rightarrow> json" where
  "langgraph_to_json x = JObj [(lit ''thread_id'', lm_thread_id x), (lit ''checkpoint_id'', lm_checkpoint_id x),
     (lit ''checkpoint_deadline'', iso_opt (lm_deadline x))]"

definition langgraph_from_json :: "json \<Rightarrow> json_error + langgraph_meta" where
  "langgraph_from_json d =
     bindE (py_item d ''thread_id'') (\<lambda>t.
     bindE (py_get d ''checkpoint_id'' JNull) (\<lambda>c.
     bindE (py_get d ''checkpoint_deadline'' JNull) (\<lambda>v.
     bindE (dt_of v) (\<lambda>dl.
     Inr \<lparr>lm_thread_id = t, lm_checkpoint_id = c, lm_deadline = dl\<rparr>))))"

record wf_metadata =
  wm_taskiq :: taskiq_meta
  wm_langgraph :: "langgraph_meta option"
  wm_retry_count :: json
  wm_version :: ustr

definition metadata_to_json :: "wf_metadata \<Rightarrow> json" where
  "metadata_to_json x = JObj [(lit ''version'', JStr (wm_version x)), (lit ''taskiq'', taskiq_to_json (wm_taskiq x)),
     (lit ''langgraph'', case wm_langgraph x of None \<Rightarrow> JNull | Some l \<Rightarrow> langgraph_to_json l),
     (lit ''retry_count'', wm_retry_count x)]"

definition metadata_from_json :: "unicode \<Rightarrow> json \<Rightarrow> json_error + wf_metadata" where
  "metadata_from_json U d =
     bindE (checked_version U metadata_version d) (\<lambda>v.
     bindE (py_get d ''langgraph'' JNull) (\<lambda>lg.
     bindE (py_get d ''taskiq'' JNull) (\<lambda>tq.
     bindE (taskiq_from_json (if jtruthy tq then tq else JObj [])) (\<lambda>t.
     bindE (if jtruthy lg then bindE (langgraph_from_json lg) (\<lambda>l. Inr (Some l)) else Inr None) (\<lambda>l.
     bindE (py_get d ''retry_count'' (JInt 0)) (\<lambda>r.
     Inr \<lparr>wm_taskiq = t, wm_langgraph = l, wm_retry_count = r, wm_version = v\<rparr>))))))"

subsection \<open>Records of the execution table\<close>

record execution_rec =
  er_id :: uuid
  er_workflow :: ustr
  er_entity_type :: ustr
  er_entity_id :: uuid
  er_status :: workflow_status
  er_input :: wf_input
  er_result :: "wf_result option"
  er_metadata :: wf_metadata
  er_started :: "time option"
  er_finished :: "time option"
  er_created :: time
  er_updated :: time

definition execution_from_row :: "unicode \<Rightarrow> execution_row \<Rightarrow> json_error + execution_rec" where
  "execution_from_row U e =
     bindE (input_from_json U (e_input e)) (\<lambda>i.
     bindE (case e_result e of None \<Rightarrow> Inr None | Some r \<Rightarrow> bindE (result_from_json U r) (\<lambda>x. Inr (Some x))) (\<lambda>r.
     bindE (metadata_from_json U (e_metadata e)) (\<lambda>m.
     Inr \<lparr>er_id = e_id e, er_workflow = e_workflow e, er_entity_type = e_entity_type e, er_entity_id = e_entity_id e,
          er_status = e_status e, er_input = i, er_result = r, er_metadata = m, er_started = e_started e,
          er_finished = e_finished e, er_created = e_created e, er_updated = e_updated e\<rparr>)))"

subsection \<open>Lemmas\<close>

lemma utc_parse_iso: "utc_ok t \<Longrightarrow> utc_parse (utc_iso t) = Some t"
proof -
  assume t: "utc_ok t"
  obtain y m d where ymd: "ut_date t = (y, m, d)" by (cases "ut_date t") auto
  define i where "i = isoformat (ut_date t)"
  have li: "length i = 10" by (simp add: i_def ymd isoformat_def)
  define f where "f = (if ut_us t = 0 then [] else [46] @ padded 6 (ut_us t)) @ lit ''+00:00''"
  have s: "utc_iso t = i @ [84] @ padded 2 (ut_hour t) @ [58] @ padded 2 (ut_min t) @ [58] @ padded 2 (ut_sec t) @ f"
    by (simp add: utc_iso_def i_def f_def)
  have "fromisoformat (take 10 (utc_iso t)) = ut_date t"
    using fromisoformat_isoformat [of "ut_date t"] t li by (simp add: s i_def utc_ok_def)
  moreover have "take 2 (drop 11 (utc_iso t)) = padded 2 (ut_hour t)" "take 2 (drop 14 (utc_iso t)) = padded 2 (ut_min t)"
    "take 2 (drop 17 (utc_iso t)) = padded 2 (ut_sec t)" "drop 19 (utc_iso t) = f"
    by (simp_all add: s li)
  moreover have "(if take 1 f = [46] then nat (dec_val (take 6 (drop 1 f))) else 0) = ut_us t"
    using t dec_val_padded [of "ut_us t" 6] by (simp add: f_def lit_def utc_ok_def)
  moreover have "dec_val (padded 2 (ut_hour t)) = int (ut_hour t)" "dec_val (padded 2 (ut_min t)) = int (ut_min t)"
    "dec_val (padded 2 (ut_sec t)) = int (ut_sec t)"
    using t by (simp_all add: utc_ok_def dec_val_padded)
  ultimately have "\<lparr>ut_date = fromisoformat (take 10 (utc_iso t)), ut_hour = nat (dec_val (take 2 (drop 11 (utc_iso t)))),
      ut_min = nat (dec_val (take 2 (drop 14 (utc_iso t)))), ut_sec = nat (dec_val (take 2 (drop 17 (utc_iso t)))),
      ut_us = (if take 1 (drop 19 (utc_iso t)) = [46] then nat (dec_val (take 6 (drop 1 (drop 19 (utc_iso t))))) else 0)\<rparr> = t"
    by (intro utc.equality) (simp_all del: One_nat_def split: if_split_asm)
  then show ?thesis using t by (simp only: utc_parse_def Let_def simp_thms if_True)
qed

lemma digit_visible: "is_digit c \<Longrightarrow> \<not> py_space c"
  by (auto simp: is_digit_def py_space_def)

lemma int_digits_append:
  assumes "unicode_ok U"
  shows "\<forall>c \<in> set xs. is_digit c \<Longrightarrow>
    int_digits U ok acc (xs @ ys) = int_digits U (ok \<or> xs \<noteq> []) (foldl (\<lambda>a c. 10 * a + (c - 48)) acc xs) ys"
proof (induction xs arbitrary: ok acc)
  case (Cons c xs)
  then have "udigit U c = Some (c - 48)" using assms by (simp add: unicode_ok_def is_digit_def)
  with Cons show ?case by simp
qed simp

lemma show_nat_digits: "c \<in> set (show_nat n) \<Longrightarrow> is_digit c"
proof (induction n rule: show_nat.induct)
  case (1 n)
  then show ?case by (subst (asm) (2) show_nat.simps) (auto simp: is_digit_def split: if_splits)
qed

lemma show_nat_val: "foldl (\<lambda>a c. 10 * a + (c - 48)) 0 (show_nat n) = n"
proof (induction n rule: show_nat.induct)
  case (1 n)
  then show ?case by (subst show_nat.simps) auto
qed

lemma show_nat_nonempty: "show_nat n \<noteq> []"
  by (subst show_nat.simps) simp

lemma py_int_show: "unicode_ok U \<Longrightarrow> py_int U (show_nat n) = Some (int n)"
proof -
  assume U: "unicode_ok U"
  obtain c cs where n: "show_nat n = c # cs" using show_nat_nonempty by (cases "show_nat n") auto
  have "py_strip (show_nat n) = show_nat n"
    using show_nat_digits [OF hd_in_set [OF show_nat_nonempty]] show_nat_digits [OF last_in_set [OF show_nat_nonempty]]
    by (intro py_strip_trim show_nat_nonempty digit_visible)
  moreover have "is_digit c" using show_nat_digits [of c n] n by simp
  moreover have "int_digits U False 0 (show_nat n) = Some n"
    using int_digits_append [OF U, of "show_nat n" False 0 "[]"] show_nat_digits [of _ n] show_nat_nonempty [of n]
    by (simp add: show_nat_val)
  ultimately show ?thesis using n by (auto simp: py_int_def is_digit_def)
qed

text \<open>A version text \<open>v<n><rest>\<close>, where \<open>rest\<close> is empty or starts with a dot, has major \<open>n\<close>.\<close>

lemma major_text:
  assumes "unicode_ok U" "rest = [] \<or> hd rest = 46"
  shows "major U (118 # show_nat n @ rest) = Inr (int n)"
proof -
  have d: "\<forall>c \<in> set (show_nat n). is_digit c" using show_nat_digits by blast
  then have "dropWhile (\<lambda>c. c = 118 \<or> c = 86) (118 # show_nat n @ rest) = show_nat n @ rest"
    using show_nat_nonempty [of n] by (cases "show_nat n") (auto simp: is_digit_def)
  moreover have "hd (split_on 46 (show_nat n @ rest)) = show_nat n"
  proof (cases rest)
    case Nil
    with d show ?thesis by (subst split_on_no_sep) (auto simp: is_digit_def)
  next
    case (Cons c cs)
    with d assms(2) show ?thesis by (simp add: split_on_append is_digit_def) (subst split_on_append, auto simp: is_digit_def)
  qed
  ultimately show ?thesis by (simp add: major_def py_int_show [OF assms(1)])
qed

lemma major_current:
  assumes "unicode_ok U"
  shows "major U input_version = Inr 1" "major U result_version = Inr 1" "major U metadata_version = Inr 1"
  using major_text [OF assms, of "[46, 49]" 1] major_text [OF assms, of "[46, 48]" 1]
  by (simp_all add: input_version_def result_version_def metadata_version_def lit_def show_nat.simps)

subsection \<open>Round trips and drift\<close>

lemma py_get_obj [simp]: "py_get (JObj kvs) k d = Inr (case map_of kvs (lit k) of None \<Rightarrow> d | Some v \<Rightarrow> v)"
  by (simp add: py_get_def jget_def)

lemma py_item_obj [simp]: "py_item (JObj kvs) k = (case map_of kvs (lit k) of None \<Rightarrow> Inl MissingKey | Some v \<Rightarrow> Inr v)"
  by (simp add: py_item_def)

lemma lit_eq [simp]: "lit s = lit t \<longleftrightarrow> s = t"
proof -
  have "inj (of_char :: char \<Rightarrow> nat)" by (auto intro!: injI)
  then show ?thesis by (simp add: lit_def inj_map_eq_map)
qed

definition readable :: "unicode \<Rightarrow> ustr \<Rightarrow> ustr \<Rightarrow> bool" where
  "readable U v current \<longleftrightarrow> require_compatible U v current = Inr ()"

lemma dt_of_iso: "\<forall>t \<in> set_option v. utc_ok t \<Longrightarrow> dt_of (iso_opt v) = Inr v"
  by (cases v) (simp_all add: dt_of_def iso_opt_def utc_parse_iso)

text \<open>What each reader makes of what its writer wrote.\<close>

lemma input_read: "\<lbrakk>readable U (wi_version i) input_version; uuid_ok (wi_document_id i)\<rbrakk> \<Longrightarrow> input_from_json U (input_to_json i) = Inr i"
  by (simp add: input_from_json_def input_to_json_def checked_version_def readable_def py_uuid_def uuid_parse_str)

lemma result_read: "readable U (wr_version r) result_version \<Longrightarrow> result_from_json U (result_to_json r) = Inr r"
  by (simp add: result_from_json_def result_to_json_def checked_version_def readable_def)

lemma metadata_read:
  assumes "readable U (wm_version m) metadata_version" "\<forall>l \<in> set_option (wm_langgraph m). \<forall>t \<in> set_option (lm_deadline l). utc_ok t"
  shows "metadata_from_json U (metadata_to_json m) = Inr m"
proof (cases "wm_langgraph m")
  case None
  then show ?thesis
    using assms(1) by (simp add: metadata_from_json_def metadata_to_json_def checked_version_def readable_def taskiq_from_json_def taskiq_to_json_def)
next
  case (Some l)
  then have "dt_of (iso_opt (lm_deadline l)) = Inr (lm_deadline l)" using assms(2) by (intro dt_of_iso) auto
  with Some assms(1) show ?thesis
    by (simp add: metadata_from_json_def metadata_to_json_def checked_version_def readable_def
        taskiq_from_json_def taskiq_to_json_def langgraph_from_json_def langgraph_to_json_def)
qed

text \<open>
  C38.  Every blob the program writes reads back as it was, whatever version of the same major
  it carries: inputs, results, and metadata with or without a checkpoint and its deadline.
\<close>

theorem blobs_roundtrip:
  assumes "readable U (wi_version i) input_version" and "uuid_ok (wi_document_id i)"
    and "readable U (wr_version r) result_version"
    and "readable U (wm_version m) metadata_version"
    and "\<forall>l \<in> set_option (wm_langgraph m). \<forall>t \<in> set_option (lm_deadline l). utc_ok t"
  shows "input_from_json U (input_to_json i) = Inr i \<and> result_from_json U (result_to_json r) = Inr r
    \<and> metadata_from_json U (metadata_to_json m) = Inr m"
  using assms by (simp add: input_read result_read metadata_read)

text \<open>
  The version gate: a blob whose version reads \<open>v<n>\<close> or \<open>v<n>.<anything>\<close> is accepted by
  each of the three readers exactly when \<open>n\<close> is their major, 1, and fields a later minor version adds to the
  blob do not change what is read.
\<close>

theorem version_gate:
  assumes "unicode_ok U" and "rest = [] \<or> hd rest = 46"
    and "\<forall>k \<in> fst ` set extra. k \<notin> lit ` {''version'', ''document_id'', ''dossier_key'', ''annotate_reflect'', ''output'', ''error''}"
    and "v = 118 # show_nat n @ rest"
  shows "(readable U v input_version \<longleftrightarrow> n = 1) \<and> (readable U v result_version \<longleftrightarrow> n = 1) \<and> (readable U v metadata_version \<longleftrightarrow> n = 1)
    \<and> input_from_json U (JObj (kvs @ extra)) = input_from_json U (JObj kvs)
    \<and> result_from_json U (JObj (kvs @ extra)) = result_from_json U (JObj kvs)
    \<and> (n \<noteq> 1 \<longrightarrow> input_from_json U (JObj ((lit ''version'', JStr v) # kvs)) = Inl BadVersion)"
proof -
  have none: "\<forall>k \<in> {''version'', ''document_id'', ''dossier_key'', ''annotate_reflect'', ''output'', ''error''}. map_of extra (lit k) = None"
    using assms(3) by (metis image_eqI map_of_eq_None_iff)
  have drift: "map_of (kvs @ extra) (lit k) = map_of kvs (lit k)"
    if "k \<in> {''version'', ''document_id'', ''dossier_key'', ''annotate_reflect'', ''output'', ''error''}" for k
    using none that by (cases "map_of kvs (lit k)") (auto simp: map_add_def)
  show ?thesis
    using major_text [OF assms(1,2), of n] major_current [OF assms(1)]
    by (simp add: assms(4) readable_def require_compatible_def input_from_json_def result_from_json_def checked_version_def
        drift del: map_of_append)
qed

text \<open>Minor drift is read, a new major is not.\<close>

theorem version_gate_witness:
  "readable ascii_unicode (lit ''v1.7'') metadata_version \<and> \<not> readable ascii_unicode (lit ''v2.0'') metadata_version"
proof -
  have "lit ''v1.7'' = 118 # show_nat 1 @ [46, 55]" "lit ''v2.0'' = 118 # show_nat 2 @ [46, 48]"
    by (simp_all add: lit_def show_nat.simps)
  then show ?thesis
    using version_gate [OF unicode_ok_ascii, of "[46, 55]" "[]" "lit ''v1.7''" 1]
      version_gate [OF unicode_ok_ascii, of "[46, 48]" "[]" "lit ''v2.0''" 2] by simp
qed

definition demo_input :: wf_input where
  "demo_input = \<lparr>wi_document_id = 5, wi_dossier_key = JNull, wi_annotate_reflect = JBool True, wi_version = input_version\<rparr>"

definition demo_metadata :: wf_metadata where
  "demo_metadata = \<lparr>wm_taskiq = \<lparr>tm_task_id = JStr [65]\<rparr>,
     wm_langgraph = Some \<lparr>lm_thread_id = JStr [66], lm_checkpoint_id = JNull,
        lm_deadline = Some \<lparr>ut_date = (2026, 6, 18), ut_hour = 9, ut_min = 0, ut_sec = 30, ut_us = 7\<rparr>\<rparr>,
     wm_retry_count = JInt 0, wm_version = metadata_version\<rparr>"

theorem blobs_roundtrip_witness:
  "input_from_json ascii_unicode (input_to_json demo_input) = Inr demo_input
   \<and> metadata_from_json ascii_unicode (metadata_to_json demo_metadata) = Inr demo_metadata"
proof -
  have 1: "readable ascii_unicode (wi_version demo_input) input_version" "uuid_ok (wi_document_id demo_input)"
    "readable ascii_unicode (wr_version \<lparr>wr_output = JNull, wr_error = JNull, wr_version = result_version\<rparr>) result_version"
    "readable ascii_unicode (wm_version demo_metadata) metadata_version"
    by (simp_all add: readable_def require_compatible_def demo_input_def demo_metadata_def uuid_ok_def
        major_current [OF unicode_ok_ascii])
  have 2: "\<forall>l \<in> set_option (wm_langgraph demo_metadata). \<forall>t \<in> set_option (lm_deadline l). utc_ok t"
    by (auto simp: demo_metadata_def utc_ok_def valid_date_def days_in_month_def)
  show ?thesis using blobs_roundtrip [OF 1 2] by blast
qed

end
