(* ===== verification/Mime.thy ===== *)
theory Mime
  imports Dates "HOL-Library.Word"
begin

section \<open>MIME detection and upload validation\<close>

text \<open>
  \<open>doci/media/mime.py\<close> and \<open>MediaService.validate_object\<close>.  Bytes are 8-bit words.  The
  archive index behind \<open>zipfile\<close> is the parameter \<open>namelist\<close> (\<open>None\<close> for
  \<open>BadZipFile\<close>); \<open>unicode\<close> supplies \<open>str.lower\<close>.
\<close>

type_synonym byte = "8 word"

definition bytes :: "string \<Rightarrow> byte list" where
  "bytes s = map of_char s"

datatype mime = Pdf | Png | Jpeg | Gif | Webp | Bmp | Tiff | Docx | Xlsx | Pptx | Txt | Markdown | Csv

definition header_len :: nat where "header_len = 12"

definition match_webp :: "byte list \<Rightarrow> bool" where
  "match_webp h \<longleftrightarrow> 12 \<le> length h \<and> take 4 h = bytes ''RIFF'' \<and> take 4 (drop 8 h) = bytes ''WEBP''"

definition magic :: "(mime \<times> (byte list \<Rightarrow> bool)) list" where
  "magic =
    [(Pdf, starts_with (bytes ''%PDF'')),
     (Png, starts_with [0x89, 0x50, 0x4E, 0x47, 0x0D, 0x0A, 0x1A, 0x0A]),
     (Jpeg, starts_with [0xFF, 0xD8, 0xFF]),
     (Gif, starts_with (bytes ''GIF87a'')),
     (Gif, starts_with (bytes ''GIF89a'')),
     (Webp, match_webp),
     (Bmp, starts_with (bytes ''BM'')),
     (Tiff, starts_with [0x49, 0x49, 0x2A, 0x00]),
     (Tiff, starts_with [0x4D, 0x4D, 0x00, 0x2A])]"

definition zip_magic :: "byte list" where
  "zip_magic = [0x50, 0x4B, 0x03, 0x04]"

definition netscape_marker :: "byte list" where
  "netscape_marker = [0x21, 0xFF, 0x0B] @ bytes ''NETSCAPE2.0''"

definition bad_ctrl :: "byte \<Rightarrow> bool" where
  "bad_ctrl b \<longleftrightarrow> b \<le> 0x08 \<or> b = 0x0B \<or> b = 0x0C \<or> (0x0E \<le> b \<and> b \<le> 0x1F) \<or> b = 0x7F"

definition text_by_ext :: "(ustr \<times> mime) list" where
  "text_by_ext = [(lit ''.md'', Markdown), (lit ''.markdown'', Markdown), (lit ''.csv'', Csv), (lit ''.txt'', Txt)]"

definition is_gif87a :: "byte list \<Rightarrow> bool" where
  "is_gif87a h = starts_with (bytes ''GIF87a'') h"

text \<open>Whether \<open>bytes.decode("utf-8")\<close> succeeds: the well-formed sequences of Unicode.\<close>

definition cont :: "byte \<Rightarrow> bool" where
  "cont b \<longleftrightarrow> 0x80 \<le> b \<and> b \<le> 0xBF"

fun utf8_ok :: "byte list \<Rightarrow> bool" where
  "utf8_ok [] = True"
| "utf8_ok (a # s) =
    (if a \<le> 0x7F then utf8_ok s
     else if 0xC2 \<le> a \<and> a \<le> 0xDF then
       (case s of b # t \<Rightarrow> cont b \<and> utf8_ok t | _ \<Rightarrow> False)
     else if 0xE0 \<le> a \<and> a \<le> 0xEF then
       (case s of b # c # t \<Rightarrow> cont b \<and> cont c \<and> (a = 0xE0 \<longrightarrow> 0xA0 \<le> b) \<and> (a = 0xED \<longrightarrow> b \<le> 0x9F) \<and> utf8_ok t
        | _ \<Rightarrow> False)
     else if 0xF0 \<le> a \<and> a \<le> 0xF4 then
       (case s of b # c # d # t \<Rightarrow> cont b \<and> cont c \<and> cont d \<and> (a = 0xF0 \<longrightarrow> 0x90 \<le> b) \<and> (a = 0xF4 \<longrightarrow> b \<le> 0x8F) \<and> utf8_ok t
        | _ \<Rightarrow> False)
     else False)"

text \<open>\<open>PurePosixPath(f).suffix\<close>: the last dot of the last component, leading dots apart.\<close>

definition path_name :: "ustr \<Rightarrow> ustr" where
  "path_name f = (let cs = filter (\<lambda>c. c \<noteq> [] \<and> c \<noteq> [46]) (split_on 47 f) in
     if cs = [] then [] else last cs)"

definition path_suffix :: "ustr \<Rightarrow> ustr" where
  "path_suffix f = (let name = dropWhile (\<lambda>c. c = 46) (path_name f); i = rfind 46 name in
     if i = -1 then [] else drop (nat i) name)"

definition classify_ooxml :: "(byte list \<Rightarrow> ustr list option) \<Rightarrow> byte list \<Rightarrow> mime option" where
  "classify_ooxml namelist data = (case namelist data of
     None \<Rightarrow> None
   | Some names \<Rightarrow>
       if list_ex (starts_with (lit ''word/'')) names then Some Docx
       else if list_ex (starts_with (lit ''xl/'')) names then Some Xlsx
       else if list_ex (starts_with (lit ''ppt/'')) names then Some Pptx
       else None)"

definition classify_text :: "unicode \<Rightarrow> byte list \<Rightarrow> ustr option \<Rightarrow> mime option" where
  "classify_text U data filename =
     (if list_ex bad_ctrl data then None
      else if \<not> utf8_ok data then None
      else let ext = ulower U (path_suffix (case filename of None \<Rightarrow> [] | Some f \<Rightarrow> f)) in
           case map_of text_by_ext ext of Some m \<Rightarrow> Some m | None \<Rightarrow> Some Txt)"

definition detect_mime ::
  "unicode \<Rightarrow> (byte list \<Rightarrow> ustr list option) \<Rightarrow> byte list \<Rightarrow> ustr option \<Rightarrow> mime option" where
  "detect_mime U namelist data filename =
     (let header = take header_len data in
      case find (\<lambda>(_, match). match header) magic of
        Some (m, _) \<Rightarrow> Some m
      | None \<Rightarrow> if starts_with zip_magic header then classify_ooxml namelist data
               else classify_text U data filename)"

subsection \<open>Validating a stored upload\<close>

datatype media_error = MediaNotFound | UnsupportedType | TooLarge

text \<open>The streaming loop: read chunks until the buffer reaches the cap.\<close>

fun read_capped :: "nat \<Rightarrow> byte list \<Rightarrow> byte list list \<Rightarrow> byte list option" where
  "read_capped max_size buf [] = Some buf"
| "read_capped max_size buf (chunk # cs) =
     (let buf' = buf @ chunk in
      if length buf' \<ge> max_size then None else read_capped max_size buf' cs)"

definition validate_object ::
  "unicode \<Rightarrow> (byte list \<Rightarrow> ustr list option) \<Rightarrow> nat \<Rightarrow> byte list list \<Rightarrow> ustr option
   \<Rightarrow> media_error + mime \<times> nat" where
  "validate_object U namelist max_size chunks name =
     (case read_capped max_size [] chunks of
        None \<Rightarrow> Inl TooLarge
      | Some data \<Rightarrow>
          (case detect_mime U namelist data name of
             None \<Rightarrow> Inl UnsupportedType
           | Some m \<Rightarrow>
               if m = Gif \<and> \<not> is_gif87a (take header_len data) \<and> contains netscape_marker data
               then Inl UnsupportedType
               else Inr (m, length data)))"

text \<open>
  The stream of an object: the chunks it delivers and whether reading then raises, as it does at once when there
  is no object.  \<open>None\<close>: the error of the stream leaves \<open>validate_object\<close>; at the cap no more is read.
\<close>

type_synonym object_stream = "byte list list \<times> bool"

definition validate_stream ::
  "unicode \<Rightarrow> (byte list \<Rightarrow> ustr list option) \<Rightarrow> nat \<Rightarrow> object_stream \<Rightarrow> ustr option \<Rightarrow> (media_error + mime \<times> nat) option" where
  "validate_stream U namelist max_size stream name =
     (if snd stream \<and> read_capped max_size [] (fst stream) \<noteq> None then None
      else Some (validate_object U namelist max_size (fst stream) name))"

subsection \<open>Lemmas\<close>

lemma starts_with_take: "length p \<le> n \<Longrightarrow> starts_with p (take n s) \<longleftrightarrow> starts_with p s"
proof (induction p s arbitrary: n rule: starts_with.induct)
  case (3 p ps x xs)
  then show ?case by (cases n) auto
qed auto

text \<open>Only the first twelve bytes matter to a signature.\<close>

lemma match_webp_header: "match_webp (take 12 data) = match_webp data"
proof -
  have "take 4 (drop 8 (take 12 data)) = take 4 (drop 8 data)" by (simp add: drop_take)
  then show ?thesis by (simp add: match_webp_def min_def)
qed

lemma magic_header: "(m, match) \<in> set magic \<Longrightarrow> match (take header_len data) = match data"
  by (auto simp: magic_def header_len_def starts_with_take bytes_def match_webp_header)

lemma find_magic_header: "find (\<lambda>(_, match). match (take header_len data)) magic = find (\<lambda>(_, match). match data) magic"
  by (rule find_cong [OF refl]) (auto simp: magic_header)

text \<open>
  The first byte already tells the type, so no two signatures of different types match the
  same data and the order of the table is irrelevant.
\<close>

definition first_byte_type :: "byte \<Rightarrow> mime option" where
  "first_byte_type b = map_of [(0x25, Pdf), (0x89, Png), (0xFF, Jpeg), (0x47, Gif), (0x52, Webp), (0x42, Bmp),
     (0x49, Tiff), (0x4D, Tiff)] b"

lemma starts_with_Cons: "starts_with (p # ps) s \<longleftrightarrow> (\<exists>t. s = p # t \<and> starts_with ps t)"
  by (cases s) auto

lemma match_webp_riff: "match_webp h \<Longrightarrow> starts_with (bytes ''RIFF'') h"
  by (metis (no_types) append_take_drop_id match_webp_def starts_with_append)

lemma magic_first_byte: "\<lbrakk>(m, match) \<in> set magic; match data\<rbrakk> \<Longrightarrow> data \<noteq> [] \<and> first_byte_type (hd data) = Some m"
proof -
  assume m: "(m, match) \<in> set magic" "match data"
  have hd: "data \<noteq> [] \<and> hd data = p" if "starts_with (p # ps) data" for p ps
    using that by (auto simp: starts_with_Cons)
  show ?thesis
    using m match_webp_riff [of data] unfolding magic_def bytes_def first_byte_type_def
    by (auto dest!: hd)
qed

definition signed_as :: "mime \<Rightarrow> byte list \<Rightarrow> bool" where
  "signed_as m data \<longleftrightarrow> (\<exists>match. (m, match) \<in> set magic \<and> match data)"

lemma find_magic: "map_option fst (find (\<lambda>(_, match). match data) magic) = Some m \<longleftrightarrow> signed_as m data"
proof -
  have ex: "\<exists>y. find p xs = Some y" if "x \<in> set xs" "p x" for p and x :: "mime \<times> (byte list \<Rightarrow> bool)" and xs
    using that by (induction xs) auto
  show ?thesis
  proof
    assume "map_option fst (find (\<lambda>(_, match). match data) magic) = Some m"
    then show "signed_as m data" by (auto simp: signed_as_def dest!: find_Some_in)
  next
    assume s: "signed_as m data"
    then obtain match where m: "(m, match) \<in> set magic" "match data" by (auto simp: signed_as_def)
    with ex [of "(m, match)" magic "\<lambda>(_, match). match data"]
    obtain y where y: "find (\<lambda>(_, match). match data) magic = Some y" by auto
    with find_Some_in [OF y] magic_first_byte [of "fst y" "snd y" data] magic_first_byte [OF m]
    show "map_option fst (find (\<lambda>(_, match). match data) magic) = Some m" by (auto simp: split_beta)
  qed
qed

lemma find_magic_None: "find (\<lambda>(_, match). match data) magic = None \<longleftrightarrow> (\<forall>m. \<not> signed_as m data)"
  by (auto simp: find_None_set signed_as_def)

lemma detect_mime_cases: "detect_mime U namelist data f =
  (if \<exists>m. signed_as m data then map_option fst (find (\<lambda>(_, match). match data) magic)
   else if starts_with zip_magic data then classify_ooxml namelist data
   else classify_text U data f)"
proof -
  have "starts_with zip_magic (take header_len data) = starts_with zip_magic data"
    by (simp add: starts_with_take zip_magic_def header_len_def)
  then show ?thesis
    using find_magic_None [of data]
    by (auto simp: detect_mime_def Let_def find_magic_header split: option.splits)
qed

lemma classify_ooxml_Some: "classify_ooxml namelist data = Some m \<Longrightarrow> m \<in> {Docx, Xlsx, Pptx}"
  by (auto simp: classify_ooxml_def split: option.splits if_splits)

lemma classify_text_Some: "classify_text U data f = Some m \<longleftrightarrow>
  \<not> list_ex bad_ctrl data \<and> utf8_ok data \<and>
  m = (case map_of text_by_ext (ulower U (path_suffix (case f of None \<Rightarrow> [] | Some f \<Rightarrow> f))) of Some m \<Rightarrow> m | None \<Rightarrow> Txt)"
  by (auto simp: classify_text_def Let_def split: option.splits)

lemma text_mime: "classify_text U data f = Some m \<Longrightarrow> m \<in> {Txt, Markdown, Csv}"
  by (auto simp: classify_text_Some text_by_ext_def split: option.splits if_splits)

lemma read_capped_eq: "\<lbrakk>length buf < mx\<rbrakk> \<Longrightarrow>
  read_capped mx buf cs = (if mx \<le> length (buf @ concat cs) then None else Some (buf @ concat cs))"
  by (induction mx buf cs rule: read_capped.induct) (auto simp: Let_def)

subsection \<open>Properties\<close>

text \<open>
  C28.  What is accepted as what.  A type is detected exactly when the data bears one of its
  signatures; or, bearing none, is a ZIP container that holds an Office part; or, being
  neither, is well-formed UTF-8 without dangerous control bytes, named by its extension.  So
  no file is detected as two types, whatever the order of the table, and the twelve bytes
  looked at suffice.
\<close>

theorem detect_mime_exact:
  "detect_mime U namelist data f = Some m \<longleftrightarrow>
     signed_as m data
   \<or> (\<forall>m'. \<not> signed_as m' data) \<and> starts_with zip_magic data \<and> classify_ooxml namelist data = Some m
   \<or> (\<forall>m'. \<not> signed_as m' data) \<and> \<not> starts_with zip_magic data \<and> \<not> list_ex bad_ctrl data \<and> utf8_ok data
       \<and> m = (case map_of text_by_ext (ulower U (path_suffix (case f of None \<Rightarrow> [] | Some f \<Rightarrow> f))) of
                Some m \<Rightarrow> m | None \<Rightarrow> Txt)"
  using find_magic [of data m] by (auto simp: detect_mime_cases classify_text_Some)

text \<open>
  C29.  Validation does not depend on how the store cuts the body into chunks, and decides
  exactly this: an object is accepted when it is strictly smaller than the cap, its type is
  detected, and it is not a GIF of a version that may be animated carrying the NETSCAPE marker;
  the reported size is its length.
\<close>

theorem validate_object_exact:
  assumes "0 < max_size"
  shows "validate_object U namelist max_size chunks name =
    (let data = concat chunks in
     if max_size \<le> length data then Inl TooLarge
     else case detect_mime U namelist data name of
       None \<Rightarrow> Inl UnsupportedType
     | Some m \<Rightarrow> if m = Gif \<and> \<not> starts_with (bytes ''GIF87a'') data \<and> contains netscape_marker data
                 then Inl UnsupportedType else Inr (m, length data))"
proof -
  have "is_gif87a (take header_len data) = starts_with (bytes ''GIF87a'') data" for data
    by (simp add: is_gif87a_def starts_with_take header_len_def bytes_def)
  then show ?thesis
    using assms by (simp add: validate_object_def read_capped_eq Let_def split: option.split)
qed

text \<open>A nine-byte PDF stub in two chunks is accepted under a cap of ten, rejected under nine.\<close>

theorem validate_object_exact_witness:
  "validate_object ascii_unicode (\<lambda>_. None) 10 [bytes ''%PD'', bytes ''F-1.7x''] None = Inr (Pdf, 9)
   \<and> validate_object ascii_unicode (\<lambda>_. None) 9 [bytes ''%PDF-1.7x''] None = Inl TooLarge"
  using validate_object_exact [of 10 ascii_unicode "\<lambda>_. None" "[bytes ''%PD'', bytes ''F-1.7x'']" None]
    validate_object_exact [of 9 ascii_unicode "\<lambda>_. None" "[bytes ''%PDF-1.7x'']" None]
  by (simp add: bytes_def detect_mime_def magic_def header_len_def)

end
