(* ===== verification/Tables.thy ===== *)
theory Tables
  imports Prelude
begin

section \<open>Two table disciplines\<close>

text \<open>
  The services keep their rows under one of two disciplines, stated here as interfaces with
  what follows from them.  \<open>keyed_upsert\<close>: a table with a unique key written by
  \<open>INSERT ... ON CONFLICT (key) DO UPDATE ... RETURNING\<close>.  \<open>soft_table\<close>: a table whose
  rows are marked deleted and whose key is unique among the live rows only.
\<close>

subsection \<open>Upserts\<close>

text \<open>\<open>p\<close> finds the conflicting row, \<open>f\<close> is the \<open>DO UPDATE\<close>, \<open>new\<close> the row to insert.\<close>

definition upsert :: "('r \<Rightarrow> bool) \<Rightarrow> ('r \<Rightarrow> 'r) \<Rightarrow> 'r \<Rightarrow> 'r list \<Rightarrow> 'r \<times> 'r list" where
  "upsert p f new rs = (case find p rs of Some r \<Rightarrow> (f r, upd_where p f rs) | None \<Rightarrow> (new, rs @ [new]))"

lemma upsert_hit: "\<exists>r \<in> set rs. p r \<Longrightarrow> \<exists>r. find p rs = Some r \<and> r \<in> set rs \<and> p r \<and> upsert p f new rs = (f r, upd_where p f rs)"
proof -
  assume "\<exists>r \<in> set rs. p r"
  then obtain r where "find p rs = Some r" by (metis find_None_set not_None_eq)
  with find_Some_in [OF this] show ?thesis by (simp add: upsert_def)
qed

lemma upsert_miss: "\<not> (\<exists>r \<in> set rs. p r) \<Longrightarrow> upsert p f new rs = (new, rs @ [new])"
proof -
  assume "\<not> (\<exists>r \<in> set rs. p r)"
  then have "find p rs = None" by (auto simp: find_None_set)
  then show ?thesis by (simp add: upsert_def)
qed

locale keyed_upsert =
  fixes key :: "'r \<Rightarrow> 'k"
    and ident :: "'r \<Rightarrow> 'i"
    and put :: "'a \<Rightarrow> 'r list \<Rightarrow> 'r \<times> 'r list"
    and target :: "'a \<Rightarrow> 'k"
    and carries :: "'a \<Rightarrow> 'r \<Rightarrow> bool"
  assumes put_row: "fst (put a rs) \<in> set (snd (put a rs)) \<and> key (fst (put a rs)) = target a \<and> carries a (fst (put a rs))"
    and put_hit: "r \<in> set rs \<Longrightarrow> distinct (map key rs) \<Longrightarrow> key r = target a \<Longrightarrow>
      ident (fst (put a rs)) = ident r \<and> map ident (snd (put a rs)) = map ident rs"
    and put_keys: "map key (snd (put a rs)) = (if target a \<in> key ` set rs then map key rs else map key rs @ [target a])"
    and put_frame: "filter (\<lambda>r. key r \<noteq> target a) (snd (put a rs)) = filter (\<lambda>r. key r \<noteq> target a) rs"
begin

lemma put_distinct: "distinct (map key rs) \<Longrightarrow> distinct (map key (snd (put a rs)))"
  by (simp add: put_keys)

lemma put_lookup:
  assumes "distinct (map key rs)"
  shows "find (\<lambda>r. key r = target a) (snd (put a rs)) = Some (fst (put a rs))"
  using find_unique [OF put_distinct [OF assms], of "fst (put a rs)" a] put_row [of a rs] by simp

lemma put_other:
  assumes "k \<noteq> target a"
  shows "filter (\<lambda>r. key r = k) (snd (put a rs)) = filter (\<lambda>r. key r = k) rs"
proof -
  have "filter (\<lambda>r. key r = k) xs = filter (\<lambda>r. key r = k) (filter (\<lambda>r. key r \<noteq> target a) xs)" for xs
    using assms by (induction xs) auto
  then show ?thesis by (metis put_frame)
qed

text \<open>A repeated write under the same key neither adds a row nor changes the row's identity.\<close>

lemma put_again:
  assumes "distinct (map key rs)" "target b = target a"
  shows "ident (fst (put b (snd (put a rs)))) = ident (fst (put a rs))"
    "length (snd (put b (snd (put a rs)))) = length (snd (put a rs))"
proof -
  show "ident (fst (put b (snd (put a rs)))) = ident (fst (put a rs))"
    using put_hit [of "fst (put a rs)" "snd (put a rs)" b] put_row [of a rs] put_distinct [OF assms(1)] assms(2) by simp
  have "target b \<in> key ` set (snd (put a rs))" using put_row [of a rs] assms(2) by (metis image_eqI)
  then have "map key (snd (put b (snd (put a rs)))) = map key (snd (put a rs))" by (simp add: put_keys)
  then show "length (snd (put b (snd (put a rs)))) = length (snd (put a rs))" by (metis length_map)
qed

end

text \<open>The laws hold of every \<open>upsert\<close> whose update keeps key and identity.\<close>

lemma keyed_upsert_upsert:
  fixes key :: "'r \<Rightarrow> 'k" and ident :: "'r \<Rightarrow> 'i"
  assumes put: "\<And>a rs. put a rs = upsert (\<lambda>r. key r = target a) (f a) (new a) rs"
    and f: "\<And>a r. key (f a r) = key r" "\<And>a r. ident (f a r) = ident r" "\<And>a r. carries a (f a r)"
    and new: "\<And>a. key (new a) = target a" "\<And>a. carries a (new a)"
  shows "keyed_upsert key ident put target carries"
proof
  fix a and rs :: "'r list"
  consider (hit) r where "find (\<lambda>r. key r = target a) rs = Some r" "r \<in> set rs" "key r = target a"
      "put a rs = (f a r, upd_where (\<lambda>r. key r = target a) (f a) rs)"
    | (miss) "target a \<notin> key ` set rs" "put a rs = (new a, rs @ [new a])"
    using upsert_hit [of rs "\<lambda>r. key r = target a" "f a" "new a"]
      upsert_miss [of rs "\<lambda>r. key r = target a" "f a" "new a"] unfolding put by (cases "\<exists>r \<in> set rs. key r = target a") (auto simp: image_iff, metis)
  note c = this
  have mk: "map key (upd_where (\<lambda>r. key r = target a) (f a) rs) = map key rs"
    "map ident (upd_where (\<lambda>r. key r = target a) (f a) rs) = map ident rs"
    by (rule map_upd_where, simp add: f)+
  show "fst (put a rs) \<in> set (snd (put a rs)) \<and> key (fst (put a rs)) = target a \<and> carries a (fst (put a rs))"
    using c by cases (auto simp: f new set_upd_where)
  show "map key (snd (put a rs)) = (if target a \<in> key ` set rs then map key rs else map key rs @ [target a])"
    using c
  proof cases
    case (hit r)
    then have "target a \<in> key ` set rs" by (metis image_eqI)
    then show ?thesis by (simp add: hit(4) mk)
  qed (simp add: new)
  show "filter (\<lambda>r. key r \<noteq> target a) (snd (put a rs)) = filter (\<lambda>r. key r \<noteq> target a) rs"
    using c
  proof cases
    case hit
    have "filter (\<lambda>r. key r \<noteq> target a) (upd_where (\<lambda>r. key r = target a) (f a) rs)
        = upd_where (\<lambda>r. key r = target a) (f a) (filter (\<lambda>r. key r \<noteq> target a) rs)"
      by (rule filter_upd_where) (simp add: f)
    also have "\<dots> = filter (\<lambda>r. key r \<noteq> target a) rs" by (rule upd_where_none) simp
    finally show ?thesis by (simp add: hit(4))
  qed (simp add: new)
  show "ident (fst (put a rs)) = ident r \<and> map ident (snd (put a rs)) = map ident rs"
    if "r \<in> set rs" "distinct (map key rs)" "key r = target a" for r
    using c
  proof cases
    case (hit r')
    then have "r' = r" using find_unique [OF that(2,1)] that(3) by simp
    then show ?thesis by (simp add: hit(4) mk f)
  next
    case miss
    then show ?thesis using that by (metis image_eqI)
  qed
qed

subsection \<open>Soft deletion\<close>

datatype userdata_error = NotFound | DuplicateKey

locale soft_table =
  fixes key :: "'r \<Rightarrow> ustr"
    and ident :: "'r \<Rightarrow> uuid"
    and deleted :: "'r \<Rightarrow> time option"
    and get :: "ustr \<Rightarrow> 'r list \<Rightarrow> userdata_error + 'r"
    and create :: "'c \<Rightarrow> 'r list \<Rightarrow> (userdata_error + 'r) \<times> 'r list"
    and ckey :: "'c \<Rightarrow> ustr"
    and cid :: "'c \<Rightarrow> uuid"
    and update :: "'u \<Rightarrow> ustr \<Rightarrow> 'r list \<Rightarrow> (userdata_error + 'r) \<times> 'r list"
    and patch :: "'u \<Rightarrow> 'r \<Rightarrow> 'r"
    and delete :: "time \<Rightarrow> ustr list \<Rightarrow> 'r list \<Rightarrow> nat \<times> 'r list"
    and mark :: "time \<Rightarrow> 'r \<Rightarrow> 'r"
  assumes get_law: "get k rs = (case find (\<lambda>r. key r = k \<and> deleted r = None) rs of None \<Rightarrow> Inl NotFound | Some r \<Rightarrow> Inr r)"
    and create_dup: "\<exists>r \<in> set rs. key r = ckey c \<and> deleted r = None \<Longrightarrow> create c rs = (Inl DuplicateKey, rs)"
    and create_new: "\<not> (\<exists>r \<in> set rs. key r = ckey c \<and> deleted r = None) \<Longrightarrow>
      \<exists>r. create c rs = (Inr r, rs @ [r]) \<and> key r = ckey c \<and> ident r = cid c \<and> deleted r = None"
    and update_law: "update u k rs = (case get k rs of Inl e \<Rightarrow> (Inl e, rs)
      | Inr r \<Rightarrow> (Inr (patch u r), upd_where (\<lambda>r. key r = k \<and> deleted r = None) (patch u) rs))"
    and patch_law: "key (patch u r) = key r" "ident (patch u r) = ident r" "deleted (patch u r) = deleted r"
    and delete_law: "delete now ks rs = (length (filter (\<lambda>r. key r \<in> set ks \<and> deleted r = None) rs),
      upd_where (\<lambda>r. key r \<in> set ks \<and> deleted r = None) (mark now) rs)"
    and mark_law: "key (mark now r) = key r" "ident (mark now r) = ident r" "deleted (mark now r) = Some now"
begin

definition live :: "'r list \<Rightarrow> 'r list" where
  "live rs = filter (\<lambda>r. deleted r = None) rs"

text \<open>The primary key and the partial unique index.\<close>

definition wf :: "'r list \<Rightarrow> bool" where
  "wf rs \<longleftrightarrow> distinct (map ident rs) \<and> distinct (map key (live rs))"

lemma key_in_live: "(\<exists>r \<in> set rs. key r = k \<and> deleted r = None) \<longleftrightarrow> k \<in> key ` set (live rs)"
  by (auto simp: live_def)

lemma get_Inr: "get k rs = Inr r \<longleftrightarrow> find (\<lambda>r. key r = k \<and> deleted r = None) rs = Some r"
  by (auto simp: get_law split: option.splits)

lemma get_Inl: "get k rs = Inl e \<longleftrightarrow> e = NotFound \<and> k \<notin> key ` set (live rs)"
  by (auto simp: get_law find_None_set live_def split: option.splits dest!: find_Some_in)

lemma get_unique: "\<lbrakk>wf rs; r \<in> set rs; deleted r = None\<rbrakk> \<Longrightarrow> get (key r) rs = Inr r"
proof -
  have "find (\<lambda>x. key x = k \<and> deleted x = None) rs = find (\<lambda>x. key x = k) (live rs)" for k
    unfolding live_def by (induction rs) auto
  moreover assume "wf rs" "r \<in> set rs" "deleted r = None"
  ultimately show ?thesis using find_unique [of key "live rs" r] by (simp add: get_Inr wf_def live_def)
qed

lemma live_update: "live (upd_where (\<lambda>r. key r = k \<and> deleted r = None) (patch u) rs)
    = upd_where (\<lambda>r. key r = k) (patch u) (live rs)"
  unfolding live_def by (induction rs) (auto simp: patch_law)

lemma live_delete: "live (upd_where (\<lambda>r. key r \<in> set ks \<and> deleted r = None) (mark now) rs)
    = filter (\<lambda>r. key r \<notin> set ks) (live rs)"
  unfolding live_def by (induction rs) (auto simp: mark_law)

lemma create_cases:
  obtains (dup) "create c rs = (Inl DuplicateKey, rs)" "ckey c \<in> key ` set (live rs)"
  | (new) r where "create c rs = (Inr r, rs @ [r])" "key r = ckey c" "ident r = cid c" "deleted r = None"
      "ckey c \<notin> key ` set (live rs)"
proof (cases "\<exists>r \<in> set rs. key r = ckey c \<and> deleted r = None")
  case True
  show ?thesis by (rule dup) (use True create_dup [OF True] key_in_live in auto)
next
  case False
  with create_new [OF False] obtain r where
    "create c rs = (Inr r, rs @ [r])" "key r = ckey c" "ident r = cid c" "deleted r = None" by auto
  then show ?thesis by (rule new) (use False key_in_live [of rs "ckey c"] in simp)
qed

lemma wf_create: "\<lbrakk>wf rs; cid c \<notin> ident ` set rs\<rbrakk> \<Longrightarrow> wf (snd (create c rs))"
  by (rule create_cases [of c rs]) (auto simp: wf_def live_def)

lemma wf_update: "wf rs \<Longrightarrow> wf (snd (update u k rs))"
  by (auto simp: update_law wf_def live_update map_upd_where patch_law split: sum.split)

lemma wf_delete: "wf rs \<Longrightarrow> wf (snd (delete now ks rs))"
  by (simp add: delete_law wf_def live_delete map_upd_where mark_law distinct_map_filterI)

lemma create_get: "fst (create c rs) = Inr r \<Longrightarrow> get (ckey c) (snd (create c rs)) = Inr r"
proof -
  have fa: "find p (xs @ [x]) = Some x" if "\<not> (\<exists>y \<in> set xs. p y)" "p x" for p :: "'r \<Rightarrow> bool" and xs x
    using that by (induction xs) auto
  assume "fst (create c rs) = Inr r"
  then show ?thesis
  proof (cases rule: create_cases [of c rs])
    case (new r')
    moreover have "\<not> (\<exists>y \<in> set rs. key y = ckey c \<and> deleted y = None)" using new(5) key_in_live [of rs "ckey c"] by blast
    ultimately show ?thesis using \<open>fst (create c rs) = Inr r\<close> by (auto simp: get_Inr intro!: fa)
  qed simp
qed

lemma update_get: "\<lbrakk>wf rs; fst (update u k rs) = Inr r\<rbrakk> \<Longrightarrow> get k (snd (update u k rs)) = Inr r"
proof -
  assume w: "wf rs" and r: "fst (update u k rs) = Inr r"
  then obtain q where q: "get k rs = Inr q" "r = patch u q"
    by (auto simp: update_law split: sum.splits)
  then have "q \<in> set rs \<and> key q = k \<and> deleted q = None" by (auto simp: get_Inr dest: find_Some_in)
  with q have "r \<in> set (snd (update u k rs)) \<and> key r = k \<and> deleted r = None"
    by (auto simp: update_law set_upd_where patch_law)
  with get_unique [OF wf_update [OF w], of r u k] show ?thesis by auto
qed

lemma delete_get: "k \<in> set ks \<Longrightarrow> get k (snd (delete now ks rs)) = Inl NotFound"
  by (auto simp: get_Inl delete_law live_delete)

lemma delete_again: "fst (delete now' ks (snd (delete now ks rs))) = 0"
proof -
  have "filter (\<lambda>r. key r \<in> set ks \<and> deleted r = None) xs = filter (\<lambda>r. key r \<in> set ks) (live xs)" for xs
    by (simp add: live_def conj_commute)
  then show ?thesis by (simp add: delete_law live_delete)
qed

text \<open>A key is free again once its row is deleted, and the deleted row stays as it was.\<close>

lemma delete_create:
  assumes "ckey c \<in> set ks"
  shows "\<exists>r. create c (snd (delete now ks rs)) = (Inr r, snd (delete now ks rs) @ [r]) \<and> ident r = cid c"
proof -
  have "\<not> (\<exists>r \<in> set (snd (delete now ks rs)). key r = ckey c \<and> deleted r = None)"
    using assms by (auto simp: delete_law set_upd_where mark_law)
  from create_new [OF this] show ?thesis by auto
qed

lemma dead_update: "\<lbrakk>r \<in> set rs; deleted r \<noteq> None\<rbrakk> \<Longrightarrow> r \<in> set (snd (update u k rs))"
  by (auto simp: update_law set_upd_where image_iff split: sum.split intro!: bexI [of _ r])

lemma dead_delete: "\<lbrakk>r \<in> set rs; deleted r \<noteq> None\<rbrakk> \<Longrightarrow> r \<in> set (snd (delete now ks rs))"
  by (auto simp: delete_law set_upd_where image_iff intro!: bexI [of _ r])

lemma dead_create: "r \<in> set rs \<Longrightarrow> r \<in> set (snd (create c rs))"
  using create_dup [of rs c] create_new [of rs c] by (cases "\<exists>r \<in> set rs. key r = ckey c \<and> deleted r = None") auto

text \<open>Other keys are not affected.\<close>

lemma get_create_other: "k \<noteq> ckey c \<Longrightarrow> get k (snd (create c rs)) = get k rs"
proof -
  have fa: "find p (xs @ [x]) = find p xs" if "\<not> p x" for p :: "'r \<Rightarrow> bool" and xs x
    using that by (induction xs) auto
  assume "k \<noteq> ckey c"
  then show ?thesis
    using create_dup [of rs c] create_new [of rs c]
    by (cases "\<exists>r \<in> set rs. key r = ckey c \<and> deleted r = None") (auto simp: get_law fa)
qed

lemma get_update_other: "k' \<noteq> k \<Longrightarrow> get k' (snd (update u k rs)) = get k' rs"
proof -
  assume k: "k' \<noteq> k"
  have "find (\<lambda>r. key r = k' \<and> deleted r = None) (upd_where (\<lambda>r. key r = k \<and> deleted r = None) (patch u) rs)
      = find (\<lambda>r. key r = k' \<and> deleted r = None) rs"
    using k by (intro find_upd_where_other) (auto simp: patch_law)
  then show ?thesis by (simp add: update_law get_law [of k'] split: sum.split)
qed

lemma get_delete_other: "k \<notin> set ks \<Longrightarrow> get k (snd (delete now ks rs)) = get k rs"
proof -
  assume "k \<notin> set ks"
  then have "find (\<lambda>r. key r = k \<and> deleted r = None) (upd_where (\<lambda>r. key r \<in> set ks \<and> deleted r = None) (mark now) rs)
      = find (\<lambda>r. key r = k \<and> deleted r = None) rs"
    by (intro find_upd_where_other) (auto simp: mark_law)
  then show ?thesis by (simp add: delete_law get_law)
qed

end

end
