(* ===== verification/Media.thy ===== *)
theory Media
  imports Store Mime Bucket Tables
begin

section \<open>The media service\<close>

text \<open>
  \<open>doci/media/service.py\<close>, \<open>config.py\<close>, \<open>models.py\<close>.  The object store is a map from keys
  to bodies; which deletions it performs, the body a stream delivers and what rendering
  produces are arguments.  \<open>now\<close> is the database's \<open>now()\<close> and \<open>fresh\<close> the value of
  \<open>uuid4()\<close>.  The URL cache is a pair of functions on its own
  state, which may fail.
\<close>

subsection \<open>Configuration\<close>

record media_config =
  max_size :: int
  upload_expiry :: int
  view_expiry :: int
  view_cache_ttl :: int
  concurrency :: int
  purge_after :: int
  page_size :: int
  max_page_size :: int
  delete_max_depth :: int

definition media_config_default :: media_config where
  "media_config_default = \<lparr>max_size = 33554432, upload_expiry = 900, view_expiry = 3600,
     view_cache_ttl = 3600 * 9 div 10, concurrency = 10, purge_after = 7 * 24 * 3600,
     page_size = 50, max_page_size = 100, delete_max_depth = 5\<rparr>"

text \<open>\<open>int(os.getenv(name, default))\<close>: only an unset variable takes the default.\<close>

definition env_int :: "unicode \<Rightarrow> environ \<Rightarrow> string \<Rightarrow> int \<Rightarrow> int option" where
  "env_int U env name dflt = (case env (lit name) of None \<Rightarrow> Some dflt | Some s \<Rightarrow> py_int U s)"

definition media_config_from_env :: "unicode \<Rightarrow> environ \<Rightarrow> media_config option" where
  "media_config_from_env U env =
     (case map (\<lambda>(n, d). env_int U env n d)
            [(''MEDIA_VIEW_EXPIRY'', 3600), (''MEDIA_MAX_SIZE'', 33554432), (''MEDIA_UPLOAD_EXPIRY'', 900),
             (''MEDIA_VIEW_CONCURRENCY'', 10), (''MEDIA_PURGE_AFTER'', 7 * 24 * 3600), (''MEDIA_PAGE_SIZE'', 50),
             (''MEDIA_MAX_PAGE_SIZE'', 100), (''MEDIA_DELETE_MAX_DEPTH'', 3)] of
        [Some ve, Some ms, Some ue, Some co, Some pa, Some ps, Some mp, Some dd] \<Rightarrow>
          (case (case truthy (env (lit ''MEDIA_VIEW_CACHE_TTL'')) of
                   Some s \<Rightarrow> py_int U s | None \<Rightarrow> Some (ve * 9 div 10)) of
             None \<Rightarrow> None
           | Some ttl \<Rightarrow> Some \<lparr>max_size = ms, upload_expiry = ue, view_expiry = ve, view_cache_ttl = ttl,
               concurrency = co, purge_after = pa, page_size = ps, max_page_size = mp, delete_max_depth = dd\<rparr>)
      | _ \<Rightarrow> None)"

subsection \<open>Blobs\<close>

record world =
  wdb :: db
  objs :: "ustr \<Rightarrow> byte list option"

definition upd_db :: "(db \<Rightarrow> db) \<Rightarrow> world \<Rightarrow> world" where
  "upd_db f w = w\<lparr>wdb := f (wdb w)\<rparr>"

definition upload_object :: "ustr \<Rightarrow> byte list \<Rightarrow> world \<Rightarrow> world" where
  "upload_object key data w = w\<lparr>objs := (objs w)(key \<mapsto> data)\<rparr>"

definition set_blob :: "time \<Rightarrow> ustr option \<Rightarrow> nat option \<Rightarrow> media_row \<Rightarrow> media_row" where
  "set_blob now mime sz m = m\<lparr>m_mime := mime, m_size := sz, m_updated := now\<rparr>"

text \<open>The statement on the table; the tuple holds now, the fresh id, the key, the given id, type and size.\<close>

type_synonym blob_put = "time \<times> uuid \<times> ustr \<times> uuid option \<times> ustr option \<times> nat option"

definition blob_key :: "blob_put \<Rightarrow> ustr" where
  "blob_key = (\<lambda>(now, fresh, key, i, mime, sz). key)"

definition blob_set :: "blob_put \<Rightarrow> media_row \<Rightarrow> media_row" where
  "blob_set = (\<lambda>(now, fresh, key, i, mime, sz). set_blob now mime sz)"

definition blob_new :: "blob_put \<Rightarrow> media_row" where
  "blob_new = (\<lambda>(now, fresh, key, i, mime, sz).
     \<lparr>m_id = (case i of Some j \<Rightarrow> j | None \<Rightarrow> fresh), m_object_key = key, m_mime = mime, m_size = sz,
      m_deleted = None, m_purge = None, m_created = now, m_updated = now\<rparr>)"

definition put_blob :: "blob_put \<Rightarrow> media_row list \<Rightarrow> media_row \<times> media_row list" where
  "put_blob a rs = upsert (\<lambda>m. m_object_key m = blob_key a) (blob_set a) (blob_new a) rs"

definition insert_blob ::
  "time \<Rightarrow> uuid \<Rightarrow> ustr \<Rightarrow> uuid option \<Rightarrow> ustr option \<Rightarrow> nat option \<Rightarrow> db \<Rightarrow> media_row \<times> db" where
  "insert_blob now fresh key media_id mime sz s =
     (let (m, ms) = put_blob (now, fresh, key, media_id, mime, sz) (media s) in (m, s\<lparr>media := ms\<rparr>))"

definition media_fetch :: "uuid \<Rightarrow> db \<Rightarrow> media_error + media_row" where
  "media_fetch i s = (case find (\<lambda>m. m_id m = i \<and> m_deleted m = None) (media s) of
     None \<Rightarrow> Inl MediaNotFound | Some m \<Rightarrow> Inr m)"

definition media_get :: "uuid \<Rightarrow> db \<Rightarrow> media_error + media_row" where
  "media_get i s = media_fetch i s"

text \<open>The body, or \<open>None\<close> when the store raises because there is no object.\<close>

definition media_download :: "uuid \<Rightarrow> world \<Rightarrow> media_error + byte list option" where
  "media_download i w = bindE (media_fetch i (wdb w)) (\<lambda>m. Inr (objs w (m_object_key m)))"

definition thumb_key :: "ustr \<Rightarrow> ustr" where
  "thumb_key k = k @ lit ''.thumb''"

text \<open>\<open>render\<close> is called only when the thumbnail is missing; \<open>None\<close> means that it raises.\<close>

datatype blob_error = BlobMedia media_error | RenderFailed

definition ensure_thumb ::
  "time \<Rightarrow> uuid \<Rightarrow> uuid \<Rightarrow> (unit \<Rightarrow> (byte list \<times> ustr option) option) \<Rightarrow> world \<Rightarrow> (blob_error + media_row) \<times> world" where
  "ensure_thumb now fresh source render w =
     (case media_fetch source (wdb w) of
        Inl e \<Rightarrow> (Inl (BlobMedia e), w)
      | Inr src \<Rightarrow>
          (let key = thumb_key (m_object_key src) in
           case find (\<lambda>m. m_object_key m = key \<and> m_deleted m = None) (media (wdb w)) of
             Some m \<Rightarrow> (Inr m, w)
           | None \<Rightarrow>
               (case render () of
                  None \<Rightarrow> (Inl RenderFailed, w)
                | Some (data, mime) \<Rightarrow>
                    (let w1 = upload_object key data w;
                         (m, s) = insert_blob now fresh key None mime (Some (length data)) (wdb w1)
                     in (Inr m, w1\<lparr>wdb := s\<rparr>)))))"

text \<open>The dictionary \<open>get_many\<close> returns, as an association list.\<close>

definition media_get_many :: "uuid list \<Rightarrow> db \<Rightarrow> (uuid \<times> media_row) list" where
  "media_get_many ids s = (if ids = [] then []
     else map (\<lambda>m. (m_id m, m)) (filter (\<lambda>m. m_id m \<in> set ids \<and> m_deleted m = None) (media s)))"

subsection \<open>Views\<close>

record ('c, 'e) url_cache =
  uc_get :: "ustr \<Rightarrow> 'c \<Rightarrow> ('e + ustr option) \<times> 'c"
  uc_set :: "ustr \<Rightarrow> ustr \<Rightarrow> int \<Rightarrow> 'c \<Rightarrow> ('e + unit) \<times> 'c"

definition view_url ::
  "media_config \<Rightarrow> ('c, 'e) url_cache \<Rightarrow> (ustr \<Rightarrow> int \<Rightarrow> ustr) \<Rightarrow> ustr \<Rightarrow> 'c \<Rightarrow> ('e + ustr) \<times> 'c" where
  "view_url cfg C presign key c = (case uc_get C key c of
     (Inl e, c1) \<Rightarrow> (Inl e, c1)
   | (Inr (Some url), c1) \<Rightarrow> (Inr url, c1)
   | (Inr None, c1) \<Rightarrow>
       (let url = presign key (view_expiry cfg)
        in case uc_set C key url (view_cache_ttl cfg) c1 of
             (Inl e, c2) \<Rightarrow> (Inl e, c2)
           | (Inr _, c2) \<Rightarrow> (Inr url, c2)))"

text \<open>The calls of \<open>view_urls\<close> in the order of the keys; \<open>gather\<close> returns them in that order.\<close>

fun view_urls ::
  "media_config \<Rightarrow> ('c, 'e) url_cache \<Rightarrow> (ustr \<Rightarrow> int \<Rightarrow> ustr) \<Rightarrow> ustr list \<Rightarrow> 'c \<Rightarrow> ('e + ustr list) \<times> 'c" where
  "view_urls cfg C presign [] c = (Inr [], c)"
| "view_urls cfg C presign (k # ks) c =
     (let (u, c1) = view_url cfg C presign k c; (us, c2) = view_urls cfg C presign ks c1
      in (case u of Inl e \<Rightarrow> Inl e | Inr x \<Rightarrow> bindE us (\<lambda>xs. Inr (x # xs)), c2))"

subsection \<open>Purging\<close>

definition purge_due :: "time \<Rightarrow> media_row \<Rightarrow> bool" where
  "purge_due now m = (case m_purge m of None \<Rightarrow> False | Some t \<Rightarrow> t \<le> now)"

text \<open>\<open>deletable\<close>: the keys whose deletion the object store does not refuse this time.\<close>

definition purge_expired :: "time \<Rightarrow> (ustr \<Rightarrow> bool) \<Rightarrow> world \<Rightarrow> nat \<times> world" where
  "purge_expired now deletable w =
     (let rows = filter (purge_due now) (media (wdb w)) in
      if rows = [] then (0, w)
      else
        let purged = filter (\<lambda>m. deletable (m_object_key m)) rows;
            w1 = w\<lparr>objs := (\<lambda>k. if k \<in> set (map m_object_key purged) then None else objs w k)\<rparr>;
            ids = map m_id purged
        in if ids = [] then (0, w1)
           else (length (filter (\<lambda>m. m_id m \<in> set ids) (media (wdb w1))), upd_db (delete_media ids) w1))"

subsection \<open>Lemmas\<close>

lemma set_blob_keys [simp]:
  "m_id (set_blob now mime sz m) = m_id m" "m_object_key (set_blob now mime sz m) = m_object_key m"
  "m_deleted (set_blob now mime sz m) = m_deleted m" "m_purge (set_blob now mime sz m) = m_purge m"
  by (simp_all add: set_blob_def)

lemma insert_blob_other [simp]:
  "documents (snd (insert_blob now fresh key i mime sz s)) = documents s"
  "parts (snd (insert_blob now fresh key i mime sz s)) = parts s"
  "executions (snd (insert_blob now fresh key i mime sz s)) = executions s"
  "results (snd (insert_blob now fresh key i mime sz s)) = results s"
  "findings (snd (insert_blob now fresh key i mime sz s)) = findings s"
  "verdicts (snd (insert_blob now fresh key i mime sz s)) = verdicts s"
  by (simp_all add: insert_blob_def split_beta Let_def)

lemma insert_blob_cases:
  obtains (existing) m where "m \<in> set (media s)" "m_object_key m = key"
      "insert_blob now fresh key i mime sz s = (set_blob now mime sz m,
         s\<lparr>media := upd_where (\<lambda>m. m_object_key m = key) (set_blob now mime sz) (media s)\<rparr>)"
  | (new) m where "key \<notin> m_object_key ` set (media s)" "m_id m = (case i of Some j \<Rightarrow> j | None \<Rightarrow> fresh)"
      "m_object_key m = key" "m_deleted m = None" "m_purge m = None" "m_mime m = mime" "m_size m = sz"
      "insert_blob now fresh key i mime sz s = (m, s\<lparr>media := media s @ [m]\<rparr>)"
proof (cases "find (\<lambda>m. m_object_key m = key) (media s)")
  case None
  then have k: "key \<notin> m_object_key ` set (media s)" by (auto simp: find_None_set)
  show ?thesis
    by (rule new [of "blob_new (now, fresh, key, i, mime, sz)"])
      (use k in \<open>simp_all add: insert_blob_def put_blob_def upsert_def blob_key_def blob_new_def None\<close>)
next
  case (Some m)
  show ?thesis
    by (rule existing [of m])
      (use Some find_Some_in [OF Some] in \<open>auto simp: insert_blob_def put_blob_def upsert_def blob_key_def blob_set_def\<close>)
qed

interpretation blob: keyed_upsert m_object_key m_id put_blob blob_key
  "\<lambda>(now, fresh, key, i, mime, sz) m. m_mime m = mime \<and> m_size m = sz"
  by (rule keyed_upsert_upsert [where f = blob_set and new = blob_new])
    (auto simp: put_blob_def blob_set_def blob_new_def blob_key_def set_blob_def)

lemma insert_blob_result: "m_object_key (fst (insert_blob now fresh key i mime sz s)) = key"
  by (rule insert_blob_cases [of s key now fresh i mime sz]) auto

lemma insert_blob_in: "fst (insert_blob now fresh key i mime sz s) \<in> set (media (snd (insert_blob now fresh key i mime sz s)))"
  by (rule insert_blob_cases [of s key now fresh i mime sz]) (auto simp: set_upd_where)

lemma insert_blob_media_ids:
  "media_ids (snd (insert_blob now fresh key i mime sz s)) = insert (m_id (fst (insert_blob now fresh key i mime sz s))) (media_ids s)"
proof (rule insert_blob_cases [of s key now fresh i mime sz])
  fix m
  assume m: "m \<in> set (media s)" "m_object_key m = key" and
    e: "insert_blob now fresh key i mime sz s = (set_blob now mime sz m,
         s\<lparr>media := upd_where (\<lambda>m. m_object_key m = key) (set_blob now mime sz) (media s)\<rparr>)"
  have "m_id ` set (upd_where (\<lambda>m. m_object_key m = key) (set_blob now mime sz) (media s)) = m_id ` set (media s)"
    by (metis map_upd_where set_blob_keys(1) set_map)
  then show ?thesis using m by (auto simp: e media_ids_def)
next
  fix m
  assume "insert_blob now fresh key i mime sz s = (m, s\<lparr>media := media s @ [m]\<rparr>)"
  then show ?thesis by (auto simp: media_ids_def)
qed

text \<open>A blob is created or updated under its key without breaking a constraint.\<close>

lemma db_ok_insert_blob:
  assumes "db_ok s" "(case i of Some j \<Rightarrow> j | None \<Rightarrow> fresh) \<notin> media_ids s"
  shows "db_ok (snd (insert_blob now fresh key i mime sz s))"
proof -
  define t where "t = snd (insert_blob now fresh key i mime sz s)"
  have ids: "media_ids s \<subseteq> media_ids t" by (auto simp: t_def insert_blob_media_ids)
  have same: "documents t = documents s" "parts t = parts s" "executions t = executions s"
    "results t = results s" "findings t = findings s" "verdicts t = verdicts s"
    by (simp_all add: t_def)
  have "distinct (map m_id (media t)) \<and> distinct (map m_object_key (media t))"
    by (rule insert_blob_cases [of s key now fresh i mime sz])
      (use assms in \<open>auto simp: t_def db_ok_def keys_ok_def map_upd_where media_ids_def\<close>)
  then have "keys_ok t" using assms(1) by (simp add: db_ok_def keys_ok_def same)
  moreover have "refs_ok t" using assms(1) refs_ok_mono [OF _ ids same] by (simp add: db_ok_def)
  ultimately show ?thesis by (simp add: db_ok_def t_def)
qed

lemma media_fetch_insert_blob:
  assumes "media_fetch j s = Inr x" "m_object_key x \<noteq> key"
  shows "media_fetch j (snd (insert_blob now fresh key i mime sz s)) = Inr x"
proof -
  have f: "find (\<lambda>m. m_id m = j \<and> m_deleted m = None) (media s) = Some x"
    using assms(1) by (auto simp: media_fetch_def split: option.splits)
  show ?thesis
    by (rule insert_blob_cases [of s key now fresh i mime sz])
      (use f assms(2) in \<open>auto simp: media_fetch_def find_upd_where find_append\<close>)
qed

subsection \<open>Properties\<close>

text \<open>
  Creating a blob is idempotent on its object key.  Serving the upsert twice for one key
  answers the same row id, adds no second row, leaves exactly the type and size of the second
  call under the key, and touches no other blob.
\<close>

theorem insert_blob_idempotent:
  assumes "distinct (map m_object_key (media s))" and "insert_blob now fresh key i mime sz s = (m, s1)"
    and "insert_blob now2 fresh2 key i2 mime2 sz2 s1 = (m2, s2)"
  shows "m_id m2 = m_id m \<and> length (media s2) = length (media s1)
    \<and> find (\<lambda>m. m_object_key m = key) (media s2) = Some m2 \<and> m_mime m2 = mime2 \<and> m_size m2 = sz2
    \<and> filter (\<lambda>m. m_object_key m \<noteq> key) (media s2) = filter (\<lambda>m. m_object_key m \<noteq> key) (media s)"
proof -
  let ?a = "(now, fresh, key, i, mime, sz)" and ?b = "(now2, fresh2, key, i2, mime2, sz2)"
  have 1: "m = fst (put_blob ?a (media s))" "media s1 = snd (put_blob ?a (media s))"
    using assms(2) by (auto simp: insert_blob_def split_beta Let_def)
  have 2: "m2 = fst (put_blob ?b (media s1))" "media s2 = snd (put_blob ?b (media s1))"
    using assms(3) by (auto simp: insert_blob_def split_beta Let_def)
  have k: "blob_key ?a = key" "blob_key ?b = key" by (simp_all add: blob_key_def)
  have d: "distinct (map m_object_key (media s1))" using blob.put_distinct [OF assms(1)] by (simp add: 1)
  have "m_id m2 = m_id m \<and> length (media s2) = length (media s1)"
    using blob.put_again [OF assms(1), of ?b ?a] by (simp add: 1 2 k)
  moreover have "find (\<lambda>m. m_object_key m = key) (media s2) = Some m2"
    using blob.put_lookup [OF d, of ?b] by (simp add: 2 k)
  moreover have "m_mime m2 = mime2 \<and> m_size m2 = sz2"
    using blob.put_row [of ?b "media s1"] by (simp add: 2)
  moreover have "filter (\<lambda>m. m_object_key m \<noteq> key) (media s2) = filter (\<lambda>m. m_object_key m \<noteq> key) (media s)"
    using blob.put_frame [of ?a "media s"] blob.put_frame [of ?b "media s1"] by (simp add: 1 2 k)
  ultimately show ?thesis by blast
qed

theorem insert_blob_idempotent_witness:
  "m_id (fst (insert_blob 2 8 (lit ''k'') None None None (snd (insert_blob 1 7 (lit ''k'') None None (Some 3) empty_db))))
     = m_id (fst (insert_blob 1 7 (lit ''k'') None None (Some 3) empty_db))"
  using insert_blob_idempotent [of empty_db 1 7 "lit ''k''" None None "Some 3"
      "fst (insert_blob 1 7 (lit ''k'') None None (Some 3) empty_db)"
      "snd (insert_blob 1 7 (lit ''k'') None None (Some 3) empty_db)" 2 8 None None None
      "fst (insert_blob 2 8 (lit ''k'') None None None (snd (insert_blob 1 7 (lit ''k'') None None (Some 3) empty_db)))"
      "snd (insert_blob 2 8 (lit ''k'') None None None (snd (insert_blob 1 7 (lit ''k'') None None (Some 3) empty_db)))"]
  by (simp add: empty_db_def)

text \<open>
  C14.  The purge sweep deletes objects first and never orphans one.  Afterwards a row that was
  not due is still there and its object untouched; a due row whose object the store refused to
  delete is still there with its object; a due row whose object was deleted is gone; the count
  reported is the number of rows gone; and every database constraint holds, cascades included.
\<close>

theorem purge_expired_safe:
  assumes "db_ok (wdb w)" and "purge_expired now deletable w = (n, w')" and "m \<in> set (media (wdb w))"
  shows "(\<not> purge_due now m \<longrightarrow> m \<in> set (media (wdb w')) \<and> objs w' (m_object_key m) = objs w (m_object_key m))
    \<and> (purge_due now m \<and> \<not> deletable (m_object_key m) \<longrightarrow>
         m \<in> set (media (wdb w')) \<and> objs w' (m_object_key m) = objs w (m_object_key m))
    \<and> (purge_due now m \<and> deletable (m_object_key m) \<longrightarrow>
         m \<notin> set (media (wdb w')) \<and> objs w' (m_object_key m) = None)
    \<and> n = length (media (wdb w)) - length (media (wdb w'))
    \<and> db_ok (wdb w')"
proof -
  define gone where "gone = (\<lambda>m. purge_due now m \<and> deletable (m_object_key m))"
  define ids where "ids = map m_id (filter gone (media (wdb w)))"
  have dist: "distinct (map m_id (media (wdb w)))" "distinct (map m_object_key (media (wdb w)))"
    using assms(1) by (auto simp: db_ok_def keys_ok_def)
  have inj: "m_id x \<in> set ids \<longleftrightarrow> gone x" "m_object_key x \<in> m_object_key ` set (filter gone (media (wdb w))) \<longleftrightarrow> gone x"
    if "x \<in> set (media (wdb w))" for x
    using dist that by (auto simp: ids_def distinct_map inj_on_def)
  have purged: "filter (\<lambda>m. deletable (m_object_key m)) (filter (purge_due now) (media (wdb w))) = filter gone (media (wdb w))"
    by (simp add: gone_def conj_commute)
  have len: "length (filter (\<lambda>m. m_id m \<in> set ids) (media (wdb w))) = length (filter gone (media (wdb w)))"
    using inj(1) by (metis (mono_tags, lifting) filter_cong)
  define w1 where "w1 = w\<lparr>objs := (\<lambda>k. if k \<in> set (map m_object_key (filter gone (media (wdb w)))) then None else objs w k)\<rparr>"
  have eq: "purge_expired now deletable w =
    (if filter (purge_due now) (media (wdb w)) = [] then (0, w)
     else if ids = [] then (0, w1)
     else (length (filter (\<lambda>m. m_id m \<in> set ids) (media (wdb w1))), upd_db (delete_media ids) w1))"
    by (simp only: purge_expired_def Let_def purged w1_def ids_def)
  have "n = length (filter gone (media (wdb w)))
    \<and> media (wdb w') = filter (\<lambda>m. m_id m \<notin> set ids) (media (wdb w))
    \<and> (\<forall>k. objs w' k = (if k \<in> m_object_key ` set (filter gone (media (wdb w))) then None else objs w k))
    \<and> (wdb w' = delete_media ids (wdb w) \<or> wdb w' = wdb w)"
  proof (cases "filter gone (media (wdb w)) = []")
    case True
    have "w' = w \<or> w' = w1" "n = 0" using assms(2) True unfolding eq by (auto simp: ids_def split: if_splits)
    moreover have "ids = []" "filter (\<lambda>m. m_id m \<notin> set ids) (media (wdb w)) = media (wdb w)"
      using True by (simp_all add: ids_def)
    ultimately show ?thesis using True by (auto simp: w1_def)
  next
    case False
    then have "filter (purge_due now) (media (wdb w)) \<noteq> []" "ids \<noteq> []"
      using purged by (fastforce, simp add: ids_def)
    then have "w' = upd_db (delete_media ids) w1" "n = length (filter gone (media (wdb w)))"
      using assms(2) len unfolding eq by (auto simp: w1_def)
    then show ?thesis by (simp add: w1_def upd_db_def delete_media_def Let_def)
  qed
  moreover have "length (filter (\<lambda>m. m_id m \<notin> set ids) (media (wdb w))) + length (filter gone (media (wdb w))) = length (media (wdb w))"
    using len sum_length_filter_compl [of "\<lambda>m. m_id m \<in> set ids" "media (wdb w)"] by simp
  ultimately show ?thesis
    using inj [OF assms(3)] assms(1,3) db_ok_delete_media by (auto simp: gone_def)
qed

definition demo_media :: "nat \<Rightarrow> media_row" where
  "demo_media n = \<lparr>m_id = n, m_object_key = [n], m_mime = None, m_size = None, m_deleted = Some 0, m_purge = Some 5,
     m_created = 0, m_updated = 0\<rparr>"

theorem purge_expired_safe_witness:
  "media (wdb (snd (purge_expired 9 (\<lambda>k. k = [1])
     \<lparr>wdb = empty_db\<lparr>media := [demo_media 1, demo_media 2]\<rparr>, objs = \<lambda>_. Some []\<rparr>))) \<noteq> []"
proof -
  define w where "w = \<lparr>wdb = empty_db\<lparr>media := [demo_media 1, demo_media 2]\<rparr>, objs = (\<lambda>_. Some [] :: byte list option)\<rparr>"
  have "db_ok (wdb w)" by (simp add: w_def empty_db_def db_ok_def keys_ok_def ref_defs demo_media_def)
  then have "demo_media 2 \<in> set (media (wdb (snd (purge_expired 9 (\<lambda>k. k = [1]) w))))"
    using purge_expired_safe [of w 9 "\<lambda>k. k = [1]" "fst (purge_expired 9 (\<lambda>k. k = [1]) w)"
        "snd (purge_expired 9 (\<lambda>k. k = [1]) w)" "demo_media 2"]
    by (simp add: w_def empty_db_def demo_media_def purge_due_def)
  then show ?thesis unfolding w_def by (metis empty_iff empty_set)
qed

text \<open>
  A thumbnail is rendered once.  When \<open>ensure_thumb\<close> has answered a live row, calling it
  again for the same source answers the same row, never calls the renderer (which may then do
  anything) and changes neither the database nor the object store.
\<close>

theorem ensure_thumb_once:
  assumes "ensure_thumb now fresh src render w = (Inr m, w')" and "m_deleted m = None"
    and "distinct (map m_object_key (media (wdb w)))"
  shows "ensure_thumb now2 fresh2 src render2 w' = (Inr m, w')"
proof -
  obtain x where x: "media_fetch src (wdb w) = Inr x"
    using assms(1) by (cases "media_fetch src (wdb w)") (auto simp: ensure_thumb_def)
  define key where "key = thumb_key (m_object_key x)"
  show ?thesis
  proof (cases "find (\<lambda>m. m_object_key m = key \<and> m_deleted m = None) (media (wdb w))")
    case (Some y)
    then show ?thesis using assms(1) x by (simp add: ensure_thumb_def key_def [symmetric])
  next
    case None
    then obtain data mime where r: "render () = Some (data, mime)"
      using assms(1) x by (auto simp: ensure_thumb_def key_def [symmetric] split: option.splits)
    define a where "a = (now, fresh, key, None :: uuid option, mime, Some (length data))"
    have m: "m = fst (put_blob a (media (wdb w)))" "media (wdb w') = snd (put_blob a (media (wdb w)))"
      using assms(1) x None r
      by (auto simp: ensure_thumb_def key_def [symmetric] insert_blob_def a_def split_beta Let_def upload_object_def)
    have ka: "blob_key a = key" by (simp add: a_def blob_key_def)
    have "m \<in> set (media (wdb w'))" "m_object_key m = key" using blob.put_row [of a "media (wdb w)"] by (simp_all add: m ka)
    moreover have "distinct (map m_object_key (media (wdb w')))" using blob.put_distinct [OF assms(3)] by (simp add: m)
    ultimately have "find (\<lambda>z. m_object_key z = key \<and> m_deleted z = None) (media (wdb w')) = Some m"
      using find_unique_where [of m_object_key "media (wdb w')" m "\<lambda>z. m_deleted z = None"] assms(2) by simp
    moreover have "media_fetch src (wdb w') = Inr x"
    proof -
      have "m_object_key x \<noteq> key" by (simp add: key_def thumb_key_def lit_def)
      then have "media_fetch src (snd (insert_blob now fresh key None mime (Some (length data)) (wdb w))) = Inr x"
        by (rule media_fetch_insert_blob [OF x])
      then show ?thesis
        using assms(1) x None r by (auto simp: ensure_thumb_def key_def [symmetric] split_beta Let_def upload_object_def)
    qed
    ultimately show ?thesis by (simp add: ensure_thumb_def key_def [symmetric])
  qed
qed

theorem ensure_thumb_once_witness:
  "ensure_thumb 5 9 1 (\<lambda>_. None) (snd (ensure_thumb 4 7 1 (\<lambda>_. Some ([], None))
     \<lparr>wdb = empty_db\<lparr>media := [(demo_media 1)\<lparr>m_deleted := None\<rparr>]\<rparr>, objs = \<lambda>_. None\<rparr>))
   = ensure_thumb 4 7 1 (\<lambda>_. Some ([], None))
     \<lparr>wdb = empty_db\<lparr>media := [(demo_media 1)\<lparr>m_deleted := None\<rparr>]\<rparr>, objs = \<lambda>_. None\<rparr>"
proof -
  define w where "w = \<lparr>wdb = empty_db\<lparr>media := [(demo_media 1)\<lparr>m_deleted := None\<rparr>]\<rparr>, objs = (\<lambda>_. None :: byte list option)\<rparr>"
  define m where "m = blob_new (4, 7, thumb_key [1], None, None, Some 0)"
  have "fst (ensure_thumb 4 7 1 (\<lambda>_. Some ([], None)) w) = Inr m"
    by (simp add: ensure_thumb_def media_fetch_def w_def demo_media_def insert_blob_def put_blob_def upsert_def
        blob_key_def m_def upload_object_def empty_db_def thumb_key_def lit_def Let_def)
  then have "ensure_thumb 4 7 1 (\<lambda>_. Some ([], None)) w = (Inr m, snd (ensure_thumb 4 7 1 (\<lambda>_. Some ([], None)) w))"
    by (metis prod.collapse)
  moreover have "m_deleted m = None" by (simp add: m_def blob_new_def)
  moreover have "distinct (map m_object_key (media (wdb w)))" by (simp add: w_def empty_db_def)
  ultimately have "ensure_thumb 5 9 1 (\<lambda>_. None) (snd (ensure_thumb 4 7 1 (\<lambda>_. Some ([], None)) w))
      = (Inr m, snd (ensure_thumb 4 7 1 (\<lambda>_. Some ([], None)) w))"
    by (rule ensure_thumb_once)
  then show ?thesis using \<open>ensure_thumb 4 7 1 (\<lambda>_. Some ([], None)) w = _\<close> by (simp add: w_def)
qed

end
