(* ===== verification/Documents.thy ===== *)
theory Documents
  imports Media "HOL-Library.List_Lexorder"
begin

section \<open>The documents service\<close>

text \<open>
  \<open>doci/documents/service.py\<close>, \<open>models.py\<close>, \<open>router.py\<close> and
  \<open>activities/finalize_document.py\<close>.  Every statement or transaction is a definition of its
  own (\<open>tx_...\<close>); a service method composes them, and \<open>race\<close> is whatever other runs do to
  the world between two of them.  \<open>body\<close> is what the object store streams for a key.
\<close>

subsection \<open>Locators and records\<close>

definition page_locator :: "nat \<Rightarrow> ustr" where
  "page_locator n = 112 # (let d = show_nat n in replicate (5 - length d) 48 @ d)"

definition doc_prefix :: "uuid \<Rightarrow> ustr" where
  "doc_prefix i = lit ''doc/'' @ uuid_str i @ lit ''/''"

definition doc_key :: "uuid \<Rightarrow> ustr \<Rightarrow> ustr" where
  "doc_key i loc = doc_prefix i @ loc"

text \<open>A document row with the columns joined from its original blob.\<close>

record document_rec =
  dr_row :: document_row
  dr_object_key :: ustr
  dr_mime :: "ustr option"
  dr_size :: "nat option"

record upload_intent =
  ui_id :: uuid
  ui_url :: ustr

datatype doc_error = DocumentNotFound | AlreadyFinalized | BadUpload media_error | StorageFailed

definition doc_join :: "db \<Rightarrow> document_row \<Rightarrow> document_rec option" where
  "doc_join s d = map_option (\<lambda>m. \<lparr>dr_row = d, dr_object_key = m_object_key m, dr_mime = m_mime m, dr_size = m_size m\<rparr>)
     (find (\<lambda>m. m_id m = d_media_id d) (media s))"

definition doc_fetch :: "bool \<Rightarrow> uuid \<Rightarrow> db \<Rightarrow> doc_error + document_rec" where
  "doc_fetch include_deleted i s =
     (case find (\<lambda>d. d_id d = i \<and> (include_deleted \<or> d_deleted d = None)) (documents s) of
        None \<Rightarrow> Inl DocumentNotFound
      | Some d \<Rightarrow> (case doc_join s d of None \<Rightarrow> Inl DocumentNotFound | Some r \<Rightarrow> Inr r))"

definition doc_get :: "uuid \<Rightarrow> db \<Rightarrow> doc_error + document_rec" where
  "doc_get i s = doc_fetch False i s"

subsection \<open>Statements and transactions\<close>

definition tx_request :: "time \<Rightarrow> uuid \<Rightarrow> uuid \<Rightarrow> ustr option \<Rightarrow> db \<Rightarrow> db" where
  "tx_request now doc fresh name s =
     (let (m, s1) = insert_blob now fresh (doc_key doc (lit ''original'')) None None None s in
      s1\<lparr>documents := documents s1 @ [\<lparr>d_id = doc, d_media_id = m_id m, d_name = name, d_status = DocNew,
        d_page_count = None, d_deleted = None, d_purge = None, d_created = now, d_updated = now\<rparr>]\<rparr>)"

definition tx_set_status :: "time \<Rightarrow> uuid \<Rightarrow> document_status \<Rightarrow> db \<Rightarrow> db" where
  "tx_set_status now i st s =
     s\<lparr>documents := upd_where (\<lambda>d. d_id d = i) (\<lambda>d. d\<lparr>d_status := st, d_updated := now\<rparr>) (documents s)\<rparr>"

definition tx_finalize :: "time \<Rightarrow> uuid \<Rightarrow> uuid \<Rightarrow> ustr \<Rightarrow> nat \<Rightarrow> db \<Rightarrow> db" where
  "tx_finalize now i media_id mime sz s =
     tx_set_status now i DocReady
       (s\<lparr>media := upd_where (\<lambda>m. m_id m = media_id) (set_blob now (Some mime) (Some sz)) (media s)\<rparr>)"

text \<open>\<open>INSERT ... ON CONFLICT (document_id, locator) DO NOTHING RETURNING\<close>.\<close>

definition insert_part :: "part_row \<Rightarrow> db \<Rightarrow> part_row option \<times> db" where
  "insert_part p s =
     (if \<exists>q \<in> set (parts s). p_document_id q = p_document_id p \<and> p_locator q = p_locator p then (None, s)
      else (Some p, s\<lparr>parts := parts s @ [p]\<rparr>))"

definition new_part :: "time \<Rightarrow> uuid \<Rightarrow> uuid \<Rightarrow> ustr \<Rightarrow> part_kind \<Rightarrow> int option \<Rightarrow> uuid \<Rightarrow> part_row" where
  "new_part now fresh doc loc kind page media_id =
     \<lparr>p_id = fresh, p_document_id = doc, p_locator = loc, p_kind = kind, p_page_number = page,
      p_media_id = Some media_id, p_thumb = None, p_created = now, p_updated = now\<rparr>"

definition tx_part ::
  "time \<Rightarrow> uuid \<times> uuid \<Rightarrow> uuid \<Rightarrow> ustr \<Rightarrow> part_kind \<Rightarrow> int option \<Rightarrow> ustr option \<Rightarrow> nat \<Rightarrow> db \<Rightarrow> part_row option \<times> db" where
  "tx_part now fresh doc loc kind page mime sz s =
     (let (m, s1) = insert_blob now (fst fresh) (doc_key doc loc) None mime (Some sz) s
      in insert_part (new_part now (snd fresh) doc loc kind page (m_id m)) s1)"

definition tx_part_thumb :: "time \<Rightarrow> uuid \<Rightarrow> uuid \<Rightarrow> db \<Rightarrow> db" where
  "tx_part_thumb now part thumb s =
     s\<lparr>parts := upd_where (\<lambda>p. p_id p = part \<and> p_thumb p = None) (\<lambda>p. p\<lparr>p_thumb := Some thumb, p_updated := now\<rparr>) (parts s)\<rparr>"

definition tx_page_count :: "time \<Rightarrow> uuid \<Rightarrow> int \<Rightarrow> db \<Rightarrow> db" where
  "tx_page_count now i n s =
     s\<lparr>documents := upd_where (\<lambda>d. d_id d = i) (\<lambda>d. d\<lparr>d_page_count := Some n, d_updated := now\<rparr>) (documents s)\<rparr>"

text \<open>The blobs of the live documents among \<open>ids\<close>: originals, parts and thumbnails.\<close>

definition blobs_of :: "uuid list \<Rightarrow> db \<Rightarrow> uuid list" where
  "blobs_of ids s =
     (let docs = filter (\<lambda>d. d_id d \<in> set ids \<and> d_deleted d = None) (documents s);
          ps = filter (\<lambda>p. p_document_id p \<in> set (map d_id docs)) (parts s)
      in map d_media_id docs @ List.map_filter p_media_id ps @ List.map_filter p_thumb ps)"

definition tx_delete :: "time \<Rightarrow> int \<Rightarrow> uuid list \<Rightarrow> db \<Rightarrow> nat \<times> db" where
  "tx_delete now window ids s =
     (let until = now + window * 1000000;
          blobs = blobs_of ids s;
          hit = (\<lambda>d. d_id d \<in> set ids \<and> d_deleted d = None)
      in (length (filter hit (documents s)),
          s\<lparr>media := upd_where (\<lambda>m. m_id m \<in> set blobs \<and> m_deleted m = None)
                       (\<lambda>m. m\<lparr>m_deleted := Some now, m_purge := Some until, m_updated := now\<rparr>) (media s),
            documents := upd_where hit
                       (\<lambda>d. d\<lparr>d_deleted := Some now, d_purge := Some until, d_updated := now\<rparr>) (documents s)\<rparr>))"

subsection \<open>Upload and validation\<close>

definition mime_str :: "mime \<Rightarrow> ustr" where
  "mime_str m = lit (case m of
      Pdf \<Rightarrow> ''application/pdf'' | Png \<Rightarrow> ''image/png'' | Jpeg \<Rightarrow> ''image/jpeg'' | Gif \<Rightarrow> ''image/gif''
    | Webp \<Rightarrow> ''image/webp'' | Bmp \<Rightarrow> ''image/bmp'' | Tiff \<Rightarrow> ''image/tiff''
    | Docx \<Rightarrow> ''application/vnd.openxmlformats-officedocument.wordprocessingml.document''
    | Xlsx \<Rightarrow> ''application/vnd.openxmlformats-officedocument.spreadsheetml.sheet''
    | Pptx \<Rightarrow> ''application/vnd.openxmlformats-officedocument.presentationml.presentation''
    | Txt \<Rightarrow> ''text/plain'' | Markdown \<Rightarrow> ''text/markdown'' | Csv \<Rightarrow> ''text/csv'')"

definition request_upload ::
  "media_config \<Rightarrow> (ustr \<Rightarrow> int \<Rightarrow> ustr) \<Rightarrow> time \<Rightarrow> uuid \<Rightarrow> uuid \<Rightarrow> ustr option \<Rightarrow> db \<Rightarrow> upload_intent \<times> db" where
  "request_upload cfg presign_put now doc fresh name s =
     (\<lparr>ui_id = doc, ui_url = presign_put (doc_key doc (lit ''original'')) (upload_expiry cfg)\<rparr>,
      tx_request now doc fresh name s)"

definition finalize ::
  "unicode \<Rightarrow> (byte list \<Rightarrow> ustr list option) \<Rightarrow> media_config \<Rightarrow> (ustr \<Rightarrow> object_stream) \<Rightarrow> time \<Rightarrow> uuid \<Rightarrow> db
   \<Rightarrow> (doc_error + document_rec) \<times> db" where
  "finalize U namelist cfg body now i s =
     (case doc_fetch False i s of
        Inl e \<Rightarrow> (Inl e, s)
      | Inr doc \<Rightarrow>
          if d_status (dr_row doc) \<noteq> DocNew then (Inl AlreadyFinalized, s)
          else (case validate_stream U namelist (nat (max_size cfg)) (body (dr_object_key doc)) (d_name (dr_row doc)) of
             None \<Rightarrow> (Inl StorageFailed, s)
           | Some (Inl e) \<Rightarrow> (Inl (BadUpload e), tx_set_status now i DocInvalid s)
           | Some (Inr (m, sz)) \<Rightarrow>
               (let s1 = tx_finalize now i (d_media_id (dr_row doc)) (mime_str m) sz s in (doc_fetch True i s1, s1))))"

text \<open>\<open>FinalizeDocument\<close>: a document that is already finalized is fetched instead.\<close>

definition finalize_document ::
  "unicode \<Rightarrow> (byte list \<Rightarrow> ustr list option) \<Rightarrow> media_config \<Rightarrow> (ustr \<Rightarrow> object_stream) \<Rightarrow> time \<Rightarrow> uuid \<Rightarrow> db
   \<Rightarrow> (doc_error + document_rec) \<times> db" where
  "finalize_document U namelist cfg body now i s =
     (case finalize U namelist cfg body now i s of
        (Inl AlreadyFinalized, s1) \<Rightarrow> (doc_get i s1, s1)
      | r \<Rightarrow> r)"

subsection \<open>Parts\<close>

definition part_by_locator :: "uuid \<Rightarrow> ustr \<Rightarrow> db \<Rightarrow> part_row option" where
  "part_by_locator doc loc s = find (\<lambda>p. p_document_id p = doc \<and> p_locator p = loc) (parts s)"

text \<open>\<open>PartOrphan\<close> is the foreign-key violation of a document that does not exist.\<close>

datatype part_error = PartRender | PartOrphan | PartDocument doc_error

definition create_part ::
  "time \<Rightarrow> uuid \<times> uuid \<Rightarrow> uuid \<Rightarrow> ustr \<Rightarrow> part_kind \<Rightarrow> (unit \<Rightarrow> (byte list \<times> ustr option) option) \<Rightarrow> int option
   \<Rightarrow> (world \<Rightarrow> world) \<Rightarrow> world \<Rightarrow> (part_error + part_row) \<times> world" where
  "create_part now fresh doc loc kind render page race w =
     (case render () of
        None \<Rightarrow> (Inl PartRender, w)
      | Some (data, mime) \<Rightarrow>
          (let w1 = race (upload_object (doc_key doc loc) data w) in
           if doc \<notin> document_ids (wdb w1) then (Inl PartOrphan, w1)
           else
             let (row, s) = tx_part now fresh doc loc kind page mime (length data) (wdb w1);
                 row' = (case row of Some p \<Rightarrow> Some p | None \<Rightarrow> part_by_locator doc loc s)
             in (case row' of Some p \<Rightarrow> (Inr p, w1\<lparr>wdb := s\<rparr>) | None \<Rightarrow> (Inl PartOrphan, w1\<lparr>wdb := s\<rparr>))))"

definition ensure_part ::
  "time \<Rightarrow> uuid \<times> uuid \<Rightarrow> uuid \<Rightarrow> ustr \<Rightarrow> part_kind \<Rightarrow> (unit \<Rightarrow> (byte list \<times> ustr option) option) \<Rightarrow> int option
   \<Rightarrow> (world \<Rightarrow> world) \<Rightarrow> world \<Rightarrow> (part_error + part_row) \<times> world" where
  "ensure_part now fresh doc loc kind render page race w =
     (case part_by_locator doc loc (wdb w) of
        Some p \<Rightarrow> if p_media_id p \<noteq> None then (Inr p, w) else create_part now fresh doc loc kind render page race w
      | None \<Rightarrow> create_part now fresh doc loc kind render page race w)"

definition ensure_source_part ::
  "time \<Rightarrow> uuid \<Rightarrow> uuid \<Rightarrow> part_kind \<Rightarrow> (db \<Rightarrow> db) \<Rightarrow> db \<Rightarrow> (part_error + part_row) \<times> db" where
  "ensure_source_part now fresh doc kind race s =
     (let loc = page_locator 1 in
      case part_by_locator doc loc s of
        Some p \<Rightarrow> (Inr p, s)
      | None \<Rightarrow>
          (case doc_fetch False doc s of
             Inl e \<Rightarrow> (Inl (PartDocument e), s)
           | Inr d \<Rightarrow>
               (let s1 = race s in
                if doc \<notin> document_ids s1 then (Inl PartOrphan, s1)
                else
                  let (row, s2) = insert_part (new_part now fresh doc loc kind (Some 1) (d_media_id (dr_row d))) s1;
                      row' = (case row of Some p \<Rightarrow> Some p | None \<Rightarrow> part_by_locator doc loc s2)
                  in (case row' of Some p \<Rightarrow> (Inr p, s2) | None \<Rightarrow> (Inl PartOrphan, s2)))))"

subsection \<open>Reads\<close>

definition list_docs :: "media_config \<Rightarrow> int option \<Rightarrow> int \<Rightarrow> db \<Rightarrow> document_rec page" where
  "list_docs cfg limit off s =
     (let l = (case limit of None \<Rightarrow> page_size cfg | Some n \<Rightarrow> if n = 0 then page_size cfg else n);
          per = nat (max 1 (min l (max_page_size cfg)))
      in page_of (sort_key (\<lambda>r. (- d_created (dr_row r), d_id (dr_row r)))
           (List.map_filter (doc_join s) (filter (\<lambda>d. d_deleted d = None) (documents s)))) per (nat (max 0 off)))"

text \<open>\<open>ORDER BY page_number NULLS LAST, locator\<close>.\<close>

definition part_order :: "part_row \<Rightarrow> nat \<times> int \<times> ustr" where
  "part_order p = (case p_page_number p of Some n \<Rightarrow> (0, n, p_locator p) | None \<Rightarrow> (1, 0, p_locator p))"

definition parts_of :: "uuid \<Rightarrow> db \<Rightarrow> part_row list" where
  "parts_of doc s = sort_key part_order (filter (\<lambda>p. p_document_id p = doc) (parts s))"

text \<open>A view: the head blob with its URL, and the children; \<open>None\<close> is the \<open>IndexError\<close> of \<open>views[0]\<close>.\<close>

record media_view =
  mv_media :: media_row
  mv_url :: ustr
  mv_children :: "(media_row \<times> ustr) list"

definition view_of :: "(ustr \<Rightarrow> ustr) \<Rightarrow> media_row list \<Rightarrow> media_view option" where
  "view_of url rs = (case map (\<lambda>m. (m, url (m_object_key m))) rs of
     [] \<Rightarrow> None
   | (m, u) # vs \<Rightarrow> Some \<lparr>mv_media = m, mv_url = u, mv_children = vs\<rparr>)"

datatype view_error = ViewDocument doc_error | NoThumbnail | ViewIndex

definition get_view :: "(ustr \<Rightarrow> ustr) \<Rightarrow> uuid \<Rightarrow> db \<Rightarrow> view_error + media_view" where
  "get_view url i s =
     (case doc_fetch False i s of
        Inl e \<Rightarrow> Inl (ViewDocument e)
      | Inr d \<Rightarrow>
          (let original = d_media_id (dr_row d);
               page_ids = filter (\<lambda>m. m \<noteq> original) (List.map_filter p_media_id (parts_of i s));
               media_ids = original # page_ids;
               by_id = media_get_many media_ids s;
               records = List.map_filter (map_of by_id) media_ids
           in (case view_of url records of None \<Rightarrow> Inl ViewIndex | Some v \<Rightarrow> Inr v)))"

definition get_view_thumb :: "(ustr \<Rightarrow> ustr) \<Rightarrow> uuid \<Rightarrow> db \<Rightarrow> view_error + media_view" where
  "get_view_thumb url i s =
     (let thumb_ids = List.map_filter p_thumb (parts_of i s);
          by_id = media_get_many thumb_ids s;
          records = List.map_filter (map_of by_id) thumb_ids
      in if records = [] then Inl NoThumbnail
         else (case view_of url records of None \<Rightarrow> Inl ViewIndex | Some v \<Rightarrow> Inr v))"

subsection \<open>Deletion\<close>

definition delete_documents :: "media_config \<Rightarrow> time \<Rightarrow> uuid list \<Rightarrow> db \<Rightarrow> nat \<times> db" where
  "delete_documents cfg now ids s = (if ids = [] then (0, s) else tx_delete now (purge_after cfg) ids s)"

definition soft_delete_invalid :: "media_config \<Rightarrow> time \<Rightarrow> db \<Rightarrow> nat \<times> db" where
  "soft_delete_invalid cfg now s =
     (let ids = map d_id (filter (\<lambda>d. d_status d = DocInvalid \<and> d_deleted d = None) (documents s)) in
      if ids = [] then (0, s) else delete_documents cfg now ids s)"

subsection \<open>Router\<close>

fun doc_error_code :: "doc_error \<Rightarrow> nat" where
  "doc_error_code DocumentNotFound = 404"
| "doc_error_code AlreadyFinalized = 409"
| "doc_error_code (BadUpload UnsupportedType) = 415"
| "doc_error_code (BadUpload TooLarge) = 413"
| "doc_error_code (BadUpload MediaNotFound) = 500"
| "doc_error_code StorageFailed = 500"

fun view_error_code :: "view_error \<Rightarrow> nat" where
  "view_error_code (ViewDocument e) = doc_error_code e"
| "view_error_code NoThumbnail = 404"
| "view_error_code ViewIndex = 500"

definition post_documents ::
  "media_config \<Rightarrow> (ustr \<Rightarrow> int \<Rightarrow> ustr) \<Rightarrow> time \<Rightarrow> uuid \<Rightarrow> uuid \<Rightarrow> ustr option option \<Rightarrow> db \<Rightarrow> upload_intent http \<times> db" where
  "post_documents cfg presign_put now doc fresh body s =
     (let (r, s1) = request_upload cfg presign_put now doc fresh (case body of None \<Rightarrow> None | Some n \<Rightarrow> n) s
      in (Response 201 r, s1))"

definition get_documents :: "media_config \<Rightarrow> int option \<Rightarrow> int \<Rightarrow> db \<Rightarrow> document_rec page http" where
  "get_documents cfg limit off s = Response 200 (list_docs cfg limit off s)"

definition post_finalize ::
  "unicode \<Rightarrow> (byte list \<Rightarrow> ustr list option) \<Rightarrow> media_config \<Rightarrow> (ustr \<Rightarrow> object_stream) \<Rightarrow> time \<Rightarrow> uuid \<Rightarrow> db
   \<Rightarrow> document_rec http \<times> db" where
  "post_finalize U namelist cfg body now i s =
     (case finalize U namelist cfg body now i s of
        (Inl e, s1) \<Rightarrow> (HttpError (doc_error_code e), s1)
      | (Inr r, s1) \<Rightarrow> (Response 200 r, s1))"

definition get_document_view :: "(ustr \<Rightarrow> ustr) \<Rightarrow> uuid \<Rightarrow> db \<Rightarrow> media_view http" where
  "get_document_view url i s = (case get_view url i s of Inl e \<Rightarrow> HttpError (view_error_code e) | Inr v \<Rightarrow> Response 200 v)"

definition get_document_view_thumb :: "(ustr \<Rightarrow> ustr) \<Rightarrow> uuid \<Rightarrow> db \<Rightarrow> media_view http" where
  "get_document_view_thumb url i s =
     (case get_view_thumb url i s of Inl e \<Rightarrow> HttpError (view_error_code e) | Inr v \<Rightarrow> Response 200 v)"

definition delete_one :: "media_config \<Rightarrow> time \<Rightarrow> uuid \<Rightarrow> db \<Rightarrow> nat http \<times> db" where
  "delete_one cfg now i s = (let (n, s1) = delete_documents cfg now [i] s in (Response 200 n, s1))"

definition delete_many :: "media_config \<Rightarrow> time \<Rightarrow> uuid list \<Rightarrow> db \<Rightarrow> nat http \<times> db" where
  "delete_many cfg now ids s = (let (n, s1) = delete_documents cfg now ids s in (Response 200 n, s1))"

subsection \<open>Which blobs a document owns\<close>

text \<open>
  The invariant is stated on four sets: which document refers to which blob, the blobs with
  their keys, the keys of deleted blobs and the live documents.
\<close>

definition blob_refs :: "db \<Rightarrow> (uuid \<times> uuid) set" where
  "blob_refs s = (\<lambda>d. (d_id d, d_media_id d)) ` set (documents s)
     \<union> (\<Union>p \<in> set (parts s). Pair (p_document_id p) ` (set_option (p_media_id p) \<union> set_option (p_thumb p)))"

definition blob_keys :: "db \<Rightarrow> (uuid \<times> ustr) set" where
  "blob_keys s = (\<lambda>m. (m_id m, m_object_key m)) ` set (media s)"

definition dead_keys :: "db \<Rightarrow> ustr set" where
  "dead_keys s = m_object_key ` set (filter (\<lambda>m. m_deleted m \<noteq> None) (media s))"

definition live_docs :: "db \<Rightarrow> uuid set" where
  "live_docs s = d_id ` set (filter (\<lambda>d. d_deleted d = None) (documents s))"

definition owned :: "db \<Rightarrow> bool" where
  "owned s \<longleftrightarrow> (\<forall>i x k. (i, x) \<in> blob_refs s \<longrightarrow> (x, k) \<in> blob_keys s \<longrightarrow> starts_with (doc_prefix i) k)"

definition dead_ok :: "db \<Rightarrow> bool" where
  "dead_ok s \<longleftrightarrow> (\<forall>k \<in> dead_keys s. \<forall>i \<in> live_docs s. \<not> starts_with (doc_prefix i) k)"

definition docs_ok :: "db \<Rightarrow> bool" where
  "docs_ok s \<longleftrightarrow> db_ok s \<and> owned s \<and> dead_ok s \<and> (\<forall>i \<in> document_ids s. uuid_ok i)"

lemma doc_prefix_inject:
  assumes "uuid_ok i" "uuid_ok j" "starts_with (doc_prefix i) k" "starts_with (doc_prefix j) k"
  shows "i = j"
proof -
  obtain a where a: "k = doc_prefix i @ a" using assms(3) by (auto simp: starts_with_iff)
  obtain b where b: "k = doc_prefix j @ b" using assms(4) by (auto simp: starts_with_iff)
  from a b have "doc_prefix i @ a = doc_prefix j @ b" by simp
  then have "uuid_str i = uuid_str j"
    by (simp add: doc_prefix_def append_eq_append_conv)
  with assms(1,2) show ?thesis by (rule uuid_str_inject)
qed

lemma doc_key_prefix [simp]: "starts_with (doc_prefix i) (doc_key i loc)"
  by (simp add: doc_key_def)

lemma starts_with_extend: "starts_with p k \<Longrightarrow> starts_with p (k @ t)"
  by (auto simp: starts_with_iff)

lemma refs_in_media: "\<lbrakk>db_ok s; (i, x) \<in> blob_refs s\<rbrakk> \<Longrightarrow> x \<in> media_ids s"
  by (auto simp: db_ok_def refs_ok_def document_refs_def part_refs_def blob_refs_def subset_iff)

lemma refs_in_documents: "\<lbrakk>db_ok s; (i, x) \<in> blob_refs s\<rbrakk> \<Longrightarrow> i \<in> document_ids s"
  by (auto simp: db_ok_def refs_ok_def part_refs_def blob_refs_def document_ids_def)

lemma blob_key_unique: "\<lbrakk>db_ok s; (x, k) \<in> blob_keys s; (x, l) \<in> blob_keys s\<rbrakk> \<Longrightarrow> k = l"
  by (auto simp: db_ok_def keys_ok_def blob_keys_def distinct_map dest: inj_onD)

lemma blob_keys_media_ids: "(x, k) \<in> blob_keys s \<Longrightarrow> x \<in> media_ids s"
  by (auto simp: blob_keys_def media_ids_def)

text \<open>\<open>insert_blob\<close> on these sets.\<close>

lemma insert_blob_sets:
  assumes "insert_blob now fresh key i mime sz s = (m, t)"
  shows "blob_refs t = blob_refs s" "live_docs t = live_docs s" "document_ids t = document_ids s"
    "part_ids t = part_ids s" "dead_keys t = dead_keys s"
    "blob_keys t = insert (m_id m, key) (blob_keys s)"
    "(m_id m, key) \<in> blob_keys s \<or> m_id m = (case i of Some j \<Rightarrow> j | None \<Rightarrow> fresh) \<and> key \<notin> snd ` blob_keys s"
proof -
  have t: "t = snd (insert_blob now fresh key i mime sz s)" "m = fst (insert_blob now fresh key i mime sz s)"
    by (simp_all add: assms)
  show "blob_refs t = blob_refs s" "live_docs t = live_docs s" "document_ids t = document_ids s" "part_ids t = part_ids s"
    by (simp_all add: t(1) blob_refs_def live_docs_def document_ids_def part_ids_def)
  have "dead_keys t = dead_keys s \<and> blob_keys t = insert (m_id m, key) (blob_keys s)
    \<and> ((m_id m, key) \<in> blob_keys s \<or> m_id m = (case i of Some j \<Rightarrow> j | None \<Rightarrow> fresh) \<and> key \<notin> snd ` blob_keys s)"
  proof (rule insert_blob_cases [of s key now fresh i mime sz])
    fix x
    assume x: "x \<in> set (media s)" "m_object_key x = key" and
      e: "insert_blob now fresh key i mime sz s = (set_blob now mime sz x,
           s\<lparr>media := upd_where (\<lambda>m. m_object_key m = key) (set_blob now mime sz) (media s)\<rparr>)"
    have "(\<lambda>m. (m_id m, m_object_key m)) ` set (media t) = (\<lambda>m. (m_id m, m_object_key m)) ` set (media s)"
      unfolding set_map [symmetric] t(1) e by (simp add: map_upd_where)
    moreover have "dead_keys t = dead_keys s"
      unfolding dead_keys_def set_map [symmetric] t(1) e by (simp add: filter_upd_where map_upd_where)
    moreover have "m_id m = m_id x" by (simp add: t(2) e)
    with x have "(m_id m, key) \<in> blob_keys s" unfolding blob_keys_def by (intro image_eqI [of _ _ x]) simp_all
    ultimately show ?thesis by (auto simp: blob_keys_def)
  next
    fix x
    assume "key \<notin> m_object_key ` set (media s)" "m_id x = (case i of Some j \<Rightarrow> j | None \<Rightarrow> fresh)" "m_object_key x = key"
      "m_deleted x = None" "insert_blob now fresh key i mime sz s = (x, s\<lparr>media := media s @ [x]\<rparr>)"
    then show ?thesis by (auto simp: t blob_keys_def dead_keys_def image_iff)
  qed
  then show "dead_keys t = dead_keys s" "blob_keys t = insert (m_id m, key) (blob_keys s)"
    "(m_id m, key) \<in> blob_keys s \<or> m_id m = (case i of Some j \<Rightarrow> j | None \<Rightarrow> fresh) \<and> key \<notin> snd ` blob_keys s"
    by blast+
qed

lemma docs_ok_insert_blob:
  assumes "docs_ok s" "insert_blob now fresh key None mime sz s = (m, t)" "fresh \<notin> media_ids s"
  shows "docs_ok t"
proof -
  note st = insert_blob_sets [OF assms(2)]
  have te: "t = snd (insert_blob now fresh key None mime sz s)" by (simp add: assms(2))
  have "db_ok t" unfolding te by (rule db_ok_insert_blob) (use assms in \<open>simp_all add: docs_ok_def\<close>)
  moreover have "owned t"
    unfolding owned_def
  proof (intro allI impI)
    fix i x k
    assume r: "(i, x) \<in> blob_refs t" "(x, k) \<in> blob_keys t"
    have "(i, x) \<in> blob_refs s" using r(1) st(1) by simp
    moreover from this have "x \<noteq> fresh" using refs_in_media assms(1,3) by (auto simp: docs_ok_def)
    then have "(x, k) \<in> blob_keys s" using r(2) st(6,7) by auto
    ultimately show "starts_with (doc_prefix i) k" using assms(1) by (auto simp: docs_ok_def owned_def)
  qed
  ultimately show ?thesis using assms(1) st by (simp add: docs_ok_def dead_ok_def)
qed

text \<open>Statements that touch neither keys nor references nor deletion marks.\<close>

lemma docs_ok_cong:
  assumes "docs_ok s" "db_ok t" "blob_refs t \<subseteq> blob_refs s" "blob_keys t \<subseteq> blob_keys s"
    "dead_keys t \<subseteq> dead_keys s" "live_docs t \<subseteq> live_docs s" "document_ids t \<subseteq> document_ids s"
  shows "docs_ok t"
  using assms unfolding docs_ok_def owned_def dead_ok_def by blast

lemma upd_documents_sets:
  fixes s :: db and p
  assumes "\<And>d. d_id (f d) = d_id d" "\<And>d. d_media_id (f d) = d_media_id d" "\<And>d. d_deleted (f d) = d_deleted d"
  defines "t \<equiv> s\<lparr>documents := upd_where p f (documents s)\<rparr>"
  shows "blob_refs t = blob_refs s" "blob_keys t = blob_keys s" "dead_keys t = dead_keys s" "live_docs t = live_docs s"
    "document_ids t = document_ids s" "db_ok t = db_ok s"
proof -
  have "map (\<lambda>d. (d_id d, d_media_id d)) (documents t) = map (\<lambda>d. (d_id d, d_media_id d)) (documents s)"
    by (simp add: t_def map_upd_where assms)
  then have i: "(\<lambda>d. (d_id d, d_media_id d)) ` set (documents t) = (\<lambda>d. (d_id d, d_media_id d)) ` set (documents s)"
    by (metis set_map)
  have m: "map d_id (documents t) = map d_id (documents s)" "map d_media_id (documents t) = map d_media_id (documents s)"
    by (simp_all add: t_def map_upd_where assms)
  then have im: "d_id ` set (documents t) = d_id ` set (documents s)" "d_media_id ` set (documents t) = d_media_id ` set (documents s)"
    by (metis set_map)+
  show "blob_refs t = blob_refs s" using i by (simp add: blob_refs_def t_def)
  show "blob_keys t = blob_keys s" "dead_keys t = dead_keys s" by (simp_all add: t_def blob_keys_def dead_keys_def)
  show "live_docs t = live_docs s"
    unfolding live_docs_def set_map [symmetric] t_def by (simp add: filter_upd_where map_upd_where assms)
  show "document_ids t = document_ids s" by (simp add: document_ids_def im)
  have "document_refs t = document_refs s" "part_refs t = part_refs s" "result_refs t = result_refs s" "audit_refs t = audit_refs s"
    using im by (simp_all add: ref_defs t_def)
  then show "db_ok t = db_ok s" using m by (simp add: db_ok_def keys_ok_def refs_ok_def t_def)
qed

lemma docs_ok_set_status: "docs_ok s \<Longrightarrow> docs_ok (tx_set_status now i st s)"
  unfolding tx_set_status_def by (rule docs_ok_cong, assumption) (simp_all add: upd_documents_sets docs_ok_def)

lemma docs_ok_page_count: "docs_ok s \<Longrightarrow> docs_ok (tx_page_count now i n s)"
  unfolding tx_page_count_def by (rule docs_ok_cong, assumption) (simp_all add: upd_documents_sets docs_ok_def)

lemma docs_ok_finalize: "docs_ok s \<Longrightarrow> docs_ok (tx_finalize now i m mime sz s)"
proof -
  assume s: "docs_ok s"
  define t where "t = s\<lparr>media := upd_where (\<lambda>x. m_id x = m) (set_blob now (Some mime) (Some sz)) (media s)\<rparr>"
  have eq: "map (\<lambda>m. (m_id m, m_object_key m)) (media t) = map (\<lambda>m. (m_id m, m_object_key m)) (media s)"
    "map m_id (media t) = map m_id (media s)" "map m_object_key (media t) = map m_object_key (media s)"
    by (simp_all add: t_def map_upd_where)
  have "docs_ok t"
  proof (rule docs_ok_cong [OF s])
    have "media_ids t = media_ids s" unfolding media_ids_def set_map [symmetric] eq ..
    then have sub: "media_ids s \<subseteq> media_ids t" by simp
    have "refs_ok s" using s by (simp add: docs_ok_def db_ok_def)
    then have "refs_ok t" by (rule refs_ok_mono [OF _ sub]) (simp_all add: t_def)
    moreover have "keys_ok t" using s eq by (simp add: docs_ok_def db_ok_def keys_ok_def t_def)
    ultimately show "db_ok t" by (simp add: db_ok_def)
    show "blob_keys t \<subseteq> blob_keys s" unfolding blob_keys_def set_map [symmetric] eq by simp
    show "dead_keys t \<subseteq> dead_keys s"
      unfolding dead_keys_def set_map [symmetric] t_def by (simp add: filter_upd_where map_upd_where)
  qed (simp_all add: t_def blob_refs_def live_docs_def document_ids_def)
  then show ?thesis unfolding tx_finalize_def t_def [symmetric] by (rule docs_ok_set_status)
qed

lemma docs_ok_request:
  assumes "docs_ok s" "fresh \<notin> media_ids s" "uuid_ok doc" "doc \<notin> document_ids s"
    "\<forall>(x, k) \<in> blob_keys s. \<not> starts_with (doc_prefix doc) k"
  shows "docs_ok (tx_request now doc fresh name s)"
proof -
  obtain m t where mt: "insert_blob now fresh (doc_key doc (lit ''original'')) None None None s = (m, t)" by force
  note st = insert_blob_sets [OF mt]
  define u where "u = tx_request now doc fresh name s"
  have t: "docs_ok t" by (rule docs_ok_insert_blob [OF assms(1) mt assms(2)])
  have m: "m_id m = fresh" proof -
    have "(m_id m, doc_key doc (lit ''original'')) \<notin> blob_keys s" using assms(5) doc_key_prefix by blast
    with st(7) show ?thesis by simp
  qed
  have docs: "documents t = documents s" using insert_blob_other(1) [of now fresh "doc_key doc (lit ''original'')" None None None s] mt by simp
  define d where "d = \<lparr>d_id = doc, d_media_id = m_id m, d_name = name, d_status = DocNew,
        d_page_count = None, d_deleted = None, d_purge = None, d_created = now, d_updated = now\<rparr>"
  have u: "u = t\<lparr>documents := documents t @ [d]\<rparr>" by (simp add: u_def tx_request_def mt d_def)
  have mid: "m_id m \<in> media_ids t" using st(6) blob_keys_media_ids by blast
  have notm: "m_id m \<notin> d_media_id ` set (documents s)"
    using assms(1,2) m by (auto simp: docs_ok_def db_ok_def refs_ok_def document_refs_def)
  have "keys_ok u"
    using t assms(4) notm by (simp add: u docs_ok_def db_ok_def keys_ok_def d_def docs document_ids_def)
  moreover have "refs_ok u"
    using t mid by (auto simp: u docs_ok_def db_ok_def ref_defs d_def)
  moreover have refs: "blob_refs u = insert (doc, m_id m) (blob_refs t)" by (auto simp: blob_refs_def u d_def)
  have "owned u"
    unfolding owned_def
  proof (intro allI impI)
    fix i x k
    assume r: "(i, x) \<in> blob_refs u" "(x, k) \<in> blob_keys u"
    have k: "(x, k) \<in> blob_keys t" using r(2) by (simp add: blob_keys_def u)
    from r(1) refs consider "i = doc" "x = m_id m" | "(i, x) \<in> blob_refs t" by auto
    then show "starts_with (doc_prefix i) k"
    proof cases
      case 1
      then have "k = doc_key doc (lit ''original'')"
        using k st(6) blob_key_unique [of t "m_id m" k "doc_key doc (lit ''original'')"] t by (auto simp: docs_ok_def)
      with 1 show ?thesis by simp
    next
      case 2
      with k t show ?thesis by (auto simp: docs_ok_def owned_def)
    qed
  qed
  moreover have "dead_ok u"
  proof -
    have "live_docs u = insert doc (live_docs s)" using st(2) by (auto simp: live_docs_def u d_def docs)
    moreover have "dead_keys u = dead_keys s" using st(5) by (simp add: dead_keys_def u)
    moreover have "\<not> starts_with (doc_prefix doc) k" if "k \<in> dead_keys s" for k
      using that assms(5) by (auto simp: dead_keys_def blob_keys_def)
    ultimately show ?thesis using assms(1) by (auto simp: docs_ok_def dead_ok_def)
  qed
  moreover have "\<forall>i \<in> document_ids u. uuid_ok i"
    using t assms(3) by (auto simp: docs_ok_def document_ids_def u d_def)
  ultimately show ?thesis by (simp add: docs_ok_def db_ok_def u_def)
qed

lemma docs_ok_insert_part:
  assumes "docs_ok s" "p_id p \<notin> part_ids s" "p_document_id p \<in> document_ids s" "p_thumb p = None"
    "p_media_id p = Some x" "(x, k) \<in> blob_keys s" "starts_with (doc_prefix (p_document_id p)) k"
  shows "docs_ok (snd (insert_part p s))"
proof (cases "\<exists>q \<in> set (parts s). p_document_id q = p_document_id p \<and> p_locator q = p_locator p")
  case False
  define t where "t = s\<lparr>parts := parts s @ [p]\<rparr>"
  have t: "snd (insert_part p s) = t" using False by (simp add: insert_part_def t_def)
  have same: "media_ids t = media_ids s" "document_ids t = document_ids s" "execution_ids t = execution_ids s"
    "blob_keys t = blob_keys s" "dead_keys t = dead_keys s" "live_docs t = live_docs s"
    "part_ids t = insert (p_id p) (part_ids s)" "document_refs t = document_refs s" "audit_refs t = audit_refs s"
    by (auto simp: ref_defs blob_keys_def dead_keys_def live_docs_def t_def)
  have refs: "blob_refs t = insert (p_document_id p, x) (blob_refs s)"
    by (auto simp: blob_refs_def t_def assms(4,5))
  have "(p_document_id p, p_locator p) \<notin> (\<lambda>p. (p_document_id p, p_locator p)) ` set (parts s)"
    using False by (auto simp: image_iff)
  then have "keys_ok t"
    using assms(1,2) by (simp add: docs_ok_def db_ok_def keys_ok_def t_def part_ids_def)
  moreover have "part_refs t"
    using assms(1,3-5) blob_keys_media_ids [OF assms(6)] same(1,2)
    by (auto simp: docs_ok_def db_ok_def refs_ok_def part_refs_def t_def)
  moreover have "result_refs t"
    using assms(1) same(3,7) by (auto simp: docs_ok_def db_ok_def refs_ok_def result_refs_def t_def)
  ultimately have "db_ok t" using assms(1) same by (simp add: docs_ok_def db_ok_def refs_ok_def)
  moreover have "owned t"
    unfolding owned_def refs same
  proof (intro allI impI)
    fix i y l
    assume r: "(i, y) \<in> insert (p_document_id p, x) (blob_refs s)" "(y, l) \<in> blob_keys s"
    then consider "i = p_document_id p" "y = x" | "(i, y) \<in> blob_refs s" by auto
    then show "starts_with (doc_prefix i) l"
    proof cases
      case 1
      then have "l = k" using blob_key_unique [OF _ _ assms(6)] r(2) assms(1) by (auto simp: docs_ok_def)
      with 1 assms(7) show ?thesis by simp
    next
      case 2
      with r(2) assms(1) show ?thesis by (auto simp: docs_ok_def owned_def)
    qed
  qed
  ultimately show ?thesis using assms(1) same by (simp add: t docs_ok_def dead_ok_def)
qed (use assms(1) in \<open>simp add: insert_part_def\<close>)

lemma docs_ok_part:
  assumes "docs_ok s" "fst fresh \<notin> media_ids s" "snd fresh \<notin> part_ids s" "doc \<in> document_ids s"
  shows "docs_ok (snd (tx_part now fresh doc loc kind page mime sz s))"
proof -
  obtain m t where mt: "insert_blob now (fst fresh) (doc_key doc loc) None mime (Some sz) s = (m, t)" by force
  note st = insert_blob_sets [OF mt]
  have t: "docs_ok t" by (rule docs_ok_insert_blob [OF assms(1) mt assms(2)])
  have "docs_ok (snd (insert_part (new_part now (snd fresh) doc loc kind page (m_id m)) t))"
    by (rule docs_ok_insert_part [OF t, where x = "m_id m" and k = "doc_key doc loc"])
      (use assms(3,4) st in \<open>simp_all add: new_part_def\<close>)
  then show ?thesis by (simp add: tx_part_def mt)
qed

lemma docs_ok_source_part:
  assumes "docs_ok s" "fresh \<notin> part_ids s" "d \<in> set (documents s)"
  shows "docs_ok (snd (insert_part (new_part now fresh (d_id d) loc kind page (d_media_id d)) s))"
proof -
  have ref: "(d_id d, d_media_id d) \<in> blob_refs s" using assms(3) by (auto simp: blob_refs_def)
  then have "d_media_id d \<in> media_ids s" using refs_in_media assms(1) by (auto simp: docs_ok_def)
  then obtain k where k: "(d_media_id d, k) \<in> blob_keys s" by (auto simp: media_ids_def blob_keys_def)
  show ?thesis
    by (rule docs_ok_insert_part [OF assms(1), where x = "d_media_id d" and k = k])
      (use assms ref k in \<open>auto simp: new_part_def document_ids_def docs_ok_def owned_def\<close>)
qed

text \<open>Recording a thumbnail whose key derives from the part's own blob.\<close>

lemma docs_ok_part_thumb:
  assumes "docs_ok s" "p \<in> set (parts s)" "p_media_id p = Some x" "(x, k) \<in> blob_keys s" "(t, thumb_key k) \<in> blob_keys s"
  shows "docs_ok (tx_part_thumb now (p_id p) t s)"
proof -
  define f where "f = (\<lambda>p :: part_row. p\<lparr>p_thumb := Some t, p_updated := now\<rparr>)"
  define c where "c = (\<lambda>q :: part_row. p_id q = p_id p \<and> p_thumb q = None)"
  define u where "u = s\<lparr>parts := upd_where c f (parts s)\<rparr>"
  have u: "tx_part_thumb now (p_id p) t s = u" by (simp add: tx_part_thumb_def u_def c_def f_def)
  have only: "q = p" if "q \<in> set (parts s)" "c q" for q
    using that assms(1,2) by (auto simp: docs_ok_def db_ok_def keys_ok_def distinct_map c_def dest: inj_onD)
  have ids: "map p_id (parts u) = map p_id (parts s)"
    "map (\<lambda>p. (p_document_id p, p_locator p)) (parts u) = map (\<lambda>p. (p_document_id p, p_locator p)) (parts s)"
    by (simp_all add: u_def map_upd_where f_def)
  have same: "media_ids u = media_ids s" "document_ids u = document_ids s" "execution_ids u = execution_ids s"
    "blob_keys u = blob_keys s" "dead_keys u = dead_keys s" "live_docs u = live_docs s"
    "document_refs u = document_refs s" "audit_refs u = audit_refs s"
    by (auto simp: ref_defs blob_keys_def dead_keys_def live_docs_def u_def)
  have pid: "part_ids u = part_ids s" unfolding part_ids_def set_map [symmetric] ids ..
  have row: "\<exists>q \<in> set (parts s). r = q \<or> q = p \<and> r = f p" if "r \<in> set (parts u)" for r
    using that only assms(2) by (auto simp: u_def set_upd_where)
  have refs: "blob_refs u \<subseteq> insert (p_document_id p, t) (blob_refs s)"
    using row by (fastforce simp: blob_refs_def u_def f_def assms(3))
  have "keys_ok u" using assms(1) ids by (simp add: docs_ok_def db_ok_def keys_ok_def u_def)
  moreover have "part_refs u"
    unfolding part_refs_def same
  proof
    fix r
    assume "r \<in> set (parts u)"
    with row obtain q where q: "q \<in> set (parts s)" "r = q \<or> q = p \<and> r = f p" by blast
    with assms(1) blob_keys_media_ids [OF assms(5)]
    show "p_document_id r \<in> document_ids s \<and> set_option (p_media_id r) \<subseteq> media_ids s \<and> set_option (p_thumb r) \<subseteq> media_ids s"
      by (auto simp: docs_ok_def db_ok_def refs_ok_def part_refs_def f_def)
  qed
  moreover have "result_refs u"
    using assms(1) same(3) pid by (simp add: docs_ok_def db_ok_def refs_ok_def result_refs_def u_def)
  ultimately have "db_ok u" using assms(1) same by (simp add: docs_ok_def db_ok_def refs_ok_def)
  moreover have "owned u"
    unfolding owned_def same
  proof (intro allI impI)
    fix i y l
    assume r: "(i, y) \<in> blob_refs u" "(y, l) \<in> blob_keys s"
    with refs consider "i = p_document_id p" "y = t" | "(i, y) \<in> blob_refs s" by auto
    then show "starts_with (doc_prefix i) l"
    proof cases
      case 1
      then have "l = thumb_key k" using blob_key_unique [OF _ _ assms(5)] r(2) assms(1) by (auto simp: docs_ok_def)
      moreover have "(p_document_id p, x) \<in> blob_refs s" using assms(2,3) by (force simp: blob_refs_def)
      then have "starts_with (doc_prefix (p_document_id p)) k" using assms(1,4) by (auto simp: docs_ok_def owned_def)
      ultimately show ?thesis using 1 by (simp add: thumb_key_def starts_with_extend)
    next
      case 2
      with r(2) assms(1) show ?thesis by (auto simp: docs_ok_def owned_def)
    qed
  qed
  ultimately show ?thesis using assms(1) same by (simp add: u docs_ok_def dead_ok_def)
qed

lemma blobs_of_refs: "x \<in> set (blobs_of ids s) \<Longrightarrow> \<exists>i. i \<in> set ids \<and> i \<in> live_docs s \<and> (i, x) \<in> blob_refs s"
  by (fastforce simp: blobs_of_def Let_def blob_refs_def live_docs_def set_map_filter image_iff)

text \<open>Conversely, every blob a live document among \<open>ids\<close> refers to is marked.\<close>

lemma refs_blobs_of:
  assumes "distinct (map d_id (documents s))" "i \<in> set ids" "i \<in> live_docs s" "(i, x) \<in> blob_refs s"
  shows "x \<in> set (blobs_of ids s)"
proof -
  obtain d where d: "d \<in> set (documents s)" "d_id d = i" "d_deleted d = None" using assms(3) by (auto simp: live_docs_def)
  have un: "e = d" if "e \<in> set (documents s)" "d_id e = i" for e
    using that d(1,2) assms(1) by (auto simp: distinct_map dest: inj_onD)
  from assms(4) consider "x = d_media_id d" | p where "p \<in> set (parts s)" "p_document_id p = i" "p_media_id p = Some x"
    | p where "p \<in> set (parts s)" "p_document_id p = i" "p_thumb p = Some x"
    unfolding blob_refs_def using un by (auto split: option.splits)
  then show ?thesis
    using d assms(2) by cases (force simp: blobs_of_def Let_def set_map_filter image_iff)+
qed

lemma tx_delete_sets:
  fixes s :: db
  assumes "tx_delete now window ids s = (n, t)"
  shows "blob_refs t = blob_refs s" "blob_keys t = blob_keys s" "document_ids t = document_ids s"
    "live_docs t = live_docs s - set ids" "db_ok t = db_ok s"
    "dead_keys t \<subseteq> dead_keys s \<union> {k. \<exists>x \<in> set (blobs_of ids s). (x, k) \<in> blob_keys s}"
proof -
  define until where "until = now + window * 1000000"
  define c where "c = (\<lambda>m :: media_row. m_id m \<in> set (blobs_of ids s) \<and> m_deleted m = None)"
  define f where "f = (\<lambda>m :: media_row. m\<lparr>m_deleted := Some now, m_purge := Some until, m_updated := now\<rparr>)"
  define h where "h = (\<lambda>d :: document_row. d_id d \<in> set ids \<and> d_deleted d = None)"
  define g where "g = (\<lambda>d :: document_row. d\<lparr>d_deleted := Some now, d_purge := Some until, d_updated := now\<rparr>)"
  have t: "t = s\<lparr>media := upd_where c f (media s), documents := upd_where h g (documents s)\<rparr>"
    using assms by (simp add: tx_delete_def Let_def c_def f_def h_def g_def until_def)
  have m: "map (\<lambda>d. (d_id d, d_media_id d)) (documents t) = map (\<lambda>d. (d_id d, d_media_id d)) (documents s)"
    "map d_id (documents t) = map d_id (documents s)" "map d_media_id (documents t) = map d_media_id (documents s)"
    "map (\<lambda>m. (m_id m, m_object_key m)) (media t) = map (\<lambda>m. (m_id m, m_object_key m)) (media s)"
    "map m_id (media t) = map m_id (media s)" "map m_object_key (media t) = map m_object_key (media s)"
    by (simp_all add: t map_upd_where f_def g_def)
  have i: "(\<lambda>d. (d_id d, d_media_id d)) ` set (documents t) = (\<lambda>d. (d_id d, d_media_id d)) ` set (documents s)"
    "d_id ` set (documents t) = d_id ` set (documents s)" "d_media_id ` set (documents t) = d_media_id ` set (documents s)"
    "m_id ` set (media t) = m_id ` set (media s)"
    unfolding set_map [symmetric] m by (rule refl)+
  show "blob_refs t = blob_refs s" using i(1) by (simp add: blob_refs_def t)
  show "blob_keys t = blob_keys s" unfolding blob_keys_def set_map [symmetric] m ..
  show "document_ids t = document_ids s" by (simp add: document_ids_def i)
  have "document_refs t = document_refs s" "part_refs t = part_refs s" "result_refs t = result_refs s" "audit_refs t = audit_refs s"
    using i by (simp_all add: ref_defs t)
  then show "db_ok t = db_ok s" using m by (simp add: db_ok_def keys_ok_def refs_ok_def t)
  show "live_docs t = live_docs s - set ids"
    by (auto simp: live_docs_def t set_upd_where h_def g_def image_iff)
  show "dead_keys t \<subseteq> dead_keys s \<union> {k. \<exists>x \<in> set (blobs_of ids s). (x, k) \<in> blob_keys s}"
    by (fastforce simp: dead_keys_def blob_keys_def t set_upd_where c_def f_def)
qed

lemma docs_ok_delete: "docs_ok s \<Longrightarrow> docs_ok (snd (tx_delete now window ids s))"
proof -
  assume s: "docs_ok s"
  obtain n t where nt: "tx_delete now window ids s = (n, t)" by force
  note st = tx_delete_sets [OF nt]
  have "dead_ok t"
    unfolding dead_ok_def
  proof (intro ballI notI)
    fix k j
    assume k: "k \<in> dead_keys t" and j: "j \<in> live_docs t" and pj: "starts_with (doc_prefix j) k"
    from j st(4) have j': "j \<in> live_docs s" "j \<notin> set ids" by auto
    from k st(6) consider "k \<in> dead_keys s" | x where "x \<in> set (blobs_of ids s)" "(x, k) \<in> blob_keys s" by auto
    then show False
    proof cases
      case 1
      with s j' pj show ?thesis by (auto simp: docs_ok_def dead_ok_def)
    next
      case 2
      then obtain i where i: "i \<in> set ids" "i \<in> live_docs s" "(i, x) \<in> blob_refs s" using blobs_of_refs by blast
      then have pi: "starts_with (doc_prefix i) k" using s 2(2) by (auto simp: docs_ok_def owned_def)
      have "uuid_ok i" "uuid_ok j" using s i(2) j'(1) by (auto simp: docs_ok_def live_docs_def document_ids_def)
      then have "i = j" using pi pj by (rule doc_prefix_inject)
      with i(1) j'(2) show ?thesis by simp
    qed
  qed
  then show ?thesis using s st by (simp add: docs_ok_def owned_def nt)
qed

lemma docs_ok_delete_media: "docs_ok s \<Longrightarrow> docs_ok (delete_media ids s)"
proof (rule docs_ok_cong, assumption)
  assume "docs_ok s"
  then show "db_ok (delete_media ids s)" by (simp add: docs_ok_def db_ok_delete_media)
  show "blob_refs (delete_media ids s) \<subseteq> blob_refs s"
    by (auto simp: blob_refs_def delete_media_def Let_def set_upd_where split: if_splits)
qed (auto simp: blob_keys_def dead_keys_def live_docs_def document_ids_def delete_media_def Let_def)

lemma purge_expired_db: "\<exists>ids. wdb (snd (purge_expired now deletable w)) \<in> {wdb w, delete_media ids (wdb w)}"
  by (auto simp: purge_expired_def Let_def upd_db_def)

subsection \<open>The state machine of documents\<close>

text \<open>
  The transactions of all clients and workers, in the order the database runs them, with
  client uploads and store writes in between.
\<close>

inductive doc_reachable :: "world \<Rightarrow> bool" where
  start: "doc_reachable \<lparr>wdb = empty_db, objs = \<lambda>_. None\<rparr>"
| put_object: "doc_reachable w \<Longrightarrow> doc_reachable (upload_object key data w)"
| request: "\<lbrakk>doc_reachable w; uuid_ok doc; doc \<notin> document_ids (wdb w); fresh \<notin> media_ids (wdb w);
     \<forall>(x, k) \<in> blob_keys (wdb w). \<not> starts_with (doc_prefix doc) k\<rbrakk>
   \<Longrightarrow> doc_reachable (upd_db (tx_request now doc fresh name) w)"
| invalid: "doc_reachable w \<Longrightarrow> doc_reachable (upd_db (tx_set_status now i DocInvalid) w)"
| ready: "doc_reachable w \<Longrightarrow> doc_reachable (upd_db (tx_finalize now i m mime sz) w)"
| part: "\<lbrakk>doc_reachable w; fst fresh \<notin> media_ids (wdb w); snd fresh \<notin> part_ids (wdb w); doc \<in> document_ids (wdb w)\<rbrakk>
   \<Longrightarrow> doc_reachable (upd_db (\<lambda>s. snd (tx_part now fresh doc loc kind page mime sz s)) w)"
| source_part: "\<lbrakk>doc_reachable w; fresh \<notin> part_ids (wdb w); d \<in> set (documents (wdb w))\<rbrakk>
   \<Longrightarrow> doc_reachable (upd_db (\<lambda>s. snd (insert_part (new_part now fresh (d_id d) loc kind page (d_media_id d)) s)) w)"
| thumb: "\<lbrakk>doc_reachable w; fresh \<notin> media_ids (wdb w)\<rbrakk>
   \<Longrightarrow> doc_reachable (upd_db (\<lambda>s. snd (insert_blob now fresh (thumb_key k) None mime sz s)) w)"
| part_thumb: "\<lbrakk>doc_reachable w; p \<in> set (parts (wdb w)); p_media_id p = Some x; (x, k) \<in> blob_keys (wdb w);
     (t, thumb_key k) \<in> blob_keys (wdb w)\<rbrakk>
   \<Longrightarrow> doc_reachable (upd_db (tx_part_thumb now (p_id p) t) w)"
| page_count: "doc_reachable w \<Longrightarrow> doc_reachable (upd_db (tx_page_count now i n) w)"
| delete: "doc_reachable w \<Longrightarrow> doc_reachable (upd_db (\<lambda>s. snd (tx_delete now window ids s)) w)"
| purge: "doc_reachable w \<Longrightarrow> doc_reachable (snd (purge_expired now deletable w))"

lemma docs_ok_empty: "docs_ok empty_db"
  using db_ok_empty by (simp add: docs_ok_def owned_def dead_ok_def blob_refs_def dead_keys_def document_ids_def empty_db_def)

lemma wdb_upd_db [simp]: "wdb (upd_db f w) = f (wdb w)" "wdb (upload_object key data w) = wdb w"
  by (simp_all add: upd_db_def upload_object_def)

lemma doc_reachable_ok: "doc_reachable w \<Longrightarrow> docs_ok (wdb w)"
proof (induction rule: doc_reachable.induct)
  case (thumb w fresh now k mime sz)
  obtain m t where "insert_blob now fresh (thumb_key k) None mime sz (wdb w) = (m, t)" by force
  with docs_ok_insert_blob [OF thumb.IH this thumb.hyps(2)] show ?case by simp
next
  case (purge w now deletable)
  obtain ids where "wdb (snd (purge_expired now deletable w)) \<in> {wdb w, delete_media ids (wdb w)}"
    using purge_expired_db by blast
  then show ?case using purge.IH docs_ok_delete_media by auto
qed (auto simp: docs_ok_empty docs_ok_request docs_ok_set_status docs_ok_finalize docs_ok_part docs_ok_source_part
    docs_ok_part_thumb docs_ok_page_count docs_ok_delete)

subsection \<open>What the component guarantees\<close>

lemma live_blob:
  assumes "docs_ok s" "i \<in> live_docs s" "(i, x) \<in> blob_refs s"
  obtains m where "m \<in> set (media s)" "m_id m = x" "m_deleted m = None"
proof -
  obtain m where m: "m \<in> set (media s)" "m_id m = x"
    using refs_in_media [of s i x] assms(1,3) by (auto simp: docs_ok_def media_ids_def)
  then have "(x, m_object_key m) \<in> blob_keys s" by (auto simp: blob_keys_def)
  then have "starts_with (doc_prefix i) (m_object_key m)" using assms(1,3) by (auto simp: docs_ok_def owned_def)
  with assms(1,2) have "m_object_key m \<notin> dead_keys s" by (auto simp: docs_ok_def dead_ok_def)
  with m(1) have "m_deleted m = None" by (auto simp: dead_keys_def)
  with m that show ?thesis by blast
qed

lemma live_blob_all:
  assumes "docs_ok s" "i \<in> live_docs s" "(i, x) \<in> blob_refs s"
  shows "(\<exists>m \<in> set (media s). m_id m = x) \<and> (\<forall>m \<in> set (media s). m_id m = x \<longrightarrow> m_deleted m = None)"
proof -
  obtain m where m: "m \<in> set (media s)" "m_id m = x" "m_deleted m = None" by (rule live_blob [OF assms])
  have "inj_on m_id (set (media s))" using assms(1) by (simp add: docs_ok_def db_ok_def keys_ok_def distinct_map)
  with m show ?thesis by (metis inj_onD)
qed

lemma tx_delete_marks:
  assumes "tx_delete now window ids s = (n, t)" "x \<in> set (blobs_of ids s)" "m \<in> set (media t)" "m_id m = x"
  shows "m_deleted m \<noteq> None"
  using assms by (auto simp: tx_delete_def Let_def set_upd_where split: if_splits)

text \<open>
  C4.  Deleting documents deletes exactly their own blobs: the named documents stop being
  live and every blob they refer to is marked, while every other live document stays live
  with each of its blobs (original, pages, thumbnails) present and unmarked.
\<close>

theorem delete_documents_isolated:
  assumes "doc_reachable w" and "delete_documents cfg now ids (wdb w) = (n, t)"
  shows "live_docs t = live_docs (wdb w) - set ids
    \<and> (\<forall>i x. i \<in> live_docs (wdb w) \<longrightarrow> (i, x) \<in> blob_refs (wdb w) \<longrightarrow>
         (\<exists>m \<in> set (media t). m_id m = x) \<and> (\<forall>m \<in> set (media t). m_id m = x \<longrightarrow> (m_deleted m \<noteq> None) = (i \<in> set ids)))"
proof (cases "ids = []")
  case True
  then have "t = wdb w" using assms(2) by (simp add: delete_documents_def)
  then show ?thesis using True live_blob_all [OF doc_reachable_ok [OF assms(1)]] by simp
next
  case False
  define s where "s = wdb w"
  have s: "docs_ok s" by (simp add: s_def doc_reachable_ok assms(1))
  have d: "tx_delete now (purge_after cfg) ids s = (n, t)" using assms(2) False by (simp add: delete_documents_def s_def)
  note st = tx_delete_sets [OF d]
  have t: "docs_ok t" using docs_ok_delete [OF s] d by (metis snd_conv)
  have "(\<exists>m \<in> set (media t). m_id m = x) \<and> (\<forall>m \<in> set (media t). m_id m = x \<longrightarrow> (m_deleted m \<noteq> None) = (i \<in> set ids))"
    if i: "i \<in> live_docs s" and x: "(i, x) \<in> blob_refs s" for i x
  proof (cases "i \<in> set ids")
    case True
    have "x \<in> set (blobs_of ids s)"
      by (rule refs_blobs_of [OF _ True i x]) (use s in \<open>simp add: docs_ok_def db_ok_def keys_ok_def\<close>)
    moreover have "\<exists>m \<in> set (media t). m_id m = x" using refs_in_media [of t i x] t x st(1) by (auto simp: docs_ok_def media_ids_def)
    ultimately show ?thesis using tx_delete_marks [OF d] True by blast
  next
    case False
    with i st(4) have "i \<in> live_docs t" by simp
    moreover have "(i, x) \<in> blob_refs t" using x st(1) by simp
    ultimately show ?thesis using False live_blob_all [OF t] by simp
  qed
  then show ?thesis using st(4) by (simp add: s_def)
qed

text \<open>
  A document view never fails on a live document: the first blob is the document's own
  original, live, and every further one is a live blob of a part of the same document.
\<close>

theorem get_view_total:
  assumes "doc_reachable w" and "i \<in> live_docs (wdb w)"
  shows "\<exists>d v. d \<in> set (documents (wdb w)) \<and> d_id d = i \<and> get_view url i (wdb w) = Inr v
    \<and> m_id (mv_media v) = d_media_id d \<and> m_deleted (mv_media v) = None
    \<and> mv_url v = url (m_object_key (mv_media v))
    \<and> (\<forall>(m, u) \<in> set (mv_children v). m_deleted m = None \<and> u = url (m_object_key m)
         \<and> (\<exists>p \<in> set (parts (wdb w)). p_document_id p = i \<and> p_media_id p = Some (m_id m)))"
proof -
  define s where "s = wdb w"
  have s: "docs_ok s" by (simp add: s_def doc_reachable_ok assms(1))
  obtain d where d: "d \<in> set (documents s)" "d_id d = i" "d_deleted d = None" using assms(2) by (auto simp: live_docs_def s_def)
  have fd: "find (\<lambda>d. d_id d = i \<and> d_deleted d = None) (documents s) = Some d"
    using find_unique_where [of d_id "documents s" d "\<lambda>d. d_deleted d = None"] d s
    by (simp add: docs_ok_def db_ok_def keys_ok_def)
  have ref: "(i, d_media_id d) \<in> blob_refs s" using d by (auto simp: blob_refs_def)
  obtain m where m: "m \<in> set (media s)" "m_id m = d_media_id d" "m_deleted m = None"
    using live_blob [OF s _ ref] assms(2) by (metis s_def)
  have dist: "distinct (map m_id (media s))" using s by (simp add: docs_ok_def db_ok_def keys_ok_def)
  have fm: "find (\<lambda>m. m_id m = d_media_id d) (media s) = Some m" using find_unique [OF dist m(1)] m(2) by simp
  define ids where "ids = d_media_id d # filter (\<lambda>m. m \<noteq> d_media_id d) (List.map_filter p_media_id (parts_of i s))"
  define by_id where "by_id = media_get_many ids s"
  have b: "map_of by_id y = Some r \<longleftrightarrow> r \<in> set (media s) \<and> m_id r = y \<and> y \<in> set ids \<and> m_deleted r = None" for y r
  proof -
    have "by_id = map (\<lambda>m. (m_id m, m)) (filter (\<lambda>m. m_id m \<in> set ids \<and> m_deleted m = None) (media s))"
      by (simp add: by_id_def media_get_many_def ids_def)
    moreover have "distinct (map fst by_id)"
      using dist by (simp add: calculation comp_def distinct_map_filterI)
    ultimately show ?thesis by (auto simp: map_of_eq_Some_iff)
  qed
  have hd: "map_of by_id (d_media_id d) = Some m" using m by (simp add: b ids_def)
  define rest where "rest = List.map_filter (map_of by_id) (tl ids)"
  have recs: "List.map_filter (map_of by_id) ids = m # rest" by (simp add: ids_def rest_def List.map_filter_simps hd)
  define v where "v = \<lparr>mv_media = m, mv_url = url (m_object_key m), mv_children = map (\<lambda>m. (m, url (m_object_key m))) rest\<rparr>"
  have "get_view url i s = Inr v"
    using fd fm recs by (simp add: get_view_def doc_fetch_def doc_join_def Let_def ids_def by_id_def view_of_def v_def)
  moreover have "\<forall>(m, u) \<in> set (mv_children v). m_deleted m = None \<and> u = url (m_object_key m)
         \<and> (\<exists>p \<in> set (parts s). p_document_id p = i \<and> p_media_id p = Some (m_id m))"
    by (auto simp: v_def rest_def set_map_filter b ids_def parts_of_def)
  ultimately show ?thesis using d m by (intro exI [of _ d] exI [of _ v]) (simp add: v_def s_def)
qed

text \<open>One document in a fresh database: the world the witnesses run in.\<close>

definition one_doc :: world where
  "one_doc = upd_db (tx_request 5 1 2 None) \<lparr>wdb = empty_db, objs = \<lambda>_. None\<rparr>"

lemma one_doc_reachable: "doc_reachable one_doc"
  unfolding one_doc_def
  by (rule doc_reachable.request [OF doc_reachable.start])
    (simp_all add: uuid_ok_def document_ids_def media_ids_def blob_keys_def empty_db_def)

lemma one_doc_wdb: "wdb one_doc =
   empty_db\<lparr>media := [blob_new (5, 2, doc_key 1 (lit ''original''), None, None, None)],
     documents := [\<lparr>d_id = 1, d_media_id = 2, d_name = None, d_status = DocNew, d_page_count = None,
                    d_deleted = None, d_purge = None, d_created = 5, d_updated = 5\<rparr>]\<rparr>"
  by (simp add: one_doc_def tx_request_def insert_blob_def put_blob_def upsert_def empty_db_def Let_def blob_new_def)

definition one_row :: document_row where
  "one_row = \<lparr>d_id = 1, d_media_id = 2, d_name = None, d_status = DocNew, d_page_count = None,
     d_deleted = None, d_purge = None, d_created = 5, d_updated = 5\<rparr>"

definition one_blob :: media_row where
  "one_blob = blob_new (5, 2, doc_key 1 (lit ''original''), None, None, None)"

lemma one_row_in: "one_row \<in> set (documents (wdb one_doc))"
  by (simp add: one_doc_wdb one_row_def)

lemma one_blob_in: "one_blob \<in> set (media (wdb one_doc))"
  by (simp add: one_doc_wdb one_blob_def)

lemma one_link: "m_id one_blob = d_media_id one_row"
  by (simp add: one_row_def one_blob_def blob_new_def)

lemma one_doc_live: "live_docs (wdb one_doc) = {1}"
  by (simp add: one_doc_wdb live_docs_def)

theorem delete_documents_isolated_witness:
  "live_docs (snd (delete_documents media_config_default 7 [1] (wdb one_doc))) = {}"
  using delete_documents_isolated [OF one_doc_reachable, of media_config_default 7 "[1]"]
  by (metis Diff_insert_absorb Diff_cancel empty_set list.simps(15) one_doc_live prod.collapse)

text \<open>
  C10.  The tables stay well formed: after any sequence of uploads, transactions of the document service, and purges, ids
  and object keys are unique, a document has one part per locator, every reference points to a row, every
  identifier is a UUID, and a blob a document refers to is stored under the prefix of that document.
\<close>

theorem documents_schema:
  assumes "doc_reachable w"
  shows "distinct (map d_id (documents (wdb w))) \<and> distinct (map m_id (media (wdb w))) \<and> distinct (map m_object_key (media (wdb w)))
    \<and> distinct (map (\<lambda>p. (p_document_id p, p_locator p)) (parts (wdb w)))
    \<and> d_media_id ` set (documents (wdb w)) \<subseteq> m_id ` set (media (wdb w))
    \<and> (\<forall>p \<in> set (parts (wdb w)). p_document_id p \<in> d_id ` set (documents (wdb w))
         \<and> set_option (p_media_id p) \<subseteq> m_id ` set (media (wdb w)) \<and> set_option (p_thumb p) \<subseteq> m_id ` set (media (wdb w)))
    \<and> (\<forall>d \<in> set (documents (wdb w)). uuid_ok (d_id d))
    \<and> (\<forall>i x k. (i, x) \<in> blob_refs (wdb w) \<longrightarrow> (x, k) \<in> blob_keys (wdb w) \<longrightarrow> starts_with (doc_prefix i) k)"
  using doc_reachable_ok [OF assms] by (simp add: docs_ok_def db_ok_def keys_ok_def owned_def ref_defs)

theorem documents_schema_witness:
  "distinct (map d_id (documents (wdb one_doc))) \<and> d_media_id ` set (documents (wdb one_doc)) \<subseteq> m_id ` set (media (wdb one_doc))"
  using documents_schema [OF one_doc_reachable] by blast

theorem get_view_total_witness:
  "\<exists>v. get_view id 1 (wdb one_doc) = Inr v"
  using get_view_total [OF one_doc_reachable, of 1 id] by (auto simp: one_doc_live)

subsection \<open>Finalizing\<close>

lemma doc_fetch_live:
  assumes "docs_ok s" "d \<in> set (documents s)" "d_deleted d = None" "m \<in> set (media s)" "m_id m = d_media_id d"
  shows "doc_fetch b (d_id d) s = Inr \<lparr>dr_row = d, dr_object_key = m_object_key m, dr_mime = m_mime m, dr_size = m_size m\<rparr>"
proof -
  have "distinct (map d_id (documents s))" "distinct (map m_id (media s))"
    using assms(1) by (simp_all add: docs_ok_def db_ok_def keys_ok_def)
  then have "find (\<lambda>x. d_id x = d_id d \<and> (b \<or> d_deleted x = None)) (documents s) = Some d"
    "find (\<lambda>x. m_id x = d_media_id d) (media s) = Some m"
    using find_unique_where [of d_id "documents s" d "\<lambda>d. b \<or> d_deleted d = None"] find_unique [of m_id "media s" m] assms
    by simp_all
  then show ?thesis by (simp add: doc_fetch_def doc_join_def)
qed

lemma doc_fetch_missing: "i \<notin> live_docs s \<Longrightarrow> doc_fetch False i s = Inl DocumentNotFound"
  by (auto simp: doc_fetch_def live_docs_def find_None_set split: option.split dest!: find_Some_in)

lemma tx_finalize_fetch:
  assumes "docs_ok s" "d \<in> set (documents s)" "d_deleted d = None" "m \<in> set (media s)" "m_id m = d_media_id d"
  shows "doc_fetch b (d_id d) (tx_finalize now (d_id d) (d_media_id d) mime sz s) =
    Inr \<lparr>dr_row = d\<lparr>d_status := DocReady, d_updated := now\<rparr>, dr_object_key = m_object_key m, dr_mime = Some mime, dr_size = Some sz\<rparr>"
proof -
  define t where "t = tx_finalize now (d_id d) (d_media_id d) mime sz s"
  define e where "e = d\<lparr>d_status := DocReady, d_updated := now\<rparr>"
  have "e \<in> set (documents t)"
    using assms(2) by (force simp: t_def e_def tx_finalize_def tx_set_status_def set_upd_where)
  moreover have "set_blob now (Some mime) (Some sz) m \<in> set (media t)"
    using assms(4,5) by (force simp: t_def tx_finalize_def tx_set_status_def set_upd_where)
  ultimately show ?thesis
    using doc_fetch_live [of t e "set_blob now (Some mime) (Some sz) m" b] docs_ok_finalize [OF assms(1)] assms(3,5)
    by (simp add: t_def e_def set_blob_def)
qed

text \<open>
  C13.  Finalizing is a one-way state machine of one document.  A document that is missing or deleted is not found,
  and one that is not new is refused; when its object is missing or cannot be read to the end, that
  error is raised: in all three cases nothing changes.  A new document whose bytes are rejected becomes invalid,
  with the rejection as the error; otherwise it becomes ready and its blob carries the detected type and the real
  size, which is what the caller gets back.  No other row of any table changes.
\<close>

theorem finalize_outcomes:
  assumes "doc_reachable w" and "d \<in> set (documents (wdb w))" and "m \<in> set (media (wdb w))" and "m_id m = d_media_id d"
    and "body (m_object_key m) = (chunks, broken)" and "cap = nat (max_size cfg)"
    and "status = (\<lambda>st. map (\<lambda>x. if d_id x = d_id d then x\<lparr>d_status := st, d_updated := now\<rparr> else x) (documents (wdb w)))"
  shows "finalize U namelist cfg body now (d_id d) (wdb w) =
    (if d_deleted d \<noteq> None then (Inl DocumentNotFound, wdb w)
     else if d_status d \<noteq> DocNew then (Inl AlreadyFinalized, wdb w)
     else if broken \<and> read_capped cap [] chunks \<noteq> None then (Inl StorageFailed, wdb w)
     else case validate_object U namelist cap chunks (d_name d) of
       Inl e \<Rightarrow> (Inl (BadUpload e), (wdb w)\<lparr>documents := status DocInvalid\<rparr>)
     | Inr (mt, sz) \<Rightarrow>
         (Inr \<lparr>dr_row = d\<lparr>d_status := DocReady, d_updated := now\<rparr>, dr_object_key = m_object_key m,
               dr_mime = Some (mime_str mt), dr_size = Some sz\<rparr>,
          (wdb w)\<lparr>media := map (\<lambda>x. if m_id x = m_id m then x\<lparr>m_mime := Some (mime_str mt), m_size := Some sz, m_updated := now\<rparr> else x)
                             (media (wdb w)),
                  documents := status DocReady\<rparr>))
    \<and> (\<forall>i. i \<notin> document_ids (wdb w) \<longrightarrow> finalize U namelist cfg body now i (wdb w) = (Inl DocumentNotFound, wdb w))"
proof (intro conjI allI impI)
  have s: "docs_ok (wdb w)" by (rule doc_reachable_ok [OF assms(1)])
  have st: "tx_set_status now (d_id d) st (wdb w) = (wdb w)\<lparr>documents := status st\<rparr>" for st
    by (simp add: tx_set_status_def upd_where_def assms(7))
  have fin: "tx_finalize now (d_id d) (d_media_id d) mime sz (wdb w) =
      (wdb w)\<lparr>media := map (\<lambda>x. if m_id x = m_id m then x\<lparr>m_mime := Some mime, m_size := Some sz, m_updated := now\<rparr> else x) (media (wdb w)),
              documents := status DocReady\<rparr>" for mime sz
    by (simp add: tx_finalize_def tx_set_status_def upd_where_def set_blob_def assms(4,7))
  show "finalize U namelist cfg body now (d_id d) (wdb w) =
    (if d_deleted d \<noteq> None then (Inl DocumentNotFound, wdb w)
     else if d_status d \<noteq> DocNew then (Inl AlreadyFinalized, wdb w)
     else if broken \<and> read_capped cap [] chunks \<noteq> None then (Inl StorageFailed, wdb w)
     else case validate_object U namelist cap chunks (d_name d) of
       Inl e \<Rightarrow> (Inl (BadUpload e), (wdb w)\<lparr>documents := status DocInvalid\<rparr>)
     | Inr (mt, sz) \<Rightarrow>
         (Inr \<lparr>dr_row = d\<lparr>d_status := DocReady, d_updated := now\<rparr>, dr_object_key = m_object_key m,
               dr_mime = Some (mime_str mt), dr_size = Some sz\<rparr>,
          (wdb w)\<lparr>media := map (\<lambda>x. if m_id x = m_id m then x\<lparr>m_mime := Some (mime_str mt), m_size := Some sz, m_updated := now\<rparr> else x)
                             (media (wdb w)),
                  documents := status DocReady\<rparr>))"
  proof (cases "d_deleted d")
    case None
    show ?thesis
      using doc_fetch_live [OF s assms(2) None assms(3,4)] tx_finalize_fetch [OF s assms(2) None assms(3,4)] None
      by (auto simp: finalize_def validate_stream_def assms(5,6) st fin [symmetric] Let_def split: sum.split)
  next
    case (Some a)
    have "distinct (map d_id (documents (wdb w)))" using s by (simp add: docs_ok_def db_ok_def keys_ok_def)
    then have "d_id d \<notin> live_docs (wdb w)"
      using assms(2) Some by (auto simp: live_docs_def distinct_map dest!: inj_onD [of d_id])
    then show ?thesis using Some by (simp add: finalize_def doc_fetch_missing)
  qed
  show "finalize U namelist cfg body now i (wdb w) = (Inl DocumentNotFound, wdb w)" if "i \<notin> document_ids (wdb w)" for i
  proof -
    have "i \<notin> live_docs (wdb w)" using that by (auto simp: live_docs_def document_ids_def)
    then show ?thesis by (simp add: finalize_def doc_fetch_missing)
  qed
qed

lemma demo_validate:
  "validate_object ascii_unicode (\<lambda>_. None) (nat (max_size media_config_default)) [bytes ''%PDF-1.7x''] None = Inr (Pdf, 9)"
  "validate_object ascii_unicode (\<lambda>_. None) (nat (max_size media_config_default)) [[0]] None = Inl UnsupportedType"
  by (simp_all add: validate_object_def bytes_def detect_mime_def magic_def header_len_def media_config_default_def Let_def
      match_webp_def zip_magic_def bad_ctrl_def classify_text_def)

lemma demo_finalize:
  "\<exists>r t. finalize_document ascii_unicode (\<lambda>_. None) media_config_default (\<lambda>_. ([bytes ''%PDF-1.7x''], False)) 9 1 (wdb one_doc) = (Inr r, t)"
proof -
  have "docs_ok (wdb one_doc)" by (rule doc_reachable_ok [OF one_doc_reachable])
  from doc_fetch_live [OF this one_row_in _ one_blob_in one_link] tx_finalize_fetch [OF this one_row_in _ one_blob_in one_link]
  show ?thesis by (simp add: finalize_document_def finalize_def validate_stream_def demo_validate one_row_def Let_def)
qed

text \<open>
  A nine-byte PDF stub becomes a ready document; a NUL byte makes it invalid; without an object it stays new.
\<close>

theorem finalize_outcomes_witness:
  "map_sum id dr_mime (fst (finalize ascii_unicode (\<lambda>_. None) media_config_default (\<lambda>_. ([bytes ''%PDF-1.7x''], False)) 9 1 (wdb one_doc)))
     = Inr (Some (lit ''application/pdf''))
   \<and> fst (finalize ascii_unicode (\<lambda>_. None) media_config_default (\<lambda>_. ([[0]], False)) 9 1 (wdb one_doc)) = Inl (BadUpload UnsupportedType)
   \<and> finalize ascii_unicode (\<lambda>_. None) media_config_default (\<lambda>_. ([], True)) 9 1 (wdb one_doc) = (Inl StorageFailed, wdb one_doc)"
proof -
  note fin = finalize_outcomes [OF one_doc_reachable one_row_in one_blob_in one_link _ refl refl, of "\<lambda>_. p" "fst p" "snd p" for p,
      simplified, where U = ascii_unicode and namelist = "\<lambda>_. None" and cfg = media_config_default and now = 9, THEN conjunct1]
  show ?thesis
    using fin [of "([bytes ''%PDF-1.7x''], False)"] fin [of "([[0]], False)"] fin [of "([], True)"] demo_validate
    by (simp add: one_row_def one_blob_def blob_new_def mime_str_def)
qed

text \<open>
  \<open>FinalizeDocument\<close> can be run again: once it has returned a document, every
  later run returns the same document and changes nothing, whatever the object store then holds.
\<close>

theorem finalize_document_again:
  assumes "doc_reachable w" and "finalize_document U namelist cfg body now i (wdb w) = (Inr r, t)"
  shows "finalize_document U' namelist' cfg' body' now' i t = (Inr r, t) \<and> d_status (dr_row r) \<noteq> DocNew"
proof -
  define s where "s = wdb w"
  have s: "docs_ok s" by (simp add: s_def doc_reachable_ok assms(1))
  have "i \<in> live_docs s"
  proof (rule ccontr)
    assume "i \<notin> live_docs s"
    then have "finalize_document U namelist cfg body now i s = (Inl DocumentNotFound, s)"
      by (simp add: finalize_document_def finalize_def doc_fetch_missing)
    with assms(2) show False by (simp add: s_def)
  qed
  then obtain d where d: "d \<in> set (documents s)" "d_id d = i" "d_deleted d = None" by (auto simp: live_docs_def)
  have "(i, d_media_id d) \<in> blob_refs s" using d by (auto simp: blob_refs_def)
  then obtain m where m: "m \<in> set (media s)" "m_id m = d_media_id d"
    using refs_in_media [of s i "d_media_id d"] s by (auto simp: docs_ok_def media_ids_def)
  note f = doc_fetch_live [OF s d(1,3) m, unfolded d(2)] tx_finalize_fetch [OF s d(1,3) m, unfolded d(2)]
  show ?thesis
  proof (cases "d_status d = DocNew")
    case True
    then obtain mt sz where "validate_stream U namelist (nat (max_size cfg)) (body (m_object_key m)) (d_name d) = Some (Inr (mt, sz))"
      using assms(2) f by (auto simp: finalize_document_def finalize_def s_def [symmetric] Let_def split: sum.splits option.splits)
    then have "t = tx_finalize now i (d_media_id d) (mime_str mt) sz s" "Inr r = doc_fetch True i (tx_finalize now i (d_media_id d) (mime_str mt) sz s)"
      using assms(2) f True by (auto simp: finalize_document_def finalize_def s_def [symmetric] Let_def)
    then show ?thesis using f(2) by (auto simp: finalize_document_def finalize_def doc_get_def)
  next
    case False
    then show ?thesis
      using assms(2) f by (auto simp: finalize_document_def finalize_def s_def [symmetric] doc_get_def)
  qed
qed

theorem finalize_document_again_witness:
  "\<exists>r t. finalize_document ascii_unicode (\<lambda>_. None) media_config_default (\<lambda>_. ([], True)) 11 1 t = (Inr r, t)"
proof -
  obtain r t where "finalize_document ascii_unicode (\<lambda>_. None) media_config_default (\<lambda>_. ([bytes ''%PDF-1.7x''], False)) 9 1 (wdb one_doc) = (Inr r, t)"
    using demo_finalize by blast
  from finalize_document_again [OF one_doc_reachable this] show ?thesis by blast
qed

subsection \<open>Parts under concurrency\<close>

definition parts_keyed :: "db \<Rightarrow> bool" where
  "parts_keyed s \<longleftrightarrow> distinct (map (\<lambda>p. (p_document_id p, p_locator p)) (parts s))"

lemma part_by_locator_unique:
  assumes "parts_keyed s" "p \<in> set (parts s)"
  shows "part_by_locator (p_document_id p) (p_locator p) s = Some p"
  using find_unique [OF assms(1) [unfolded parts_keyed_def] assms(2)] by (simp add: part_by_locator_def)

lemma part_by_locator_in:
  "part_by_locator doc loc s = Some p \<Longrightarrow> p \<in> set (parts s) \<and> p_document_id p = doc \<and> p_locator p = loc"
  unfolding part_by_locator_def by (drule find_Some_in) simp

lemma parts_keyed_insert: "parts_keyed s \<Longrightarrow> parts_keyed (snd (insert_part p s))"
  by (auto simp: parts_keyed_def insert_part_def)

text \<open>Inserting a part and reading back what is there gives the part of that locator.\<close>

lemma insert_part_read:
  assumes "p_document_id p = doc" "p_locator p = loc" "insert_part p s = (row, t)" "parts_keyed s"
  shows "\<exists>q. (case row of Some q \<Rightarrow> Some q | None \<Rightarrow> part_by_locator doc loc t) = Some q \<and> part_by_locator doc loc t = Some q"
proof (cases "\<exists>q \<in> set (parts s). p_document_id q = doc \<and> p_locator q = loc")
  case True
  then obtain q where q: "q \<in> set (parts s)" "p_document_id q = doc" "p_locator q = loc" by blast
  then have "row = None" "t = s" using assms(1-3) True by (simp_all add: insert_part_def)
  moreover have "part_by_locator doc loc s = Some q" using part_by_locator_unique [OF assms(4) q(1)] q by simp
  ultimately show ?thesis by simp
next
  case False
  then have "(row, t) = (Some p, s\<lparr>parts := parts s @ [p]\<rparr>)"
    unfolding assms(3) [symmetric] insert_part_def assms(1,2) by (rule if_not_P)
  then have "row = Some p" "p \<in> set (parts t)" by simp_all
  moreover have "parts_keyed t" using parts_keyed_insert [OF assms(4), of p] assms(3) by simp
  ultimately show ?thesis using part_by_locator_unique [of t p] assms(1,2) by simp
qed

lemma create_part_read:
  assumes "parts_keyed (wdb (race (upload_object (doc_key doc loc) data w)))"
    and "doc \<in> document_ids (wdb (race (upload_object (doc_key doc loc) data w)))" and "render () = Some (data, mime)"
  shows "\<exists>p w'. create_part now fresh doc loc kind render page race w = (Inr p, w') \<and> parts_keyed (wdb w')
    \<and> part_by_locator doc loc (wdb w') = Some p"
proof -
  define v where "v = race (upload_object (doc_key doc loc) data w)"
  define b where "b = insert_blob now (fst fresh) (doc_key doc loc) None mime (Some (length data)) (wdb v)"
  define q where "q = new_part now (snd fresh) doc loc kind page (m_id (fst b))"
  obtain row t where rt: "insert_part q (snd b) = (row, t)" by force
  have k: "parts_keyed (snd b)" using assms(1) by (simp add: b_def parts_keyed_def v_def)
  obtain p where p: "(case row of Some q \<Rightarrow> Some q | None \<Rightarrow> part_by_locator doc loc t) = Some p" "part_by_locator doc loc t = Some p"
    using insert_part_read [OF _ _ rt k, of doc loc] by (auto simp: q_def new_part_def)
  have "parts_keyed t" using parts_keyed_insert [OF k, of q] rt by simp
  moreover have "create_part now fresh doc loc kind render page race w = (Inr p, v\<lparr>wdb := t\<rparr>)"
  proof -
    have "tx_part now fresh doc loc kind page mime (length data) (wdb v) = (row, t)"
      by (simp add: tx_part_def b_def [symmetric] split_beta q_def [symmetric] rt)
    then show ?thesis
      using assms(2,3) p(1) by (cases row) (simp_all add: create_part_def v_def [symmetric] Let_def)
  qed
  ultimately show ?thesis using p(2) by simp
qed

text \<open>
  C6.  \<open>ensure_part\<close> is safe under concurrent runs: whatever other runs do between the
  upload and the insert (they keep the unique key and do not remove the document), the caller gets the one part
  the database holds for that document and locator, and once that part has a blob a later call
  returns it without rendering again.
\<close>

theorem ensure_part_unique:
  assumes "parts_keyed (wdb w)" and "doc \<in> document_ids (wdb w)"
    and "\<And>v. parts_keyed (wdb v) \<Longrightarrow> parts_keyed (wdb (race v))"
    and "\<And>v. doc \<in> document_ids (wdb v) \<Longrightarrow> doc \<in> document_ids (wdb (race v))"
    and "render () = Some (data, mime)"
  shows "\<exists>p w'. ensure_part now fresh doc loc kind render page race w = (Inr p, w')
    \<and> (\<forall>q \<in> set (parts (wdb w')). p_document_id q = doc \<and> p_locator q = loc \<longleftrightarrow> q = p) \<and> p \<in> set (parts (wdb w'))
    \<and> (p_media_id p \<noteq> None \<longrightarrow> ensure_part now2 fresh2 doc loc kind2 (\<lambda>_. None) page2 race2 w' = (Inr p, w'))"
proof -
  have "\<exists>p w'. ensure_part now fresh doc loc kind render page race w = (Inr p, w') \<and> parts_keyed (wdb w')
      \<and> part_by_locator doc loc (wdb w') = Some p"
  proof (cases "\<exists>p. part_by_locator doc loc (wdb w) = Some p \<and> p_media_id p \<noteq> None")
    case True
    then show ?thesis using assms(1) by (auto simp: ensure_part_def)
  next
    case False
    then have "ensure_part now fresh doc loc kind render page race w = create_part now fresh doc loc kind render page race w"
      by (auto simp: ensure_part_def split: option.split)
    moreover have "parts_keyed (wdb (race (upload_object (doc_key doc loc) data w)))"
      by (rule assms(3)) (simp add: assms(1))
    moreover have "doc \<in> document_ids (wdb (race (upload_object (doc_key doc loc) data w)))"
      by (rule assms(4)) (simp add: assms(2))
    ultimately show ?thesis using create_part_read [of race doc loc data w render mime] assms(5) by simp
  qed
  then obtain p w' where p: "ensure_part now fresh doc loc kind render page race w = (Inr p, w')" "parts_keyed (wdb w')"
    "part_by_locator doc loc (wdb w') = Some p" by blast
  moreover have "\<forall>q \<in> set (parts (wdb w')). p_document_id q = doc \<and> p_locator q = loc \<longleftrightarrow> q = p"
    using part_by_locator_unique [OF p(2)] part_by_locator_in [OF p(3)] by (metis option.inject)
  ultimately show ?thesis
    using part_by_locator_in [OF p(3)] by (intro exI [of _ p] exI [of _ w']) (simp add: ensure_part_def)
qed

text \<open>Another run inserts the same page first: the caller still gets the part that is there.\<close>

theorem ensure_part_unique_witness:
  "\<exists>p w'. ensure_part 6 (8, 9) 1 (page_locator 1) TextPart (\<lambda>_. Some ([1], None)) (Some 1)
     (upd_db (\<lambda>s. snd (insert_part (new_part 6 4 1 (page_locator 1) TextPart (Some 1) 2) s))) one_doc = (Inr p, w')"
proof -
  define q where "q = new_part 6 4 1 (page_locator 1) TextPart (Some 1) 2"
  have 1: "parts_keyed (wdb one_doc)" "1 \<in> document_ids (wdb one_doc)"
    by (simp_all add: one_doc_wdb parts_keyed_def document_ids_def empty_db_def)
  have 2: "parts_keyed (wdb (upd_db (\<lambda>s. snd (insert_part q s)) v))" if "parts_keyed (wdb v)" for v
    using that by (simp add: parts_keyed_insert)
  have 3: "1 \<in> document_ids (wdb (upd_db (\<lambda>s. snd (insert_part q s)) v))" if "1 \<in> document_ids (wdb v)" for v
    using that by (simp add: insert_part_def document_ids_def)
  show ?thesis
    using ensure_part_unique [OF 1, of "upd_db (\<lambda>s. snd (insert_part q s))", OF 2 3, of "\<lambda>_. Some ([1], None)" "[1]" None 6 "(8, 9)" "page_locator 1" TextPart "Some 1"]
    unfolding q_def by blast
qed

subsection \<open>Page order\<close>

lemma padded_zero: "padded w 0 = replicate w 48"
  by (induction w) (simp_all add: replicate_append_same)

lemma show_nat_padded: "\<lbrakk>n < 10 ^ w; 0 < w\<rbrakk> \<Longrightarrow> length (show_nat n) \<le> w \<and> replicate (w - length (show_nat n)) 48 @ show_nat n = padded w n"
proof (induction n arbitrary: w rule: show_nat.induct)
  case (1 n)
  obtain v where v: "w = Suc v" using "1.prems" by (cases w) auto
  show ?case
  proof (cases "n < 10")
    case True
    then show ?thesis by (simp add: v show_nat.simps [of n] padded_zero)
  next
    case False
    then have "n div 10 < 10 ^ v" "0 < v" using "1.prems" v by (auto intro: gr0I)
    with "1.IH" [OF False, of v] show ?thesis by (simp add: False v show_nat.simps [of n] append_assoc [symmetric] del: append_assoc)
  qed
qed

lemma page_locator_padded: "n < 100000 \<Longrightarrow> page_locator n = 112 # padded 5 n"
  using show_nat_padded [of n 5] by (simp add: page_locator_def Let_def)

lemma str_less_lex: "str_less s t \<longleftrightarrow> s < t"
  by (induction s t rule: str_less.induct) auto

text \<open>
  Locators sort like the pages they name, up to page 99999: their string order is the page
  order and different pages have different locators, all of the same width.  The next
  page breaks the order.
\<close>

theorem page_locator_order:
  assumes "m < 100000" and "n < 100000"
  shows "(page_locator m < page_locator n \<longleftrightarrow> m < n) \<and> (page_locator m = page_locator n \<longleftrightarrow> m = n)
    \<and> length (page_locator n) = 6 \<and> page_locator 100000 < page_locator 99999"
proof -
  have "page_locator 100000 < page_locator 99999"
    by (simp add: page_locator_def show_nat.simps)
  then show ?thesis using padded_less [of m 5 n] assms by (simp add: page_locator_padded str_less_lex)
qed

theorem page_locator_order_witness: "page_locator 9 < page_locator 10"
  using page_locator_order [of 9 10] by simp

end
