(* ===== verification/Runs.thy ===== *)
theory Runs
  imports Blobs Documents "HOL-Library.Multiset"
begin

section \<open>Workflow executions\<close>

text \<open>
  \<open>doci/workflows/service.py\<close>, \<open>router.py\<close> and the metadata part of \<open>runtime.py\<close>.  The task
  queue is the argument \<open>kiq\<close> (\<open>None\<close>: enqueuing raises); \<open>race\<close> is what workers do to the
  database once the job is enqueued.  Reading a thread's latest checkpoint from the checkpointer may raise:
  \<open>latest n\<close> is what the \<open>n\<close>-th read of a task gets, the text of the exception or the checkpoint id, if
  any.  The clock reading plus the time to live of checkpoints is an argument too, as is \<open>str(exc)\<close>.
\<close>

subsection \<open>The service\<close>

datatype run_error = RunNotFound | RunBlob json_error

definition run_create ::
  "time \<Rightarrow> uuid \<Rightarrow> ustr \<Rightarrow> ustr \<Rightarrow> uuid \<Rightarrow> wf_input \<Rightarrow> wf_metadata \<Rightarrow> db \<Rightarrow> uuid \<times> db" where
  "run_create now eid kind etype entity inp meta s =
     (eid, s\<lparr>executions := executions s @ [\<lparr>e_id = eid, e_workflow = kind, e_entity_type = etype, e_entity_id = entity,
        e_status = Queued, e_input = input_to_json inp, e_result = None, e_metadata = metadata_to_json meta,
        e_started = None, e_finished = None, e_created = now, e_updated = now\<rparr>]\<rparr>)"

definition upd_run :: "uuid \<Rightarrow> (execution_row \<Rightarrow> execution_row) \<Rightarrow> db \<Rightarrow> db" where
  "upd_run eid f s = s\<lparr>executions := upd_where (\<lambda>e. e_id e = eid) f (executions s)\<rparr>"

definition run_set_metadata :: "time \<Rightarrow> uuid \<Rightarrow> wf_metadata \<Rightarrow> db \<Rightarrow> db" where
  "run_set_metadata now eid m = upd_run eid (\<lambda>e. e\<lparr>e_metadata := metadata_to_json m, e_updated := now\<rparr>)"

definition mark_running :: "time \<Rightarrow> uuid \<Rightarrow> db \<Rightarrow> db" where
  "mark_running now eid = upd_run eid (\<lambda>e. e\<lparr>e_status := Running, e_started := Some now, e_updated := now\<rparr>)"

definition run_finish :: "time \<Rightarrow> uuid \<Rightarrow> workflow_status \<Rightarrow> wf_result \<Rightarrow> wf_metadata \<Rightarrow> db \<Rightarrow> db" where
  "run_finish now eid st r m = upd_run eid (\<lambda>e. e\<lparr>e_status := st, e_result := Some (result_to_json r),
     e_metadata := metadata_to_json m, e_finished := Some now, e_updated := now\<rparr>)"

definition mark_succeeded :: "time \<Rightarrow> uuid \<Rightarrow> wf_result \<Rightarrow> wf_metadata \<Rightarrow> db \<Rightarrow> db" where
  "mark_succeeded now eid r m s = run_finish now eid Succeeded r m s"

definition mark_failed :: "time \<Rightarrow> uuid \<Rightarrow> wf_result \<Rightarrow> wf_metadata \<Rightarrow> db \<Rightarrow> db" where
  "mark_failed now eid r m s = run_finish now eid Failed r m s"

definition run_get :: "unicode \<Rightarrow> uuid \<Rightarrow> db \<Rightarrow> run_error + execution_rec" where
  "run_get U eid s = (case find (\<lambda>e. e_id e = eid) (executions s) of
     None \<Rightarrow> Inl RunNotFound
   | Some e \<Rightarrow> (case execution_from_row U e of Inl x \<Rightarrow> Inl (RunBlob x) | Inr r \<Rightarrow> Inr r))"

record recent_row =
  rr_id :: uuid
  rr_workflow :: ustr
  rr_entity_id :: uuid
  rr_status :: workflow_status
  rr_started :: "time option"
  rr_finished :: "time option"
  rr_created :: time
  rr_document_name :: "ustr option"

definition recent_of :: "db \<Rightarrow> execution_row \<Rightarrow> recent_row" where
  "recent_of s e = \<lparr>rr_id = e_id e, rr_workflow = e_workflow e, rr_entity_id = e_entity_id e, rr_status = e_status e,
     rr_started = e_started e, rr_finished = e_finished e, rr_created = e_created e,
     rr_document_name = (if e_entity_type e = lit ''document''
        then Option.bind (find (\<lambda>d. d_id d = e_entity_id e) (documents s)) d_name else None)\<rparr>"

definition recent_rows :: "ustr option \<Rightarrow> db \<Rightarrow> recent_row list" where
  "recent_rows kind s = sort_key (\<lambda>r. (- rr_created r, rr_id r))
     (map (recent_of s) (filter (\<lambda>e. case kind of None \<Rightarrow> True | Some w \<Rightarrow> e_workflow e = w) (executions s)))"

definition list_recent :: "ustr option \<Rightarrow> nat \<Rightarrow> nat \<Rightarrow> db \<Rightarrow> recent_row list" where
  "list_recent kind limit off s = limit_offset limit off (recent_rows kind s)"

subsection \<open>Metadata of a finished run\<close>

definition langgraph_meta_of :: "ustr option \<Rightarrow> utc \<Rightarrow> ustr \<Rightarrow> langgraph_meta" where
  "langgraph_meta_of checkpoint deadline thread =
     \<lparr>lm_thread_id = JStr thread, lm_checkpoint_id = jopt checkpoint,
      lm_deadline = (if checkpoint \<noteq> None then Some deadline else None)\<rparr>"

text \<open>The errors of \<open>final_metadata\<close>: those of the row, and those of reading the checkpointer.\<close>

datatype meta_error = MetaRun run_error | MetaCheckpoint ustr

type_synonym checkpoint_read = "ustr \<Rightarrow> ustr + ustr option"

definition read_langgraph_meta :: "checkpoint_read \<Rightarrow> utc \<Rightarrow> ustr \<Rightarrow> meta_error + langgraph_meta" where
  "read_langgraph_meta read deadline thread = (case read thread of
     Inl e \<Rightarrow> Inl (MetaCheckpoint e)
   | Inr checkpoint \<Rightarrow> Inr (langgraph_meta_of checkpoint deadline thread))"

definition final_metadata ::
  "unicode \<Rightarrow> checkpoint_read \<Rightarrow> utc \<Rightarrow> uuid \<Rightarrow> ustr \<Rightarrow> db \<Rightarrow> meta_error + wf_metadata" where
  "final_metadata U read deadline eid thread s =
     (case run_get U eid s of
        Inl e \<Rightarrow> Inl (MetaRun e)
      | Inr rec \<Rightarrow> bindE (read_langgraph_meta read deadline thread) (\<lambda>m. Inr ((er_metadata rec)\<lparr>wm_langgraph := Some m\<rparr>)))"

text \<open>
  How a task ends, and its last two steps.  A handler that fails to read the metadata raises that error, and
  the row stays as it is.  Storing the output is part of the \<open>try\<close>: when its metadata cannot be read, the
  handler reads again, to store that error.
\<close>

datatype task_end = Returned json | RaisedTimeout | RaisedError ustr | RaisedMeta meta_error

type_synonym saver_reads = "nat \<Rightarrow> checkpoint_read"

definition fail_run ::
  "unicode \<Rightarrow> checkpoint_read \<Rightarrow> utc \<Rightarrow> time \<Rightarrow> uuid \<Rightarrow> ustr \<Rightarrow> ustr \<Rightarrow> task_end \<Rightarrow> db \<Rightarrow> task_end \<times> db" where
  "fail_run U read deadline now eid thread err exc s =
     (case final_metadata U read deadline eid thread s of
        Inl e \<Rightarrow> (RaisedMeta e, s)
      | Inr m \<Rightarrow> (exc, mark_failed now eid \<lparr>wr_output = JNull, wr_error = JStr err, wr_version = result_version\<rparr> m s))"

definition succeed_run ::
  "unicode \<Rightarrow> (meta_error \<Rightarrow> ustr) \<Rightarrow> saver_reads \<Rightarrow> utc \<Rightarrow> time \<Rightarrow> uuid \<Rightarrow> ustr \<Rightarrow> json \<Rightarrow> db \<Rightarrow> task_end \<times> db" where
  "succeed_run U str_of latest deadline now eid thread output s =
     (case final_metadata U (latest 0) deadline eid thread s of
        Inl e \<Rightarrow> fail_run U (latest 1) deadline now eid thread (str_of e) (RaisedMeta e) s
      | Inr m \<Rightarrow> (Returned output, mark_succeeded now eid \<lparr>wr_output = output, wr_error = JNull, wr_version = result_version\<rparr> m s))"

subsection \<open>Router\<close>

datatype workflow_kind = MiningKind | ImageKind | PdfKind

fun kind_value :: "workflow_kind \<Rightarrow> ustr" where
  "kind_value MiningKind = lit ''document_mining''"
| "kind_value ImageKind = lit ''image''"
| "kind_value PdfKind = lit ''pdf''"

record submit_request =
  sr_document_id :: uuid
  sr_workflow :: workflow_kind
  sr_dossier_key :: "ustr option"
  sr_annotate_reflect :: bool

record workflow_job =
  wj_execution_id :: uuid
  wj_task_id :: ustr
  wj_workflow :: workflow_kind
  wj_document_id :: uuid

fun status_name :: "workflow_status \<Rightarrow> ustr" where
  "status_name Queued = lit ''QUEUED''"
| "status_name Running = lit ''RUNNING''"
| "status_name Succeeded = lit ''SUCCEEDED''"
| "status_name Failed = lit ''FAILED''"

record list_item =
  li_execution_id :: uuid
  li_workflow :: ustr
  li_document_id :: uuid
  li_document_name :: "ustr option"
  li_status :: ustr
  li_running :: bool
  li_created :: time
  li_started :: "time option"
  li_finished :: "time option"

definition list_item_from_row :: "recent_row \<Rightarrow> list_item" where
  "list_item_from_row r = \<lparr>li_execution_id = rr_id r, li_workflow = rr_workflow r, li_document_id = rr_entity_id r,
     li_document_name = rr_document_name r, li_status = status_name (rr_status r),
     li_running = (rr_status r \<in> {Queued, Running}), li_created = rr_created r, li_started = rr_started r,
     li_finished = rr_finished r\<rparr>"

text \<open>The arguments of the task: document, execution, thread, dossier key, reflect flag.\<close>

type_synonym task_args = "workflow_kind \<times> uuid \<times> uuid \<times> ustr \<times> ustr option \<times> bool"

definition queued_metadata :: "ustr option \<Rightarrow> ustr \<Rightarrow> wf_metadata" where
  "queued_metadata task thread = \<lparr>wm_taskiq = \<lparr>tm_task_id = jopt task\<rparr>,
     wm_langgraph = Some \<lparr>lm_thread_id = JStr thread, lm_checkpoint_id = JNull, lm_deadline = None\<rparr>,
     wm_retry_count = JInt 0, wm_version = metadata_version\<rparr>"

definition submit ::
  "time \<times> time \<Rightarrow> uuid \<Rightarrow> ustr \<Rightarrow> (task_args \<Rightarrow> ustr option) \<Rightarrow> (db \<Rightarrow> db) \<Rightarrow> submit_request \<Rightarrow> db
   \<Rightarrow> workflow_job http \<times> db" where
  "submit now eid thread kiq race body s =
     (case doc_get (sr_document_id body) s of
        Inl e \<Rightarrow> (HttpError (doc_error_code e), s)
      | Inr _ \<Rightarrow>
          (let (eid', s1) = run_create (fst now) eid (kind_value (sr_workflow body)) (lit ''document'') (sr_document_id body)
                 \<lparr>wi_document_id = sr_document_id body, wi_dossier_key = jopt (sr_dossier_key body),
                  wi_annotate_reflect = JBool (sr_annotate_reflect body), wi_version = input_version\<rparr>
                 (queued_metadata None thread) s
           in case kiq (sr_workflow body, sr_document_id body, eid', thread, sr_dossier_key body, sr_annotate_reflect body) of
                None \<Rightarrow> (HttpError 500, s1)
              | Some task \<Rightarrow>
                  (Response 202 \<lparr>wj_execution_id = eid', wj_task_id = task, wj_workflow = sr_workflow body,
                                 wj_document_id = sr_document_id body\<rparr>,
                   run_set_metadata (snd now) eid' (queued_metadata (Some task) thread) (race s1))))"

text \<open>\<open>Query(ge=1, le=200)\<close> and \<open>Query(ge=0)\<close> reject other bounds with 422.\<close>

definition list_items :: "ustr option \<Rightarrow> int \<Rightarrow> int \<Rightarrow> db \<Rightarrow> list_item page http" where
  "list_items kind limit off s =
     (if limit < 1 \<or> 200 < limit \<or> off < 0 then HttpError 422
      else let rows = list_recent kind (nat limit + 1) (nat off) s
           in Response 200 \<lparr>items = map list_item_from_row (take (nat limit) rows), page_limit = nat limit,
                            page_offset = nat off, has_more = nat limit < length rows\<rparr>)"

definition list_runs :: "int \<Rightarrow> int \<Rightarrow> db \<Rightarrow> list_item page http" where
  "list_runs limit off s = list_items None limit off s"

record run_status =
  rs_execution_id :: uuid
  rs_workflow :: ustr
  rs_document_id :: uuid
  rs_status :: ustr
  rs_running :: bool
  rs_error :: json
  rs_started :: "time option"
  rs_finished :: "time option"

definition get_status :: "unicode \<Rightarrow> uuid \<Rightarrow> db \<Rightarrow> run_status http" where
  "get_status U eid s = (case run_get U eid s of
     Inl RunNotFound \<Rightarrow> HttpError 404
   | Inl (RunBlob _) \<Rightarrow> HttpError 500
   | Inr rec \<Rightarrow> Response 200 \<lparr>rs_execution_id = er_id rec, rs_workflow = er_workflow rec, rs_document_id = er_entity_id rec,
       rs_status = status_name (er_status rec), rs_running = (er_status rec \<in> {Queued, Running}),
       rs_error = (case er_result rec of None \<Rightarrow> JNull | Some r \<Rightarrow> wr_error r),
       rs_started = er_started rec, rs_finished = er_finished rec\<rparr>)"

subsection \<open>Lemmas\<close>

named_theorems run_simps \<open>what the statements of the service do to one execution row\<close>

definition run_row :: "uuid \<Rightarrow> db \<Rightarrow> execution_row option" where
  "run_row eid s = find (\<lambda>e. e_id e = eid) (executions s)"

lemma run_get_row: "run_get U eid s = (case run_row eid s of None \<Rightarrow> Inl RunNotFound
   | Some e \<Rightarrow> (case execution_from_row U e of Inl x \<Rightarrow> Inl (RunBlob x) | Inr r \<Rightarrow> Inr r))"
  by (simp add: run_get_def run_row_def)

lemma run_row_upd [run_simps]:
  "(\<And>e. e_id (f e) = e_id e) \<Longrightarrow> run_row i (upd_run eid f s) = map_option (\<lambda>e. if e_id e = eid then f e else e) (run_row i s)"
  by (simp add: run_row_def upd_run_def find_upd_where)

lemma run_row_id: "run_row eid s = Some e \<Longrightarrow> e_id e = eid"
  unfolding run_row_def by (drule find_Some_in) simp

lemma run_row_create:
  "eid \<notin> execution_ids s \<Longrightarrow> run_row eid (snd (run_create now eid kind etype entity inp meta s)) =
     Some \<lparr>e_id = eid, e_workflow = kind, e_entity_type = etype, e_entity_id = entity, e_status = Queued,
       e_input = input_to_json inp, e_result = None, e_metadata = metadata_to_json meta, e_started = None,
       e_finished = None, e_created = now, e_updated = now\<rparr>"
  by (auto simp: run_row_def run_create_def find_append execution_ids_def find_None_set split: option.split dest!: find_Some_in)

lemma run_row_other: "i \<noteq> eid \<Longrightarrow> (\<And>e. e_id (f e) = e_id e) \<Longrightarrow> run_row i (upd_run eid f s) = run_row i s"
  by (cases "run_row i s") (auto simp: run_simps dest: run_row_id)

lemma readable_current:
  assumes "unicode_ok U"
  shows "readable U input_version input_version" "readable U result_version result_version" "readable U metadata_version metadata_version"
  using major_current [OF assms] by (simp_all add: readable_def require_compatible_def)

text \<open>What an operation of one run leaves alone, and how the last step of a task ends.\<close>

definition only_run :: "uuid \<Rightarrow> db \<Rightarrow> db \<Rightarrow> bool" where
  "only_run eid s t \<longleftrightarrow> media t = media s \<and> documents t = documents s \<and> parts t = parts s \<and> results t = results s
     \<and> findings t = findings s \<and> verdicts t = verdicts s \<and> execution_ids t = execution_ids s
     \<and> (\<forall>i. i \<noteq> eid \<longrightarrow> run_row i t = run_row i s)"

lemma only_run_refl [simp, intro]: "only_run eid s s"
  by (simp add: only_run_def)

lemma only_run_trans: "\<lbrakk>only_run eid s t; only_run eid t u\<rbrakk> \<Longrightarrow> only_run eid s u"
  by (simp add: only_run_def)

lemma only_run_upd: "(\<And>e. e_id (f e) = e_id e) \<Longrightarrow> only_run eid s (upd_run eid f s)"
  by (simp add: only_run_def run_row_other) (simp add: upd_run_def execution_ids_def set_map [symmetric] row_simps del: set_map)

lemma only_run_steps [intro]:
  "only_run eid s (mark_running now eid s)" "only_run eid s (run_finish now eid st r m s)"
  "only_run eid s (run_set_metadata now eid m s)"
  by (simp_all add: mark_running_def run_finish_def run_set_metadata_def only_run_upd)

lemma only_run_ends [intro]:
  "only_run eid s (snd (fail_run U read deadline now eid thread err exc s))"
  "only_run eid s (snd (succeed_run U str_of latest deadline now eid thread out s))"
  by (auto simp: succeed_run_def fail_run_def mark_succeeded_def mark_failed_def split: sum.split)

definition run_has :: "uuid \<Rightarrow> workflow_status \<Rightarrow> wf_result \<Rightarrow> db \<Rightarrow> bool" where
  "run_has eid st r s \<longleftrightarrow> (\<exists>e. run_row eid s = Some e \<and> e_status e = st \<and> e_result e = Some (result_to_json r))"

lemma run_get_Some: "run_get U eid s = Inr rec \<Longrightarrow> \<exists>e. run_row eid s = Some e"
  by (auto simp: run_get_row split: option.splits)

lemma run_get_running: "run_get U eid s = Inr rec \<Longrightarrow> \<exists>rec'. run_get U eid (mark_running now eid s) = Inr rec'"
  by (auto simp: run_get_row mark_running_def run_simps execution_from_row_def split: option.splits sum.splits)

lemma run_get_cong: "executions t = executions s \<Longrightarrow> run_get U eid t = run_get U eid s"
  by (simp add: run_get_def)

lemma finish_row: "run_row eid s = Some e \<Longrightarrow> run_has eid st r (run_finish now eid st r m s)"
  by (auto simp: run_has_def run_finish_def run_simps dest: run_row_id)

text \<open>Whether a run is in a state, and the failed result with an error.\<close>

definition run_is :: "uuid \<Rightarrow> workflow_status \<Rightarrow> db \<Rightarrow> bool" where
  "run_is eid st s \<longleftrightarrow> map_option e_status (run_row eid s) = Some st"

definition failed_with :: "uuid \<Rightarrow> ustr \<Rightarrow> db \<Rightarrow> bool" where
  "failed_with eid err s \<longleftrightarrow> run_has eid Failed \<lparr>wr_output = JNull, wr_error = JStr err, wr_version = result_version\<rparr> s"

definition succeeded_with :: "uuid \<Rightarrow> json \<Rightarrow> db \<Rightarrow> bool" where
  "succeeded_with eid out s \<longleftrightarrow> run_has eid Succeeded \<lparr>wr_output = out, wr_error = JNull, wr_version = result_version\<rparr> s"

lemma run_is_running: "run_get U eid s = Inr rec \<Longrightarrow> run_is eid Running (mark_running now eid s)"
  by (drule run_get_Some, elim exE, frule run_row_id) (simp add: run_is_def mark_running_def run_simps)

lemma run_is_cong: "executions t = executions s \<Longrightarrow> run_is eid st t = run_is eid st s"
  by (simp add: run_is_def run_row_def)

lemma final_metadata_read:
  assumes "run_get U eid s = Inr rec"
  shows "final_metadata U read deadline eid thread s = (case read thread of Inl e \<Rightarrow> Inl (MetaCheckpoint e)
    | Inr c \<Rightarrow> Inr ((er_metadata rec)\<lparr>wm_langgraph := Some (langgraph_meta_of c deadline thread)\<rparr>))"
  by (simp add: final_metadata_def assms read_langgraph_meta_def split: sum.split)

text \<open>The two last steps of a task, for each answer of the checkpointer.\<close>

lemma fail_run_ok:
  assumes "run_get U eid s = Inr rec" and "fail_run U read deadline now eid thread err exc s = (out, t)"
  shows "case read thread of
      Inl e \<Rightarrow> out = RaisedMeta (MetaCheckpoint e) \<and> t = s
    | Inr c \<Rightarrow> out = exc \<and> failed_with eid err t"
  using finish_row run_get_Some [OF assms(1)] assms(2)
  by (auto simp: fail_run_def final_metadata_read [OF assms(1)] mark_failed_def failed_with_def split: sum.splits)

lemma succeed_run_ok:
  assumes "run_get U eid s = Inr rec" and "succeed_run U str_of latest deadline now eid thread result s = (out, t)"
  shows "case (latest 0 thread, latest 1 thread) of
      (Inr c, _) \<Rightarrow> out = Returned result \<and> succeeded_with eid result t
    | (Inl x, Inr c) \<Rightarrow> out = RaisedMeta (MetaCheckpoint x) \<and> failed_with eid (str_of (MetaCheckpoint x)) t
    | (Inl x, Inl y) \<Rightarrow> out = RaisedMeta (MetaCheckpoint y) \<and> t = s"
proof (cases "latest 0 thread")
  case (Inl x)
  then have "fail_run U (latest 1) deadline now eid thread (str_of (MetaCheckpoint x)) (RaisedMeta (MetaCheckpoint x)) s = (out, t)"
    using assms(2) by (simp add: succeed_run_def final_metadata_read [OF assms(1)])
  from fail_run_ok [OF assms(1) this] show ?thesis by (simp add: Inl split: sum.split)
next
  case (Inr c)
  then show ?thesis
    using finish_row run_get_Some [OF assms(1)] assms(2)
    by (auto simp: succeed_run_def final_metadata_read [OF assms(1)] mark_succeeded_def succeeded_with_def)
qed

text \<open>A finished run is still readable.\<close>

lemma checked_version_readable: "checked_version U current d = Inr v \<Longrightarrow> readable U v current"
proof -
  assume "checked_version U current d = Inr v"
  then obtain j where "(case j of JStr s \<Rightarrow> bindE (require_compatible U s current) (\<lambda>_. Inr s) | _ \<Rightarrow> Inl BadType) = Inr v"
    unfolding checked_version_def bindE_Inr by blast
  then show ?thesis by (cases j) (auto simp: readable_def)
qed

lemma metadata_version_readable: "metadata_from_json U j = Inr m \<Longrightarrow> readable U (wm_version m) metadata_version"
  by (auto simp: metadata_from_json_def dest: checked_version_readable)

lemma finish_readable:
  assumes "unicode_ok U" "utc_ok deadline" "run_get U eid s = Inr rec"
  shows "\<exists>rec'. run_get U eid (snd (fail_run U read deadline now eid thread err exc s)) = Inr rec'"
    "\<exists>rec'. run_get U eid (snd (succeed_run U str_of latest deadline now eid thread out s)) = Inr rec'"
proof -
  obtain e where e: "run_row eid s = Some e" and rec: "execution_from_row U e = Inr rec"
    using assms(3) by (auto simp: run_get_row split: option.splits sum.splits)
  have "readable U (wm_version (er_metadata rec)) metadata_version"
    using rec by (auto simp: execution_from_row_def intro: metadata_version_readable)
  then have m: "metadata_from_json U (metadata_to_json ((er_metadata rec)\<lparr>wm_langgraph := Some (langgraph_meta_of c deadline thread)\<rparr>))
      = Inr ((er_metadata rec)\<lparr>wm_langgraph := Some (langgraph_meta_of c deadline thread)\<rparr>)" for c
    using assms(2) by (intro metadata_read) (auto simp: langgraph_meta_of_def)
  have i: "\<exists>i. input_from_json U (e_input e) = Inr i" using rec by (auto simp: execution_from_row_def)
  have fin: "\<exists>rec'. run_get U eid (run_finish now eid st \<lparr>wr_output = j, wr_error = k, wr_version = result_version\<rparr>
      ((er_metadata rec)\<lparr>wm_langgraph := Some (langgraph_meta_of c deadline thread)\<rparr>) s) = Inr rec'" for st j k c
    using m i e readable_current(2) [OF assms(1)] run_row_id [OF e]
    by (auto simp: run_finish_def run_get_row run_simps execution_from_row_def result_read)
  have bad: "\<exists>rec'. run_get U eid (snd (fail_run U read deadline now eid thread err exc s)) = Inr rec'" for read err exc
    using fin assms(3) by (auto simp: fail_run_def final_metadata_read [OF assms(3)] mark_failed_def split: sum.split)
  then show "\<exists>rec'. run_get U eid (snd (fail_run U read deadline now eid thread err exc s)) = Inr rec'" .
  show "\<exists>rec'. run_get U eid (snd (succeed_run U str_of latest deadline now eid thread out s)) = Inr rec'"
    using fin bad assms(3) by (auto simp: succeed_run_def final_metadata_read [OF assms(3)] mark_succeeded_def split: sum.split)
qed

definition submit_input :: "submit_request \<Rightarrow> wf_input" where
  "submit_input body = \<lparr>wi_document_id = sr_document_id body, wi_dossier_key = jopt (sr_dossier_key body),
     wi_annotate_reflect = JBool (sr_annotate_reflect body), wi_version = input_version\<rparr>"

lemma submit_ok:
  assumes "doc_get (sr_document_id body) s = Inr d"
    and "kiq (sr_workflow body, sr_document_id body, eid, thread, sr_dossier_key body, sr_annotate_reflect body) = Some task"
  shows "snd (submit now eid thread kiq race body s) = run_set_metadata (snd now) eid (queued_metadata (Some task) thread)
      (race (snd (run_create (fst now) eid (kind_value (sr_workflow body)) (lit ''document'') (sr_document_id body)
         (submit_input body) (queued_metadata None thread) s)))"
  using assms by (simp add: submit_def submit_input_def split_beta run_create_def Let_def)

lemma queued_readable: "unicode_ok U \<Longrightarrow> metadata_from_json U (metadata_to_json (queued_metadata task thread)) = Inr (queued_metadata task thread)"
  by (rule metadata_read) (simp_all add: queued_metadata_def readable_current)

lemma submit_input_readable: "\<lbrakk>unicode_ok U; uuid_ok (sr_document_id body)\<rbrakk> \<Longrightarrow> input_from_json U (input_to_json (submit_input body)) = Inr (submit_input body)"
  by (rule input_read) (simp_all add: submit_input_def readable_current)

text \<open>
  The metadata of a submitted run depends on who writes last.  A worker that ends the run after the
  submitter has stored the task id, whether it started before or after that, leaves it succeeded with
  its output and with both the task id and the checkpoint.  If the worker is done before, the
  submitter overwrites the metadata the worker stored: the run is succeeded with its
  output, but its checkpoint id and deadline are lost.
\<close>

definition worker_ends ::
  "unicode \<Rightarrow> (meta_error \<Rightarrow> ustr) \<Rightarrow> saver_reads \<Rightarrow> utc \<Rightarrow> time \<Rightarrow> uuid \<Rightarrow> ustr \<Rightarrow> json \<Rightarrow> db \<Rightarrow> db" where
  "worker_ends U str_of latest deadline now eid thread output s = snd (succeed_run U str_of latest deadline now eid thread output s)"

lemma succeed_row:
  assumes "unicode_ok U" "utc_ok deadline" "run_row eid s = Some e" "execution_from_row U e = Inr rec" "latest 0 thread = Inr c"
  shows "\<exists>rec'. run_get U eid (worker_ends U str_of latest deadline now eid thread out s) = Inr rec'
    \<and> er_status rec' = Succeeded \<and> er_result rec' = Some \<lparr>wr_output = out, wr_error = JNull, wr_version = result_version\<rparr>
    \<and> er_metadata rec' = (er_metadata rec)\<lparr>wm_langgraph := Some (langgraph_meta_of c deadline thread)\<rparr>"
proof -
  have g: "run_get U eid s = Inr rec" by (simp add: run_get_row assms(3,4))
  have "readable U (wm_version (er_metadata rec)) metadata_version"
    using assms(4) by (auto simp: execution_from_row_def intro: metadata_version_readable)
  then have "metadata_from_json U (metadata_to_json ((er_metadata rec)\<lparr>wm_langgraph := Some (langgraph_meta_of c deadline thread)\<rparr>))
      = Inr ((er_metadata rec)\<lparr>wm_langgraph := Some (langgraph_meta_of c deadline thread)\<rparr>)"
    using assms(2) by (intro metadata_read) (auto simp: langgraph_meta_of_def)
  then show ?thesis
    using assms(3,4) readable_current(2) [OF assms(1)] run_row_id [OF assms(3)]
    by (auto simp: worker_ends_def succeed_run_def final_metadata_read [OF g] assms(5) mark_succeeded_def run_finish_def run_get_row run_simps
        execution_from_row_def result_read)
qed


definition demo_submit :: submit_request where
  "demo_submit = \<lparr>sr_document_id = 1, sr_workflow = PdfKind, sr_dossier_key = None, sr_annotate_reflect = False\<rparr>"

definition demo_deadline :: utc where
  "demo_deadline = \<lparr>ut_date = (2026, 1, 1), ut_hour = 0, ut_min = 0, ut_sec = 0, ut_us = 0\<rparr>"


text \<open>
  A listing of runs is exact: for admissible bounds it is the requested slice of all
  runs, newest first, \<open>has_more\<close> says whether rows follow, and each item is flagged as running
  exactly when its run is queued or running; other bounds are refused.
\<close>

theorem list_runs_exact:
  shows "(1 \<le> limit \<and> limit \<le> 200 \<and> 0 \<le> off \<longrightarrow>
      (\<exists>p rs. list_runs limit off s = Response 200 p \<and> rs = recent_rows None s
        \<and> sorted_wrt (\<lambda>a b. rr_created b < rr_created a \<or> rr_created a = rr_created b \<and> rr_id a \<le> rr_id b) rs
        \<and> mset rs = mset (map (recent_of s) (executions s))
        \<and> items p = map list_item_from_row (take (nat limit) (drop (nat off) rs))
        \<and> has_more p = (nat off + nat limit < length rs)))
    \<and> (\<forall>r. li_running (list_item_from_row r) = (li_status (list_item_from_row r) \<in> {lit ''QUEUED'', lit ''RUNNING''}))
    \<and> (limit < 1 \<or> 200 < limit \<or> off < 0 \<longrightarrow> list_runs limit off s = HttpError 422)"
proof -
  define rs where "rs = recent_rows None s"
  have "sorted (map (\<lambda>r. (- rr_created r, rr_id r)) rs)" by (simp add: rs_def recent_rows_def)
  then have "sorted_wrt (\<lambda>a b. (- rr_created a, rr_id a) \<le> (- rr_created b, rr_id b)) rs" by (simp add: sorted_map)
  then have 1: "sorted_wrt (\<lambda>a b. rr_created b < rr_created a \<or> rr_created a = rr_created b \<and> rr_id a \<le> rr_id b) rs"
    by (rule sorted_wrt_mono_rel [rotated]) (auto simp: less_eq_prod_def)
  have 2: "mset rs = mset (map (recent_of s) (executions s))" by (simp add: rs_def recent_rows_def)
  have 3: "li_running (list_item_from_row r) = (li_status (list_item_from_row r) \<in> {lit ''QUEUED'', lit ''RUNNING''})" for r
    by (cases "rr_status r") (simp_all add: list_item_from_row_def)
  show ?thesis
    using 1 2 3 by (auto simp: list_runs_def list_items_def list_recent_def limit_offset_def rs_def [symmetric] Let_def min_def)
qed

theorem list_runs_exact_witness: "list_runs 0 0 empty_db = HttpError 422 \<and> (\<exists>p. list_runs 50 0 empty_db = Response 200 p \<and> \<not> has_more p)"
proof -
  have "recent_rows None empty_db = []" by (simp add: recent_rows_def empty_db_def)
  then show ?thesis
    using list_runs_exact [of 0 0 empty_db] list_runs_exact [of 50 0 empty_db] by auto
qed

end
