(* ===== verification/Audits.thy ===== *)
theory Audits
  imports Runs Money
begin

section \<open>Audits: findings, verdicts, and the audit run\<close>

text \<open>
  \<open>doci/audit/service.py\<close>, the tools \<open>record_finding\<close>, \<open>delete_finding\<close>, \<open>list_findings\<close> and
  \<open>set_verdict\<close>, and \<open>doci/workflows/langgraph_audit/\<close>: trigger, nodes, graph, task, router.  What
  an agent does is the sequence of its tool calls, an argument chosen by the language model; a call
  of a tool that the agent of a phase does not have changes nothing.  How an agent ends is an
  argument too: it stops, its time budget runs out, or it raises.
\<close>

subsection \<open>The service\<close>

datatype audit_error = AuditOrphan

definition record_finding ::
  "time \<times> uuid \<Rightarrow> uuid \<Rightarrow> ustr option \<Rightarrow> ustr \<Rightarrow> ustr \<Rightarrow> ustr \<Rightarrow> json list option \<Rightarrow> db \<Rightarrow> (audit_error + finding_row) \<times> db" where
  "record_finding stamp eid rule_key severity st message evidence s =
     (if eid \<notin> execution_ids s then (Inl AuditOrphan, s)
      else let f = \<lparr>f_id = snd stamp, f_execution_id = eid, f_rule_key = rule_key, f_severity = severity, f_status = st,
                    f_message = message, f_evidence = JList (case evidence of None \<Rightarrow> [] | Some es \<Rightarrow> es), f_created = fst stamp\<rparr>
           in (Inr f, s\<lparr>findings := findings s @ [f]\<rparr>))"

text \<open>The upsert; the tuple holds now, execution, dossier key, document, verdict and rationale.\<close>

type_synonym verdict_put = "time \<times> uuid \<times> ustr option \<times> uuid option \<times> ustr \<times> ustr option"

definition verdict_key :: "verdict_put \<Rightarrow> uuid" where
  "verdict_key = (\<lambda>(now, eid, dk, doc, v, r). eid)"

definition verdict_set :: "verdict_put \<Rightarrow> verdict_row \<Rightarrow> verdict_row" where
  "verdict_set = (\<lambda>(now, eid, dk, doc, v, r) x.
     x\<lparr>v_verdict := v, v_rationale := r, v_dossier_key := dk, v_document_id := doc, v_updated := now\<rparr>)"

definition verdict_new :: "verdict_put \<Rightarrow> verdict_row" where
  "verdict_new = (\<lambda>(now, eid, dk, doc, v, r). \<lparr>v_execution_id = eid, v_dossier_key = dk, v_document_id = doc, v_verdict = v,
     v_rationale = r, v_created = now, v_updated = now\<rparr>)"

definition put_verdict :: "verdict_put \<Rightarrow> verdict_row list \<Rightarrow> verdict_row \<times> verdict_row list" where
  "put_verdict a rs = upsert (\<lambda>x. v_execution_id x = verdict_key a) (verdict_set a) (verdict_new a) rs"

definition set_verdict ::
  "time \<Rightarrow> uuid \<Rightarrow> ustr \<Rightarrow> ustr option \<Rightarrow> uuid option \<Rightarrow> ustr option \<Rightarrow> db \<Rightarrow> (audit_error + verdict_row) \<times> db" where
  "set_verdict now eid verdict dk doc rationale s =
     (if eid \<notin> execution_ids s \<or> \<not> set_option doc \<subseteq> document_ids s then (Inl AuditOrphan, s)
      else let (v, vs) = put_verdict (now, eid, dk, doc, verdict, rationale) (verdicts s) in (Inr v, s\<lparr>verdicts := vs\<rparr>))"

definition list_findings :: "uuid \<Rightarrow> db \<Rightarrow> finding_row list" where
  "list_findings eid s = sort_key (\<lambda>f. (f_created f, f_id f)) (filter (\<lambda>f. f_execution_id f = eid) (findings s))"

definition delete_finding :: "uuid \<Rightarrow> uuid \<Rightarrow> db \<Rightarrow> bool \<times> db" where
  "delete_finding eid fid s =
     (let hit = (\<lambda>f. f_execution_id f = eid \<and> f_id f = fid)
      in (filter hit (findings s) \<noteq> [], s\<lparr>findings := filter (\<lambda>f. \<not> hit f) (findings s)\<rparr>))"

definition audit_clear :: "uuid \<Rightarrow> db \<Rightarrow> db" where
  "audit_clear eid s = s\<lparr>findings := filter (\<lambda>f. f_execution_id f \<noteq> eid) (findings s),
     verdicts := filter (\<lambda>v. v_execution_id v \<noteq> eid) (verdicts s)\<rparr>"

definition get_verdict :: "uuid \<Rightarrow> db \<Rightarrow> verdict_row option" where
  "get_verdict eid s = find (\<lambda>v. v_execution_id v = eid) (verdicts s)"

subsection \<open>The tools\<close>

definition finding_statuses :: "ustr list" where
  "finding_statuses = [lit ''pass'', lit ''fail'', lit ''needs_review'']"

definition verdict_values :: "ustr list" where
  "verdict_values = [lit ''pass'', lit ''needs_review'', lit ''fail'']"

text \<open>A constraint violation raises out of the tool.\<close>

definition record_finding_tool ::
  "time \<times> uuid \<Rightarrow> uuid \<Rightarrow> ustr \<Rightarrow> ustr \<Rightarrow> ustr \<Rightarrow> ustr option \<Rightarrow> json list option \<Rightarrow> db \<Rightarrow> (audit_error + ustr tool_result) \<times> db" where
  "record_finding_tool stamp eid st severity message rule_key evidence s =
     (if st \<notin> set finding_statuses then (Inr (ToolError [st]), s)
      else if \<not> (message \<noteq> [] \<and> py_strip message \<noteq> []) then (Inr (ToolError []), s)
      else case record_finding stamp eid rule_key severity st message evidence s of
        (Inl e, t) \<Rightarrow> (Inl e, t)
      | (Inr f, t) \<Rightarrow> (Inr (ToolOk (uuid_str (f_id f))), t))"

definition delete_finding_tool :: "uuid \<Rightarrow> ustr \<Rightarrow> db \<Rightarrow> bool tool_result \<times> db" where
  "delete_finding_tool eid finding_id s =
     (case uuid_parse finding_id of
        None \<Rightarrow> (ToolError [finding_id], s)
      | Some fid \<Rightarrow> (let (b, t) = delete_finding eid fid s in (ToolOk b, t)))"

definition list_findings_tool :: "uuid \<Rightarrow> db \<Rightarrow> (ustr \<times> ustr option \<times> ustr \<times> ustr \<times> ustr \<times> json) list tool_result" where
  "list_findings_tool eid s =
     ToolOk (map (\<lambda>f. (uuid_str (f_id f), f_rule_key f, f_status f, f_severity f, f_message f, f_evidence f)) (list_findings eid s))"

definition set_verdict_tool ::
  "time \<Rightarrow> uuid \<Rightarrow> ustr option \<Rightarrow> uuid option \<Rightarrow> ustr \<Rightarrow> ustr \<Rightarrow> db \<Rightarrow> (audit_error + ustr tool_result) \<times> db" where
  "set_verdict_tool now eid dk doc verdict rationale s =
     (if verdict \<notin> set verdict_values then (Inr (ToolError [verdict]), s)
      else case set_verdict now eid verdict dk doc (Some rationale) s of
        (Inl e, t) \<Rightarrow> (Inl e, t)
      | (Inr v, t) \<Rightarrow> (Inr (ToolOk (v_verdict v)), t))"

subsection \<open>Phases and graph\<close>

datatype audit_call = CallRecord "time \<times> uuid" ustr ustr ustr "ustr option" "json list option"
  | CallDelete ustr
  | CallVerdict time ustr ustr

datatype ending = Ends | EndsTimeout | EndsRaise ustr

type_synonym phase = "audit_call list \<times> ending"

text \<open>The finding agent and its rule auditor record; the reflection agent records and deletes; the
  verdict agent sets the verdict.\<close>

fun find_call :: "uuid \<Rightarrow> audit_call \<Rightarrow> db \<Rightarrow> db" where
  "find_call eid (CallRecord stamp st sev msg rule ev) s = snd (record_finding_tool stamp eid st sev msg rule ev s)"
| "find_call eid _ s = s"

fun reflect_call :: "uuid \<Rightarrow> audit_call \<Rightarrow> db \<Rightarrow> db" where
  "reflect_call eid (CallRecord stamp st sev msg rule ev) s = snd (record_finding_tool stamp eid st sev msg rule ev s)"
| "reflect_call eid (CallDelete i) s = snd (delete_finding_tool eid i s)"
| "reflect_call eid (CallVerdict _ _ _) s = s"

fun verdict_call :: "uuid \<Rightarrow> ustr \<Rightarrow> uuid \<Rightarrow> audit_call \<Rightarrow> db \<Rightarrow> db" where
  "verdict_call eid dk doc (CallVerdict now v r) s = snd (set_verdict_tool now eid (Some dk) (Some doc) v r s)"
| "verdict_call eid dk doc _ s = s"

definition find_node :: "uuid \<Rightarrow> phase \<Rightarrow> db \<Rightarrow> ending \<times> db" where
  "find_node eid ph s = (snd ph, fold (find_call eid) (fst ph) (audit_clear eid s))"

definition reflect_node :: "uuid \<Rightarrow> phase \<Rightarrow> db \<Rightarrow> ending \<times> db" where
  "reflect_node eid ph s = (snd ph, fold (reflect_call eid) (fst ph) s)"

definition verdict_node :: "uuid \<Rightarrow> ustr \<Rightarrow> uuid \<Rightarrow> phase \<Rightarrow> db \<Rightarrow> ending \<times> db" where
  "verdict_node eid dk doc ph s = (snd ph, fold (verdict_call eid dk doc) (fst ph) s)"

definition audit_graph :: "uuid \<Rightarrow> ustr \<Rightarrow> uuid \<Rightarrow> phase \<times> phase \<times> phase \<Rightarrow> db \<Rightarrow> ending \<times> db" where
  "audit_graph eid dk doc phases s =
     (case phases of (p1, p2, p3) \<Rightarrow>
        (case find_node eid p1 s of
           (Ends, s1) \<Rightarrow> (case reflect_node eid p2 s1 of
              (Ends, s2) \<Rightarrow> verdict_node eid dk doc p3 s2
            | r \<Rightarrow> r)
         | r \<Rightarrow> r))"

subsection \<open>The task\<close>

definition run_audit ::
  "unicode \<Rightarrow> (meta_error \<Rightarrow> ustr) \<Rightarrow> saver_reads \<Rightarrow> utc \<Rightarrow> time \<times> time \<Rightarrow> uuid \<Rightarrow> uuid \<Rightarrow> ustr \<Rightarrow> ustr
   \<Rightarrow> phase \<times> phase \<times> phase \<Rightarrow> db \<Rightarrow> task_end \<times> db" where
  "run_audit U str_of latest deadline now doc eid thread dk phases s =
     (case audit_graph eid dk doc phases (mark_running (fst now) eid s) of
        (Ends, s1) \<Rightarrow>
          (let output = JObj [(lit ''document_id'', JStr (uuid_str doc)), (lit ''dossier_key'', JStr dk),
                 (lit ''verdict'', jopt (map_option v_verdict (get_verdict eid s1))),
                 (lit ''finding_count'', JInt (int (length (list_findings eid s1))))]
           in succeed_run U str_of latest deadline (snd now) eid thread output s1)
      | (EndsTimeout, s1) \<Rightarrow> fail_run U (latest 0) deadline (snd now) eid thread (lit ''audit timed out'') RaisedTimeout s1
      | (EndsRaise e, s1) \<Rightarrow> fail_run U (latest 0) deadline (snd now) eid thread e (RaisedError e) s1)"

subsection \<open>Trigger and router\<close>

record audit_args =
  aa_document :: uuid
  aa_execution :: uuid
  aa_mining :: uuid
  aa_thread :: ustr
  aa_dossier :: ustr
  aa_language :: ustr

text \<open>\<open>None\<close>: enqueuing raised, after the row was created.\<close>

definition enqueue_audit ::
  "time \<Rightarrow> uuid \<Rightarrow> ustr \<Rightarrow> (audit_args \<Rightarrow> bool) \<Rightarrow> uuid \<Rightarrow> uuid \<Rightarrow> ustr \<Rightarrow> ustr \<Rightarrow> db \<Rightarrow> uuid option \<times> db" where
  "enqueue_audit now eid thread kiq doc mining dk language s =
     (let (i, s1) = run_create now eid (lit ''audit'') (lit ''document'') doc
            \<lparr>wi_document_id = doc, wi_dossier_key = JStr dk, wi_annotate_reflect = JBool False, wi_version = input_version\<rparr>
            (queued_metadata None thread) s
      in (if kiq \<lparr>aa_document = doc, aa_execution = i, aa_mining = mining, aa_thread = thread, aa_dossier = dk, aa_language = language\<rparr>
          then Some i else None, s1))"

record submit_audit =
  sa_document :: uuid
  sa_dossier :: ustr
  sa_mining :: uuid
  sa_language :: ustr

record audit_job =
  aj_execution :: uuid
  aj_mining :: uuid
  aj_document :: uuid
  aj_dossier :: ustr

definition post_audit :: "time \<Rightarrow> uuid \<Rightarrow> ustr \<Rightarrow> (audit_args \<Rightarrow> bool) \<Rightarrow> submit_audit \<Rightarrow> db \<Rightarrow> audit_job http \<times> db" where
  "post_audit now eid thread kiq body s =
     (case enqueue_audit now eid thread kiq (sa_document body) (sa_mining body) (sa_dossier body) (sa_language body) s of
        (None, s1) \<Rightarrow> (HttpError 500, s1)
      | (Some i, s1) \<Rightarrow> (Response 201 \<lparr>aj_execution = i, aj_mining = sa_mining body, aj_document = sa_document body,
                           aj_dossier = sa_dossier body\<rparr>, s1))"

definition list_audits :: "int \<Rightarrow> int \<Rightarrow> db \<Rightarrow> list_item page http" where
  "list_audits limit off s = list_items (Some (lit ''audit'')) limit off s"

record audit_report =
  ap_execution :: uuid
  ap_status :: ustr
  ap_verdict :: "ustr option"
  ap_rationale :: "ustr option"
  ap_findings :: "(ustr option \<times> ustr \<times> ustr \<times> ustr \<times> json) list"

definition get_report :: "unicode \<Rightarrow> uuid \<Rightarrow> db \<Rightarrow> audit_report http" where
  "get_report U eid s = (case run_get U eid s of
     Inl RunNotFound \<Rightarrow> HttpError 404
   | Inl (RunBlob _) \<Rightarrow> HttpError 500
   | Inr rec \<Rightarrow> Response 200 \<lparr>ap_execution = eid, ap_status = status_name (er_status rec),
       ap_verdict = map_option v_verdict (get_verdict eid s), ap_rationale = Option.bind (get_verdict eid s) v_rationale,
       ap_findings = map (\<lambda>f. (f_rule_key f, f_severity f, f_status f, f_message f, f_evidence f)) (list_findings eid s)\<rparr>)"

subsection \<open>Lemmas\<close>

interpretation verdict: keyed_upsert v_execution_id v_execution_id put_verdict verdict_key
  "\<lambda>(now, eid, dk, doc, v, r) x. v_verdict x = v \<and> v_rationale x = r \<and> v_dossier_key x = dk \<and> v_document_id x = doc"
  by (rule keyed_upsert_upsert [where f = verdict_set and new = verdict_new])
    (auto simp: put_verdict_def verdict_set_def verdict_new_def verdict_key_def)

text \<open>What an operation of one audit run leaves alone.\<close>

definition audit_frame :: "uuid \<Rightarrow> db \<Rightarrow> db \<Rightarrow> bool" where
  "audit_frame eid s t \<longleftrightarrow> media t = media s \<and> documents t = documents s \<and> parts t = parts s \<and> results t = results s
     \<and> executions t = executions s
     \<and> filter (\<lambda>f. f_execution_id f \<noteq> eid) (findings t) = filter (\<lambda>f. f_execution_id f \<noteq> eid) (findings s)
     \<and> filter (\<lambda>v. v_execution_id v \<noteq> eid) (verdicts t) = filter (\<lambda>v. v_execution_id v \<noteq> eid) (verdicts s)"

lemma audit_frame_refl [simp, intro]: "audit_frame eid s s"
  by (simp add: audit_frame_def)

lemma audit_frame_trans: "\<lbrakk>audit_frame eid s t; audit_frame eid t u\<rbrakk> \<Longrightarrow> audit_frame eid s u"
  by (simp add: audit_frame_def)

lemma audit_frame_fold:
  assumes "\<And>c s. audit_frame eid s (g c s)"
  shows "audit_frame eid s (fold g cs s)"
  by (induction cs arbitrary: s) (use assms audit_frame_trans in \<open>auto, blast\<close>)

lemma audit_frame_ids: "audit_frame eid s t \<Longrightarrow> execution_ids t = execution_ids s \<and> document_ids t = document_ids s"
  by (simp add: audit_frame_def execution_ids_def document_ids_def)

lemma record_frame: "audit_frame eid s (snd (record_finding_tool stamp eid st sev msg rule ev s))"
  by (simp add: audit_frame_def record_finding_tool_def record_finding_def Let_def split: sum.split)

lemma delete_frame: "audit_frame eid s (snd (delete_finding_tool eid i s))"
  by (auto simp: audit_frame_def delete_finding_tool_def delete_finding_def Let_def split: option.split intro!: filter_cong)

lemma set_verdict_frame: "audit_frame eid s (snd (set_verdict now eid v dk doc r s))"
  using verdict.put_frame [of "(now, eid, dk, doc, v, r)" "verdicts s"]
  by (simp add: audit_frame_def set_verdict_def split_beta verdict_key_def)

lemma verdict_frame: "audit_frame eid s (snd (set_verdict_tool now eid dk doc v r s))"
  using set_verdict_frame [of eid s now v dk doc "Some r"]
  by (auto simp: set_verdict_tool_def split: sum.split prod.split)

lemma find_call_frame: "audit_frame eid s (find_call eid c s)"
  by (cases c) (simp_all add: record_frame)

lemma reflect_call_frame: "audit_frame eid s (reflect_call eid c s)"
  by (cases c) (simp_all add: record_frame delete_frame)

lemma verdict_call_frame: "audit_frame eid s (verdict_call eid dk doc c s)"
  by (cases c) (simp_all add: verdict_frame)

lemma clear_frame: "audit_frame eid s (audit_clear eid s)"
  by (simp add: audit_frame_def audit_clear_def)

lemmas call_frames = find_call_frame reflect_call_frame verdict_call_frame clear_frame

lemma find_node_frame: "audit_frame eid s (snd (find_node eid ph s))"
  using audit_frame_fold [of eid "find_call eid" "audit_clear eid s"] call_frames audit_frame_trans
  by (simp add: find_node_def) blast

lemma reflect_node_frame: "audit_frame eid s (snd (reflect_node eid ph s))"
  by (simp add: reflect_node_def audit_frame_fold call_frames)

lemma verdict_node_frame: "audit_frame eid s (snd (verdict_node eid dk doc ph s))"
  by (simp add: verdict_node_def audit_frame_fold call_frames)

lemma audit_graph_frame: "audit_frame eid s (snd (audit_graph eid dk doc phases s))"
proof -
  obtain p1 p2 p3 where p: "phases = (p1, p2, p3)" by (cases phases)
  obtain e1 s1 where 1: "find_node eid p1 s = (e1, s1)" by fastforce
  obtain e2 s2 where 2: "reflect_node eid p2 s1 = (e2, s2)" by fastforce
  have f: "audit_frame eid s s1" "audit_frame eid s1 s2"
    using find_node_frame [of eid s p1] reflect_node_frame [of eid s1 p2] by (simp_all add: 1 2)
  have "audit_frame eid s s2" using f by (rule audit_frame_trans)
  moreover from this have "audit_frame eid s (snd (verdict_node eid dk doc p3 s2))"
    using verdict_node_frame by (rule audit_frame_trans)
  ultimately show ?thesis
    using f by (cases e1; cases e2) (simp_all add: audit_graph_def p 1 2)
qed

text \<open>The output of a run whose graph has ended, and what the handlers store and raise otherwise.\<close>

definition audit_output :: "uuid \<Rightarrow> uuid \<Rightarrow> ustr \<Rightarrow> db \<Rightarrow> json" where
  "audit_output doc eid dk s = JObj [(lit ''document_id'', JStr (uuid_str doc)), (lit ''dossier_key'', JStr dk),
     (lit ''verdict'', jopt (map_option v_verdict (get_verdict eid s))), (lit ''finding_count'', JInt (int (length (list_findings eid s))))]"

fun audit_failure :: "ending \<Rightarrow> (ustr \<times> task_end) option" where
  "audit_failure Ends = None"
| "audit_failure EndsTimeout = Some (lit ''audit timed out'', RaisedTimeout)"
| "audit_failure (EndsRaise e) = Some (e, RaisedError e)"

lemma run_audit_ends:
  assumes "audit_graph eid dk doc phases (mark_running (fst now) eid s) = (e, s1)"
  shows "run_audit U str_of latest deadline now doc eid thread dk phases s = (case audit_failure e of
     None \<Rightarrow> succeed_run U str_of latest deadline (snd now) eid thread (audit_output doc eid dk s1) s1
   | Some (err, exc) \<Rightarrow> fail_run U (latest 0) deadline (snd now) eid thread err exc s1)"
  by (cases e) (simp_all add: run_audit_def assms audit_output_def)

lemma list_findings_frame: "\<lbrakk>audit_frame eid s t; i \<noteq> eid\<rbrakk> \<Longrightarrow> list_findings i t = list_findings i s"
  using filter_key_other [of i eid f_execution_id "findings s"] filter_key_other [of i eid f_execution_id "findings t"]
  by (simp add: list_findings_def audit_frame_def)

lemma get_verdict_frame: "\<lbrakk>audit_frame eid s t; i \<noteq> eid\<rbrakk> \<Longrightarrow> get_verdict i t = get_verdict i s"
  using find_key_other [of i eid v_execution_id "verdicts s"] find_key_other [of i eid v_execution_id "verdicts t"]
  by (simp add: get_verdict_def audit_frame_def)

text \<open>The row a valid call of the finding tool records, and the verdict the calls of a phase leave.\<close>

fun recorded :: "uuid \<Rightarrow> audit_call \<Rightarrow> finding_row option" where
  "recorded eid (CallRecord stamp st sev msg rule ev) =
     (if st \<in> set finding_statuses \<and> py_strip msg \<noteq> []
      then Some \<lparr>f_id = snd stamp, f_execution_id = eid, f_rule_key = rule, f_severity = sev, f_status = st, f_message = msg,
                 f_evidence = JList (case ev of None \<Rightarrow> [] | Some es \<Rightarrow> es), f_created = fst stamp\<rparr>
      else None)"
| "recorded eid _ = None"

fun last_verdict :: "audit_call list \<Rightarrow> (ustr \<times> ustr) option \<Rightarrow> (ustr \<times> ustr) option" where
  "last_verdict [] acc = acc"
| "last_verdict (CallVerdict now v r # cs) acc = last_verdict cs (if v \<in> set verdict_values then Some (v, r) else acc)"
| "last_verdict (_ # cs) acc = last_verdict cs acc"

lemma py_strip_Nil [simp]: "py_strip [] = []"
  by (simp add: py_strip_def)

lemma recorded_cases: "recorded eid c = None \<and> find_call eid c s = s
  \<or> (\<exists>f. recorded eid c = Some f \<and> (eid \<in> execution_ids s \<longrightarrow> findings (find_call eid c s) = findings s @ [f]))"
  by (cases c) (auto simp: record_finding_tool_def record_finding_def Let_def)

lemma recorded_eid: "recorded eid c = Some f \<Longrightarrow> f_execution_id f = eid"
  by (cases c) (auto split: if_splits)

lemma find_calls_record:
  "eid \<in> execution_ids s \<Longrightarrow>
   findings (fold (find_call eid) cs s) = findings s @ List.map_filter (recorded eid) cs"
proof (induction cs arbitrary: s)
  case (Cons c cs)
  have "eid \<in> execution_ids (find_call eid c s)"
    using Cons.prems audit_frame_ids [OF find_call_frame [of eid s c]] by simp
  from Cons.IH [OF this] show ?case
    using recorded_cases [of eid c s] Cons.prems by (auto simp: List.map_filter_simps)
qed (simp add: List.map_filter_simps)

lemma get_put_verdict:
  "find (\<lambda>x. v_execution_id x = eid) (snd (put_verdict (now, eid, dk, doc, v, r) vs)) = Some (fst (put_verdict (now, eid, dk, doc, v, r) vs))"
proof (cases "find (\<lambda>x. v_execution_id x = eid) vs")
  case None
  then show ?thesis by (simp add: put_verdict_def upsert_def verdict_key_def verdict_new_def find_append)
next
  case (Some x)
  then have "find (\<lambda>x. v_execution_id x = eid) (upd_where (\<lambda>x. v_execution_id x = eid) (verdict_set (now, eid, dk, doc, v, r)) vs)
      = Some (verdict_set (now, eid, dk, doc, v, r) x)"
    using find_Some_in [OF Some] by (subst find_upd_where) (simp_all add: verdict_set_def)
  with Some show ?thesis by (simp add: put_verdict_def upsert_def verdict_key_def)
qed

definition verdict_pair :: "uuid \<Rightarrow> db \<Rightarrow> (ustr \<times> ustr option) option" where
  "verdict_pair eid s = map_option (\<lambda>v. (v_verdict v, v_rationale v)) (get_verdict eid s)"

lemma verdict_calls_last:
  assumes "eid \<in> execution_ids s" "doc \<in> document_ids s" "verdict_pair eid s = map_option (\<lambda>(v, r). (v, Some r)) acc"
  shows "verdict_pair eid (fold (verdict_call eid dk doc) cs s) = map_option (\<lambda>(v, r). (v, Some r)) (last_verdict cs acc)"
  using assms
proof (induction cs acc arbitrary: s rule: last_verdict.induct)
  case (2 now v r cs acc)
  let ?t = "verdict_call eid dk doc (CallVerdict now v r) s"
  have ids: "eid \<in> execution_ids ?t" "doc \<in> document_ids ?t"
    using 2 audit_frame_ids [OF verdict_call_frame [of eid s dk doc "CallVerdict now v r"]] by auto
  have "verdict_pair eid ?t = map_option (\<lambda>(v, r). (v, Some r)) (if v \<in> set verdict_values then Some (v, r) else acc)"
  proof (cases "v \<in> set verdict_values")
    case True
    have "get_verdict eid ?t = Some (fst (put_verdict (now, eid, Some dk, Some doc, v, Some r) (verdicts s)))"
      using 2 True get_put_verdict by (simp add: set_verdict_tool_def set_verdict_def split_beta get_verdict_def)
    with True show ?thesis
      using verdict.put_row [of "(now, eid, Some dk, Some doc, v, Some r)" "verdicts s"] by (simp add: verdict_pair_def)
  next
    case False
    then show ?thesis using 2 by (simp add: set_verdict_tool_def)
  qed
  from "2.IH" [OF ids this] show ?case by simp
qed simp_all

subsection \<open>Properties\<close>

text \<open>
  C2.  An audit run is isolated, and settles unless the checkpointer fails.  Whatever tool calls its agents
  make and however they end, it changes no blob, document, part or result, no other execution,
  and no finding or verdict of another run.  When its graph ends normally and the checkpoint
  can be read, its row is succeeded with the returned output.  When the graph is cut off or raises, or
  only the first read of the checkpoint fails, the row is failed with that error and the task raises it.  But a
  handler that cannot read the checkpoint raises the checkpointer's error instead, and the row stays running.
\<close>

theorem audit_isolated:
  assumes "run_get U eid s = Inr rec" and "run_audit U str_of latest deadline now doc eid thread dk phases s = (out, t)"
    and "audit_graph eid dk doc phases (mark_running (fst now) eid s) = (e, s1)"
  shows "media t = media s \<and> documents t = documents s \<and> parts t = parts s \<and> results t = results s
    \<and> (\<forall>i. i \<noteq> eid \<longrightarrow> run_row i t = run_row i s \<and> list_findings i t = list_findings i s \<and> get_verdict i t = get_verdict i s)
    \<and> (case audit_failure e of
         None \<Rightarrow> (case (latest 0 thread, latest 1 thread) of
             (Inr _, _) \<Rightarrow> out = Returned (audit_output doc eid dk s1) \<and> succeeded_with eid (audit_output doc eid dk s1) t
           | (Inl x, Inr _) \<Rightarrow> out = RaisedMeta (MetaCheckpoint x) \<and> failed_with eid (str_of (MetaCheckpoint x)) t
           | (Inl _, Inl y) \<Rightarrow> out = RaisedMeta (MetaCheckpoint y) \<and> run_is eid Running t)
       | Some (err, exc) \<Rightarrow> (case latest 0 thread of
             Inr _ \<Rightarrow> out = exc \<and> failed_with eid err t
           | Inl x \<Rightarrow> out = RaisedMeta (MetaCheckpoint x) \<and> run_is eid Running t))"
proof -
  let ?m = "mark_running (fst now) eid s"
  have f: "audit_frame eid ?m s1" using audit_graph_frame [of eid ?m dk doc phases] assms(3) by simp
  have m: "only_run eid s ?m" by blast
  note run = assms(2) [unfolded run_audit_ends [OF assms(3)]]
  have "t = snd (case audit_failure e of
      None \<Rightarrow> succeed_run U str_of latest deadline (snd now) eid thread (audit_output doc eid dk s1) s1
    | Some (err, exc) \<Rightarrow> fail_run U (latest 0) deadline (snd now) eid thread err exc s1)" using run by simp
  then have o': "only_run eid s1 t" by (auto split: option.split prod.split)
  have other: "run_row i t = run_row i s \<and> list_findings i t = list_findings i s \<and> get_verdict i t = get_verdict i s" if "i \<noteq> eid" for i
  proof -
    have "run_row i s1 = run_row i ?m" using f by (simp add: run_row_def audit_frame_def)
    then show ?thesis
      using that m o' list_findings_frame [OF f that] get_verdict_frame [OF f that]
      by (simp add: only_run_def list_findings_def get_verdict_def)
  qed
  have ex: "executions s1 = executions ?m" using f by (simp add: audit_frame_def)
  obtain rec1 where "run_get U eid ?m = Inr rec1" using run_get_running [OF assms(1)] by blast
  then have r1: "run_get U eid s1 = Inr rec1" using run_get_cong [OF ex] by simp
  have running: "run_is eid Running s1" using run_is_running [OF assms(1)] run_is_cong [OF ex] by simp
  have "case audit_failure e of
         None \<Rightarrow> (case (latest 0 thread, latest 1 thread) of
             (Inr _, _) \<Rightarrow> out = Returned (audit_output doc eid dk s1) \<and> succeeded_with eid (audit_output doc eid dk s1) t
           | (Inl x, Inr _) \<Rightarrow> out = RaisedMeta (MetaCheckpoint x) \<and> failed_with eid (str_of (MetaCheckpoint x)) t
           | (Inl _, Inl y) \<Rightarrow> out = RaisedMeta (MetaCheckpoint y) \<and> run_is eid Running t)
       | Some (err, exc) \<Rightarrow> (case latest 0 thread of
             Inr _ \<Rightarrow> out = exc \<and> failed_with eid err t
           | Inl x \<Rightarrow> out = RaisedMeta (MetaCheckpoint x) \<and> run_is eid Running t)"
  proof (cases "audit_failure e")
    case None
    then have "succeed_run U str_of latest deadline (snd now) eid thread (audit_output doc eid dk s1) s1 = (out, t)" using run by simp
    from succeed_run_ok [OF r1 this] show ?thesis using running None by (auto split: sum.splits)
  next
    case (Some a)
    then have "fail_run U (latest 0) deadline (snd now) eid thread (fst a) (snd a) s1 = (out, t)" using run by (simp add: split_beta)
    from fail_run_ok [OF r1 this] show ?thesis using running Some by (auto split: sum.splits prod.splits)
  qed
  then show ?thesis using f m o' other by (simp add: only_run_def audit_frame_def)
qed

definition demo_audit_row :: execution_row where
  "demo_audit_row = \<lparr>e_id = 5, e_workflow = lit ''audit'', e_entity_type = lit ''document'', e_entity_id = 1, e_status = Queued,
     e_input = input_to_json (submit_input demo_submit), e_result = None,
     e_metadata = metadata_to_json (queued_metadata None [116]), e_started = None, e_finished = None, e_created = 0, e_updated = 0\<rparr>"

definition demo_audit_db :: db where
  "demo_audit_db = empty_db\<lparr>executions := [demo_audit_row],
     findings := [\<lparr>f_id = 1, f_execution_id = 4, f_rule_key = None, f_severity = [], f_status = lit ''pass'', f_message = [65],
                   f_evidence = JList [], f_created = 0\<rparr>,
                  \<lparr>f_id = 2, f_execution_id = 5, f_rule_key = None, f_severity = [], f_status = lit ''fail'', f_message = [66],
                   f_evidence = JList [], f_created = 0\<rparr>]\<rparr>"

lemma demo_audit_get: "\<exists>rec. run_get ascii_unicode 5 demo_audit_db = Inr rec"
  using submit_input_readable [of ascii_unicode demo_submit] queued_readable [of ascii_unicode None "[116]"] unicode_ok_ascii
  by (simp add: run_get_def demo_audit_db_def demo_audit_row_def execution_from_row_def uuid_ok_def demo_submit_def)

text \<open>
  A timed-out audit that recorded one finding: run 4 keeps its finding; run 5 fails, or is left running when the
  checkpoint cannot be read.
\<close>

theorem audit_isolated_witness:
  "let run = (\<lambda>latest. run_audit ascii_unicode (\<lambda>_. []) (\<lambda>_ _. latest) demo_deadline (7, 8) 1 5 [116] [100]
        (([CallRecord (7, 9) (lit ''fail'') [] [67] None None], EndsTimeout), ([], Ends), ([], Ends)) demo_audit_db)
   in list_findings 4 (snd (run (Inr None))) = list_findings 4 demo_audit_db
      \<and> fst (run (Inr None)) = RaisedTimeout \<and> failed_with 5 (lit ''audit timed out'') (snd (run (Inr None)))
      \<and> fst (run (Inl [69])) = RaisedMeta (MetaCheckpoint [69]) \<and> run_is 5 Running (snd (run (Inl [69])))"
proof -
  let ?ph = "(([CallRecord (7, 9) (lit ''fail'') [] [67] None None], EndsTimeout), ([], Ends), ([], Ends))"
  obtain rec where r: "run_get ascii_unicode 5 demo_audit_db = Inr rec" using demo_audit_get by blast
  have "fst (audit_graph 5 [100] 1 ?ph (mark_running 7 5 demo_audit_db)) = EndsTimeout"
    by (simp add: audit_graph_def find_node_def)
  then obtain s1 where g: "audit_graph 5 [100] 1 ?ph (mark_running (fst (7 :: time, 8 :: time)) 5 demo_audit_db) = (EndsTimeout, s1)"
    by (metis fst_conv prod.collapse)
  note run = audit_isolated [OF r surjective_pairing g, of "\<lambda>_. []" "\<lambda>_ _. latest" demo_deadline "[116]" for latest]
  show ?thesis
    using run [of "Inr None"] run [of "Inl [69]"] by (simp add: Let_def)
qed

text \<open>
  C7.  An audit starts clean and its verdict is the last one given.  After the find phase the
  findings of the run are exactly those its valid tool calls recorded, in order, and nothing an
  earlier attempt left; and when the graph ends normally the verdict on record is the last
  valid one of the verdict phase, and there is none when that phase set none.
\<close>

theorem audit_retry_clean:
  assumes "eid \<in> execution_ids s" and "doc \<in> document_ids s"
  shows "filter (\<lambda>f. f_execution_id f = eid) (findings (snd (find_node eid p1 s))) = List.map_filter (recorded eid) (fst p1)
    \<and> get_verdict eid (snd (find_node eid p1 s)) = None
    \<and> (fst (audit_graph eid dk doc (p1, p2, p3) s) = Ends \<longrightarrow>
        verdict_pair eid (snd (audit_graph eid dk doc (p1, p2, p3) s))
          = map_option (\<lambda>(v, r). (v, Some r)) (last_verdict (fst p3) None))"
proof -
  let ?s1 = "snd (find_node eid p1 s)" and ?s2 = "snd (reflect_node eid p2 (snd (find_node eid p1 s)))"
  have ids0: "eid \<in> execution_ids (audit_clear eid s)" using assms(1) by (simp add: audit_clear_def execution_ids_def)
  have "set (List.map_filter (recorded eid) (fst p1)) \<subseteq> {f. f_execution_id f = eid}"
    using recorded_eid by (auto simp: set_map_filter)
  then have "filter (\<lambda>f. f_execution_id f = eid) (List.map_filter (recorded eid) (fst p1)) = List.map_filter (recorded eid) (fst p1)"
    by (auto simp: filter_id_conv)
  then have 1: "filter (\<lambda>f. f_execution_id f = eid) (findings ?s1) = List.map_filter (recorded eid) (fst p1)"
    using find_calls_record [OF ids0, of "fst p1"] by (simp add: find_node_def audit_clear_def)
  have nv: "verdicts (fold (find_call eid) cs u) = verdicts u" for cs u
  proof (induction cs arbitrary: u)
    case (Cons c cs)
    have "verdicts (find_call eid c u) = verdicts u"
      by (cases c) (simp_all add: record_finding_tool_def record_finding_def Let_def split: sum.split)
    with Cons show ?case by simp
  qed simp
  have nr: "verdicts (fold (reflect_call eid) cs u) = verdicts u" for cs u
  proof (induction cs arbitrary: u)
    case (Cons c cs)
    have "verdicts (reflect_call eid c u) = verdicts u"
      by (cases c) (simp_all add: record_finding_tool_def record_finding_def delete_finding_tool_def delete_finding_def Let_def
          split: sum.split option.split)
    with Cons show ?case by simp
  qed simp
  have 2: "get_verdict eid ?s1 = None"
    by (simp add: find_node_def get_verdict_def nv audit_clear_def find_None_set)
  have v2: "verdict_pair eid ?s2 = None" using 2 by (simp add: verdict_pair_def get_verdict_def reflect_node_def nr)
  have f2: "audit_frame eid s ?s2" using find_node_frame reflect_node_frame by (rule audit_frame_trans)
  have ids2: "eid \<in> execution_ids ?s2" "doc \<in> document_ids ?s2" using assms audit_frame_ids [OF f2] by auto
  have "verdict_pair eid (snd (audit_graph eid dk doc (p1, p2, p3) s)) = map_option (\<lambda>(v, r). (v, Some r)) (last_verdict (fst p3) None)"
    if "fst (audit_graph eid dk doc (p1, p2, p3) s) = Ends"
    using that verdict_calls_last [OF ids2, of None dk "fst p3"] v2
    by (auto simp: audit_graph_def verdict_node_def split: prod.splits ending.splits)
  with 1 2 show ?thesis by simp
qed

text \<open>A retry of run 5: the finding the first attempt left is gone, the invalid call adds none.\<close>

theorem audit_retry_clean_witness:
  "map f_id (filter (\<lambda>f. f_execution_id f = 5) (findings (snd (find_node 5
      ([CallRecord (7, 9) (lit ''fail'') [] [67] None None, CallRecord (7, 10) (lit ''bad'') [] [67] None None], Ends)
      (demo_audit_db\<lparr>documents := documents (wdb one_doc)\<rparr>))))) = [9]"
proof -
  have ids: "5 \<in> execution_ids (demo_audit_db\<lparr>documents := documents (wdb one_doc)\<rparr>)"
    "1 \<in> document_ids (demo_audit_db\<lparr>documents := documents (wdb one_doc)\<rparr>)"
    by (simp_all add: execution_ids_def document_ids_def demo_audit_db_def demo_audit_row_def one_doc_wdb one_row_def)
  show ?thesis
    by (subst audit_retry_clean [OF ids, of _ "[]" "([], Ends)" "([], Ends)", THEN conjunct1])
      (simp add: List.map_filter_simps finding_statuses_def lit_def py_strip_def py_space_def)
qed

end
