(* ===== verification/Base64.thy ===== *)
theory Base64
  imports Mime
begin

section \<open>Base64\<close>

text \<open>
  The encoding of the standard library, with which \<open>doci/activities/_vision.py\<close> and
  \<open>doci/tools/get_page_image.py\<close> hand images to a model, and a decoder for it.
\<close>

subsection \<open>Encoding and decoding\<close>

definition b64_char :: "nat \<Rightarrow> nat" where
  "b64_char v = (if v < 26 then v + 65 else if v < 52 then v + 71 else if v < 62 then v - 4 else if v = 62 then 43 else 47)"

text \<open>\<open>base64.b64encode\<close>, also \<open>standard_b64encode\<close>: three bytes become four characters, the rest is padded.\<close>

fun b64encode :: "byte list \<Rightarrow> ustr" where
  "b64encode (a # b # c # s) =
     (let n = unat a * 65536 + unat b * 256 + unat c
      in b64_char (n div 262144) # b64_char (n div 4096 mod 64) # b64_char (n div 64 mod 64) # b64_char (n mod 64) # b64encode s)"
| "b64encode [a, b] =
     (let n = unat a * 1024 + unat b * 4
      in [b64_char (n div 4096), b64_char (n div 64 mod 64), b64_char (n mod 64), 61])"
| "b64encode [a] = (let n = unat a * 16 in [b64_char (n div 64), b64_char (n mod 64), 61, 61])"
| "b64encode [] = []"

text \<open>A decoder as RFC 4648 describes it: characters to sextets, sextets to bytes.\<close>

definition b64_value :: "nat \<Rightarrow> nat" where
  "b64_value c = (if 97 \<le> c then c - 71 else if 65 \<le> c then c - 65 else if c = 61 then 0 else if 48 \<le> c then c + 4 else if c = 43 then 62 else 63)"

fun b64_decode :: "ustr \<Rightarrow> byte list option" where
  "b64_decode [] = Some []"
| "b64_decode (p # q # r # s # rest) =
     (let n = b64_value p * 262144 + b64_value q * 4096 + b64_value r * 64 + b64_value s
      in if s \<noteq> 61 then map_option (\<lambda>t. of_nat (n div 65536) # of_nat (n div 256 mod 256) # of_nat (n mod 256) # t) (b64_decode rest)
         else if rest \<noteq> [] then None
         else if r \<noteq> 61 then Some [of_nat (n div 65536), of_nat (n div 256 mod 256)]
         else Some [of_nat (n div 65536)])"
| "b64_decode _ = None"

lemma b64_value_char: "v < 64 \<Longrightarrow> b64_value (b64_char v) = v"
  by (auto simp: b64_value_def b64_char_def)

lemma b64_char_pad: "v < 64 \<Longrightarrow> b64_char v \<noteq> 61"
  by (auto simp: b64_char_def)

lemma b64_value_pad: "b64_value 61 = 0"
  by (simp add: b64_value_def)

lemma byte_bound: "unat (a :: byte) < 256"
proof -
  have "unat a < 2 ^ LENGTH(8)" by (rule unsigned_less)
  then show ?thesis by simp
qed

lemma sextets:
  fixes n :: nat
  shows "(n div 4096) * 4096 + (n div 64 mod 64) * 64 + n mod 64 = n"
    and "(n div 262144) * 262144 + (n div 4096 mod 64) * 4096 + (n div 64 mod 64) * 64 + n mod 64 = n"
proof -
  have "n div 4096 = n div 64 div 64" "n div 262144 = n div 4096 div 64" by (simp_all add: div_mult2_eq [symmetric])
  then show three: "(n div 4096) * 4096 + (n div 64 mod 64) * 64 + n mod 64 = n"
    using div_mult_mod_eq [of "n div 64" 64] div_mult_mod_eq [of n 64] by linarith
  show "(n div 262144) * 262144 + (n div 4096 mod 64) * 4096 + (n div 64 mod 64) * 64 + n mod 64 = n"
    using three div_mult_mod_eq [of "n div 4096" 64] \<open>n div 262144 = n div 4096 div 64\<close> by linarith
qed

lemma octets:
  fixes a b c :: nat
  assumes "a < 256" and "b < 256" and "c < 256"
  shows "(a * 65536 + b * 256 + c) div 65536 = a" "(a * 65536 + b * 256 + c) div 256 mod 256 = b" "(a * 65536 + b * 256 + c) mod 256 = c"
proof -
  have e: "a * 65536 + b * 256 + c = (a * 256 + b) * 256 + c" by simp
  have "(a * 256 + b) * 256 + c = a * 65536 + (b * 256 + c)" "b * 256 + c < 65536" using assms by simp_all
  then show "(a * 65536 + b * 256 + c) div 65536 = a" by (simp add: e)
  have q: "((a * 256 + b) * 256 + c) div 256 = a * 256 + b" using assms(3) by simp
  show "(a * 65536 + b * 256 + c) div 256 mod 256 = b" unfolding e q using assms(2) by simp
  show "(a * 65536 + b * 256 + c) mod 256 = c" unfolding e using assms(3) by (simp only: mod_mult_self3 mod_less)
qed

lemma b64_roundtrip: "b64_decode (b64encode s) = Some s \<and> length (b64encode s) = 4 * ((length s + 2) div 3)"
proof (induction s rule: b64encode.induct)
  case (1 a b c s)
  define n where "n = unat a * 65536 + unat b * 256 + unat c"
  note o = octets [OF byte_bound byte_bound byte_bound, of a b c, folded n_def]
  have n: "n div 262144 < 64" using byte_bound [of a] byte_bound [of b] byte_bound [of c] unfolding n_def by (intro less_mult_imp_div_less) linarith
  have enc: "b64encode (a # b # c # s) = b64_char (n div 262144) # b64_char (n div 4096 mod 64) # b64_char (n div 64 mod 64) # b64_char (n mod 64) # b64encode s"
    by (simp only: b64encode.simps Let_def n_def)
  have "b64_decode (b64encode (a # b # c # s)) = map_option (\<lambda>t. of_nat (n div 65536) # of_nat (n div 256 mod 256) # of_nat (n mod 256) # t) (b64_decode (b64encode s))"
    unfolding enc using n sextets(2) [of n] by (simp add: Let_def b64_value_char b64_char_pad)
  moreover have "length (b64encode (a # b # c # s)) = 4 + length (b64encode s)" unfolding enc by simp
  moreover have "4 + 4 * ((length s + 2) div 3) = 4 * ((length (a # b # c # s) + 2) div 3)" unfolding list.size by presburger
  ultimately show ?case using 1 [OF refl] by (simp add: o del: b64encode.simps)
next
  case (2 a b)
  define n where "n = unat a * 1024 + unat b * 4"
  note o = octets(1,2) [OF byte_bound byte_bound, of 0 a b]
  have n: "n div 4096 < 64" using byte_bound [of a] byte_bound [of b] unfolding n_def by (intro less_mult_imp_div_less) linarith
  have m: "(n div 4096) * 262144 + (n div 64 mod 64) * 4096 + (n mod 64) * 64 = unat a * 65536 + unat b * 256 + 0"
    using sextets(1) [of n] unfolding n_def by linarith
  have enc: "b64encode [a, b] = [b64_char (n div 4096), b64_char (n div 64 mod 64), b64_char (n mod 64), 61]"
    by (simp only: b64encode.simps Let_def n_def)
  have "b64_decode (b64encode [a, b]) = Some [of_nat ((unat a * 65536 + unat b * 256 + 0) div 65536), of_nat ((unat a * 65536 + unat b * 256 + 0) div 256 mod 256)]"
    unfolding enc using n by (simp add: Let_def b64_value_char b64_char_pad b64_value_pad m del: add_0_right)
  moreover have "length (b64encode [a, b]) = 4" unfolding enc by simp
  ultimately show ?case using o by (simp del: b64encode.simps)
next
  case (3 a)
  define n where "n = unat a * 16"
  have n: "n div 64 < 64" using byte_bound [of a] unfolding n_def by (intro less_mult_imp_div_less) linarith
  have m: "((n div 64) * 262144 + (n mod 64) * 4096) div 65536 = unat a"
  proof -
    have "(n div 64) * 64 + n mod 64 = unat a * 16" using div_mult_mod_eq [of n 64] unfolding n_def .
    then have "(n div 64) * 262144 + (n mod 64) * 4096 = unat a * 65536" by linarith
    then show ?thesis by simp
  qed
  have enc: "b64encode [a] = [b64_char (n div 64), b64_char (n mod 64), 61, 61]"
    by (simp only: b64encode.simps Let_def n_def)
  show ?case unfolding enc using n m by (simp add: Let_def b64_value_char b64_char_pad b64_value_pad)
qed simp

end
