(* ===== verification/Results.thy ===== *)
theory Results
  imports Documents Blobs Base64
begin

section \<open>Workflow results and the page tools\<close>

text \<open>
  \<open>doci/results/service.py\<close> and \<open>models.py\<close>, \<open>activities/save_result_to_postgres.py\<close>, and the
  tools that read them: \<open>list_pages\<close>, \<open>find_document\<close>, \<open>collect_facts\<close>, \<open>get_page_annotation\<close>,
  \<open>get_page_text\<close>, \<open>get_page_image\<close>.  \<open>json.loads\<close> is the argument \<open>loads\<close> (\<open>None\<close>: it raises),
  and PostgreSQL's text of a JSON value that is not a string is \<open>jtext\<close>.
\<close>

subsection \<open>The service\<close>

definition kind_text :: "result_kind \<Rightarrow> ustr" where
  "kind_text k = lit (case k of Extract \<Rightarrow> ''extract.md'' | Annotation \<Rightarrow> ''annotation.json'')"

text \<open>\<open>ResultKind(kind)\<close>.\<close>

definition kind_of :: "ustr \<Rightarrow> result_kind option" where
  "kind_of s = find (\<lambda>k. kind_text k = s) [Extract, Annotation]"

definition is_json :: "result_kind \<Rightarrow> bool" where
  "is_json k = (let v = kind_text k; suffix = lit ''.json'' in
     length suffix \<le> length v \<and> drop (length v - length suffix) v = suffix)"

datatype result_error = UnknownKind | BadPayload | ResultOrphan

text \<open>The upsert; the tuple holds now, the fresh id, the key of the row and the content.\<close>

type_synonym result_put = "time \<times> uuid \<times> (uuid \<times> uuid \<times> result_kind) \<times> json"

definition result_key :: "result_row \<Rightarrow> uuid \<times> uuid \<times> result_kind" where
  "result_key r = (r_execution_id r, r_part_id r, r_kind r)"

definition put_key :: "result_put \<Rightarrow> uuid \<times> uuid \<times> result_kind" where
  "put_key = (\<lambda>(now, fresh, k, content). k)"

definition result_set :: "result_put \<Rightarrow> result_row \<Rightarrow> result_row" where
  "result_set = (\<lambda>(now, fresh, k, content) r. r\<lparr>r_content := content, r_updated := now\<rparr>)"

definition result_new :: "result_put \<Rightarrow> result_row" where
  "result_new = (\<lambda>(now, fresh, (e, p, k), content).
     \<lparr>r_id = fresh, r_execution_id = e, r_part_id = p, r_kind = k, r_content = content, r_created = now, r_updated = now\<rparr>)"

definition put_result :: "result_put \<Rightarrow> result_row list \<Rightarrow> result_row \<times> result_row list" where
  "put_result a rs = upsert (\<lambda>r. result_key r = put_key a) (result_set a) (result_new a) rs"

definition save_result ::
  "(ustr \<Rightarrow> json option) \<Rightarrow> time \<Rightarrow> uuid \<Rightarrow> uuid \<Rightarrow> uuid \<Rightarrow> ustr \<Rightarrow> ustr \<Rightarrow> db \<Rightarrow> (result_error + uuid) \<times> db" where
  "save_result loads now fresh eid part kind payload s =
     (case kind_of kind of
        None \<Rightarrow> (Inl UnknownKind, s)
      | Some k \<Rightarrow>
          (case (if is_json k then loads payload else Some (JObj [(lit ''result'', JStr payload)])) of
             None \<Rightarrow> (Inl BadPayload, s)
           | Some content \<Rightarrow>
               if eid \<notin> execution_ids s \<or> part \<notin> part_ids s then (Inl ResultOrphan, s)
               else let (r, rs) = put_result (now, fresh, (eid, part, k), content) (results s)
                    in (Inr (r_id r), s\<lparr>results := rs\<rparr>)))"

text \<open>\<open>SaveResultToPostgres\<close> returns the id as text.\<close>

definition save_result_to_postgres ::
  "(ustr \<Rightarrow> json option) \<Rightarrow> time \<Rightarrow> uuid \<Rightarrow> uuid \<Rightarrow> uuid \<Rightarrow> ustr \<Rightarrow> ustr \<Rightarrow> db \<Rightarrow> (result_error + ustr) \<times> db" where
  "save_result_to_postgres loads now fresh eid part kind payload s =
     (case save_result loads now fresh eid part kind payload s of
        (Inl e, t) \<Rightarrow> (Inl e, t)
      | (Inr i, t) \<Rightarrow> (Inr (uuid_str i), t))"

definition list_results :: "uuid \<Rightarrow> db \<Rightarrow> result_row list" where
  "list_results eid s = sort_key (\<lambda>r. (r_part_id r, kind_text (r_kind r))) (filter (\<lambda>r. r_execution_id r = eid) (results s))"

definition result_lookup :: "uuid \<Rightarrow> uuid \<Rightarrow> result_kind \<Rightarrow> db \<Rightarrow> result_row option" where
  "result_lookup eid part k s = find (\<lambda>r. result_key r = (eid, part, k)) (results s)"

definition result_get :: "uuid \<Rightarrow> uuid \<Rightarrow> ustr \<Rightarrow> db \<Rightarrow> result_error + result_row option" where
  "result_get eid part kind s = (case kind_of kind of
     None \<Rightarrow> Inl UnknownKind
   | Some k \<Rightarrow> Inr (result_lookup eid part k s))"

record page_ref =
  pr_part_id :: uuid
  pr_page_number :: "int option"
  pr_locator :: ustr
  pr_item_key :: "ustr option"
  pr_category :: "ustr option"

text \<open>\<open>content->>'k'\<close>.\<close>

definition json_text :: "(json \<Rightarrow> ustr) \<Rightarrow> json \<Rightarrow> string \<Rightarrow> ustr option" where
  "json_text jtext content k = (case jfield content (lit k) of
     None \<Rightarrow> None
   | Some JNull \<Rightarrow> None
   | Some (JStr s) \<Rightarrow> Some s
   | Some v \<Rightarrow> Some (jtext v))"

definition page_ref_of :: "(json \<Rightarrow> ustr) \<Rightarrow> result_row \<Rightarrow> part_row \<Rightarrow> page_ref" where
  "page_ref_of jtext r p = \<lparr>pr_part_id = p_id p, pr_page_number = p_page_number p, pr_locator = p_locator p,
     pr_item_key = json_text jtext (r_content r) ''item_key'', pr_category = json_text jtext (r_content r) ''category''\<rparr>"

definition page_index :: "(json \<Rightarrow> ustr) \<Rightarrow> uuid \<Rightarrow> db \<Rightarrow> page_ref list" where
  "page_index jtext eid s = map (\<lambda>(r, p). page_ref_of jtext r p)
     (sort_key (\<lambda>(r, p). part_order p)
        (List.map_filter (\<lambda>r. map_option (Pair r) (find (\<lambda>p. p_id p = r_part_id r) (parts s)))
           (filter (\<lambda>r. r_execution_id r = eid \<and> r_kind r = Annotation) (results s))))"

subsection \<open>The tools\<close>

text \<open>A page as a tool lists it: part, number, document type, category.\<close>

definition list_pages :: "(json \<Rightarrow> ustr) \<Rightarrow> uuid \<Rightarrow> db \<Rightarrow> (ustr \<times> int option \<times> ustr option \<times> ustr option) list tool_result" where
  "list_pages jtext eid s =
     ToolOk (map (\<lambda>p. (uuid_str (pr_part_id p), pr_page_number p, pr_item_key p, pr_category p)) (page_index jtext eid s))"

record found_document =
  fd_item_key :: ustr
  fd_present :: bool
  fd_classified :: "int option list"
  fd_span :: "(int \<times> int) option"
  fd_span_pages :: "(ustr \<times> int option \<times> ustr option) list"

definition in_span :: "int \<times> int \<Rightarrow> page_ref \<Rightarrow> bool" where
  "in_span = (\<lambda>(lo, hi) p. case pr_page_number p of None \<Rightarrow> False | Some n \<Rightarrow> lo \<le> n \<and> n \<le> hi)"

definition find_document :: "(json \<Rightarrow> ustr) \<Rightarrow> uuid \<Rightarrow> ustr \<Rightarrow> db \<Rightarrow> found_document tool_result" where
  "find_document jtext eid item_key s =
     (let pages = page_index jtext eid s;
          matched = filter (\<lambda>p. pr_item_key p = Some item_key) pages;
          numbered = List.map_filter pr_page_number matched;
          span = (if numbered = [] then None else Some (Min (set numbered), Max (set numbered)))
      in ToolOk \<lparr>fd_item_key = item_key, fd_present = (matched \<noteq> []), fd_classified = map pr_page_number matched,
           fd_span = span,
           fd_span_pages = (case span of None \<Rightarrow> []
             | Some sp \<Rightarrow> map (\<lambda>p. (uuid_str (pr_part_id p), pr_page_number p, pr_item_key p)) (filter (in_span sp) pages))\<rparr>)"

text \<open>\<open>{**f, k: v}\<close>.\<close>

definition dict_set :: "(ustr \<times> json) list \<Rightarrow> ustr \<Rightarrow> json \<Rightarrow> (ustr \<times> json) list" where
  "dict_set kvs k v = (if k \<in> fst ` set kvs then map (\<lambda>(k', v'). (k', if k' = k then v else v')) kvs else kvs @ [(k, v)])"

definition jint_opt :: "int option \<Rightarrow> json" where
  "jint_opt n = (case n of None \<Rightarrow> JNull | Some i \<Rightarrow> JInt i)"

text \<open>The facts of one annotation; \<open>None\<close> is a \<open>TypeError\<close> or \<open>AttributeError\<close> on a value of another shape.\<close>

definition page_facts :: "page_ref \<Rightarrow> json \<Rightarrow> json list option" where
  "page_facts p content =
     (case content of
        JObj kvs \<Rightarrow>
          (case jget content (lit ''facts'') (JList []) of
             JNull \<Rightarrow> Some [] | JBool False \<Rightarrow> Some [] | JStr [] \<Rightarrow> Some [] | JObj [] \<Rightarrow> Some []
           | JInt i \<Rightarrow> if i = 0 then Some [] else None
           | JReal r \<Rightarrow> if r = 0 then Some [] else None
           | JList fs \<Rightarrow> those (map (\<lambda>f. case f of
                 JObj g \<Rightarrow> Some (JObj (dict_set (dict_set g (lit ''page_number'') (jint_opt (pr_page_number p)))
                    (lit ''part_id'') (JStr (uuid_str (pr_part_id p)))))
               | _ \<Rightarrow> None) fs)
           | _ \<Rightarrow> None)
      | _ \<Rightarrow> None)"

fun collect_pages :: "uuid \<Rightarrow> page_ref list \<Rightarrow> db \<Rightarrow> json list option" where
  "collect_pages eid [] s = Some []"
| "collect_pages eid (p # ps) s =
     (case result_lookup eid (pr_part_id p) Annotation s of
        None \<Rightarrow> collect_pages eid ps s
      | Some r \<Rightarrow> Option.bind (page_facts p (r_content r)) (\<lambda>fs. map_option ((@) fs) (collect_pages eid ps s)))"

definition collect_facts :: "(json \<Rightarrow> ustr) \<Rightarrow> uuid \<Rightarrow> ustr \<Rightarrow> db \<Rightarrow> (int option list \<times> json list) tool_result option" where
  "collect_facts jtext eid item_key s =
     (let matched = filter (\<lambda>p. pr_item_key p = Some item_key) (page_index jtext eid s)
      in map_option (\<lambda>fs. ToolOk (map pr_page_number matched, fs)) (collect_pages eid matched s))"

definition get_page_annotation :: "uuid \<Rightarrow> ustr \<Rightarrow> db \<Rightarrow> json tool_result" where
  "get_page_annotation eid part_id s =
     (case uuid_parse part_id of
        None \<Rightarrow> ToolError [part_id]
      | Some pid \<Rightarrow> (case result_lookup eid pid Annotation s of
          None \<Rightarrow> ToolError [part_id]
        | Some r \<Rightarrow> ToolOk (r_content r)))"

definition get_page_text :: "uuid \<Rightarrow> ustr \<Rightarrow> db \<Rightarrow> json tool_result" where
  "get_page_text eid part_id s =
     (case uuid_parse part_id of
        None \<Rightarrow> ToolError [part_id]
      | Some pid \<Rightarrow> (case result_lookup eid pid Extract s of
          None \<Rightarrow> ToolError [part_id]
        | Some r \<Rightarrow> ToolOk (jget (r_content r) (lit ''result'') (JStr []))))"

text \<open>The image block: type and base64 text.  A missing blob or object raises out of the tool.\<close>

datatype image_error = ImageMedia media_error | ImageObject

definition get_page_image :: "ustr \<Rightarrow> world \<Rightarrow> image_error + (ustr \<times> ustr) tool_result" where
  "get_page_image part_id w =
     (case uuid_parse part_id of
        None \<Rightarrow> Inr (ToolError [part_id])
      | Some pid \<Rightarrow> (case Option.bind (find (\<lambda>p. p_id p = pid) (parts (wdb w))) p_media_id of
          None \<Rightarrow> Inr (ToolError [part_id])
        | Some mid \<Rightarrow> (case (media_get mid (wdb w), media_download mid w) of
              (Inl e, _) \<Rightarrow> Inl (ImageMedia e)
            | (_, Inl e) \<Rightarrow> Inl (ImageMedia e)
            | (Inr _, Inr None) \<Rightarrow> Inl ImageObject
            | (Inr rec, Inr (Some data)) \<Rightarrow>
                Inr (ToolOk (case m_mime rec of Some m \<Rightarrow> if m = [] then lit ''image/png'' else m | None \<Rightarrow> lit ''image/png'',
                             b64encode data)))))"

subsection \<open>Lemmas\<close>

interpretation result: keyed_upsert result_key r_id put_result put_key "\<lambda>a r. r_content r = snd (snd (snd a))"
  by (rule keyed_upsert_upsert [where f = result_set and new = result_new])
    (auto simp: put_result_def result_set_def result_new_def put_key_def result_key_def)

lemma kind_of_text [simp]: "kind_of (kind_text k) = Some k"
  by (cases k) (simp_all add: kind_of_def kind_text_def)

lemma is_json_iff: "is_json k \<longleftrightarrow> k = Annotation"
  by (cases k) (simp_all add: is_json_def kind_text_def lit_def Let_def)

lemma save_result_Inr:
  assumes "save_result loads now fresh eid part kind payload s = (Inr i, t)"
  obtains k content where "kind_of kind = Some k" "(if k = Annotation then loads payload = Some content else content = JObj [(lit ''result'', JStr payload)])"
    "i = r_id (fst (put_result (now, fresh, (eid, part, k), content) (results s)))"
    "t = s\<lparr>results := snd (put_result (now, fresh, (eid, part, k), content) (results s))\<rparr>"
    "eid \<in> execution_ids s" "part \<in> part_ids s"
proof -
  from assms obtain k where k: "kind_of kind = Some k" by (auto simp: save_result_def split: option.splits)
  from assms k obtain content where c: "(if is_json k then loads payload else Some (JObj [(lit ''result'', JStr payload)])) = Some content"
    by (auto simp: save_result_def split: option.splits)
  from assms k c have "eid \<in> execution_ids s" "part \<in> part_ids s"
    "i = r_id (fst (put_result (now, fresh, (eid, part, k), content) (results s)))"
    "t = s\<lparr>results := snd (put_result (now, fresh, (eid, part, k), content) (results s))\<rparr>"
    by (simp_all add: save_result_def split_beta Let_def split: if_split_asm)
  with k c that show ?thesis by (auto simp: is_json_iff split: if_split_asm)
qed

text \<open>
  Saving a result is an upsert on run, part and kind: the result reads back under its
  key with the saved content, every other result is untouched, and saving under the same key
  again keeps the row and its id.
\<close>

theorem save_result_upserts:
  assumes "distinct (map result_key (results s))" and "save_result loads now fresh eid part (kind_text k) payload s = (Inr i, t)"
  shows "(\<exists>r. result_get eid part (kind_text k) t = Inr (Some r) \<and> r_id r = i
      \<and> (k = Extract \<longrightarrow> r_content r = JObj [(lit ''result'', JStr payload)]) \<and> (k = Annotation \<longrightarrow> loads payload = Some (r_content r)))
    \<and> (\<forall>key. key \<noteq> (eid, part, k) \<longrightarrow> filter (\<lambda>r. result_key r = key) (results t) = filter (\<lambda>r. result_key r = key) (results s))
    \<and> (\<forall>now' fresh' payload' i' t'. save_result loads now' fresh' eid part (kind_text k) payload' t = (Inr i', t')
         \<longrightarrow> i' = i \<and> length (results t') = length (results t))"
proof -
  from assms(2) obtain content where c: "if k = Annotation then loads payload = Some content else content = JObj [(lit ''result'', JStr payload)]"
    and i: "i = r_id (fst (put_result (now, fresh, (eid, part, k), content) (results s)))"
    and t: "t = s\<lparr>results := snd (put_result (now, fresh, (eid, part, k), content) (results s))\<rparr>"
    by (rule save_result_Inr) simp
  define a where "a = (now, fresh, (eid, part, k), content)"
  have ka: "put_key a = (eid, part, k)" by (simp add: a_def put_key_def)
  have "result_lookup eid part k t = Some (fst (put_result a (results s)))"
    using result.put_lookup [OF assms(1), of a] by (simp add: result_lookup_def t ka a_def [symmetric])
  then have 1: "result_get eid part (kind_text k) t = Inr (Some (fst (put_result a (results s))))" by (simp add: result_get_def)
  have 2: "r_content (fst (put_result a (results s))) = content" using result.put_row [of a "results s"] by (simp add: a_def)
  have 3: "filter (\<lambda>r. result_key r = key) (results t) = filter (\<lambda>r. result_key r = key) (results s)" if "key \<noteq> (eid, part, k)" for key
    using result.put_other [of key a] that by (simp add: t ka a_def [symmetric])
  have 4: "i' = i \<and> length (results t') = length (results t)"
    if again: "save_result loads now' fresh' eid part (kind_text k) payload' t = (Inr i', t')" for now' fresh' payload' i' t'
    using again
  proof (rule save_result_Inr)
    fix k' content'
    assume k': "kind_of (kind_text k) = Some k'" and e: "i' = r_id (fst (put_result (now', fresh', (eid, part, k'), content') (results t)))"
      "t' = t\<lparr>results := snd (put_result (now', fresh', (eid, part, k'), content') (results t))\<rparr>"
    have "put_key (now', fresh', (eid, part, k'), content') = put_key a" using k' ka by (simp add: put_key_def)
    from result.put_again [OF assms(1) this] show ?thesis by (simp add: e i t a_def)
  qed
  show ?thesis using 1 2 3 4 c i by (auto simp: a_def)
qed

text \<open>
  \<open>find_document\<close> finds the whole document: it is present exactly when a page is
  classified so; the span starts and ends at classified pages and contains each of them; and the
  listed pages are all the numbered pages of the run within the span, labelled or not.
\<close>

theorem find_document_span:
  "\<exists>f. find_document jtext eid key s = ToolOk f
    \<and> fd_present f = (\<exists>p \<in> set (page_index jtext eid s). pr_item_key p = Some key)
    \<and> (case fd_span f of
         None \<Rightarrow> fd_span_pages f = [] \<and> (\<forall>p \<in> set (page_index jtext eid s). pr_item_key p = Some key \<longrightarrow> pr_page_number p = None)
       | Some (lo, hi) \<Rightarrow> lo \<le> hi
         \<and> (\<forall>b \<in> {lo, hi}. \<exists>p \<in> set (page_index jtext eid s). pr_item_key p = Some key \<and> pr_page_number p = Some b)
         \<and> (\<forall>p \<in> set (page_index jtext eid s). \<forall>n. pr_item_key p = Some key \<and> pr_page_number p = Some n \<longrightarrow> lo \<le> n \<and> n \<le> hi)
         \<and> (\<forall>p \<in> set (page_index jtext eid s). \<forall>n. pr_page_number p = Some n \<and> lo \<le> n \<and> n \<le> hi
              \<longrightarrow> (uuid_str (pr_part_id p), Some n, pr_item_key p) \<in> set (fd_span_pages f))
         \<and> (\<forall>(i, n, k) \<in> set (fd_span_pages f). \<exists>m. n = Some m \<and> lo \<le> m \<and> m \<le> hi))"
proof -
  define pages where "pages = page_index jtext eid s"
  define numbered where "numbered = List.map_filter pr_page_number (filter (\<lambda>p. pr_item_key p = Some key) pages)"
  have n: "set numbered = {n. \<exists>p \<in> set pages. pr_item_key p = Some key \<and> pr_page_number p = Some n}"
    by (auto simp: numbered_def set_map_filter)
  obtain f where f: "find_document jtext eid key s = ToolOk f" by (simp add: find_document_def Let_def)
  show ?thesis
  proof (cases "numbered = []")
    case True
    then have none: "\<forall>p \<in> set pages. pr_item_key p = Some key \<longrightarrow> pr_page_number p = None"
      using n by (auto intro: option.exhaust)
    have "fd_span f = None" "fd_span_pages f = []" "fd_present f = (\<exists>p \<in> set pages. pr_item_key p = Some key)"
      using f True by (auto simp: find_document_def Let_def pages_def [symmetric] numbered_def [symmetric] filter_empty_conv)
    with f none show ?thesis by (simp add: pages_def)
  next
    case False
    define lo where "lo = Min (set numbered)"
    define hi where "hi = Max (set numbered)"
    have fe: "fd_span f = Some (lo, hi)"
      "fd_span_pages f = map (\<lambda>p. (uuid_str (pr_part_id p), pr_page_number p, pr_item_key p)) (filter (in_span (lo, hi)) pages)"
      "fd_present f = (\<exists>p \<in> set pages. pr_item_key p = Some key)"
      using f False by (auto simp: find_document_def Let_def pages_def [symmetric] numbered_def [symmetric] filter_empty_conv lo_def hi_def)
    have lh: "lo \<in> set numbered" "hi \<in> set numbered" "\<forall>x \<in> set numbered. lo \<le> x \<and> x \<le> hi"
      using False by (simp_all add: lo_def hi_def)
    have 1: "lo \<le> hi" using lh by blast
    have 2: "\<forall>b \<in> {lo, hi}. \<exists>p \<in> set pages. pr_item_key p = Some key \<and> pr_page_number p = Some b" using lh(1,2) n by blast
    have 3: "\<forall>p \<in> set pages. \<forall>m. pr_item_key p = Some key \<and> pr_page_number p = Some m \<longrightarrow> lo \<le> m \<and> m \<le> hi" using lh(3) n by blast
    have 4: "\<forall>p \<in> set pages. \<forall>m. pr_page_number p = Some m \<and> lo \<le> m \<and> m \<le> hi
        \<longrightarrow> (uuid_str (pr_part_id p), Some m, pr_item_key p) \<in> set (fd_span_pages f)"
      unfolding fe(2) by (force simp: in_span_def)
    have 5: "\<forall>(i, m, k) \<in> set (fd_span_pages f). \<exists>x. m = Some x \<and> lo \<le> x \<and> x \<le> hi"
      unfolding fe(2) by (auto simp: in_span_def split: option.splits)
    show ?thesis
      unfolding pages_def [symmetric] by (intro exI [of _ f] conjI) (simp_all add: f fe(1,3) 1 2 3 4 5 del: split_paired_All)
  qed
qed

text \<open>A run over a document of one page.\<close>

definition demo_part :: "nat \<Rightarrow> part_row" where
  "demo_part n = \<lparr>p_id = 10 + n, p_document_id = 1, p_locator = page_locator n, p_kind = TextPart, p_page_number = Some (int n),
     p_media_id = Some 2, p_thumb = None, p_created = 0, p_updated = 0\<rparr>"

definition demo_annotation :: "nat \<Rightarrow> json \<Rightarrow> result_row" where
  "demo_annotation n k = \<lparr>r_id = 20 + n, r_execution_id = 3, r_part_id = 10 + n, r_kind = Annotation,
     r_content = JObj [(lit ''item_key'', k)], r_created = 0, r_updated = 0\<rparr>"

definition demo_execution :: execution_row where
  "demo_execution = \<lparr>e_id = 3, e_workflow = lit ''pdf'', e_entity_type = lit ''document'', e_entity_id = 1, e_status = Running,
     e_input = JObj [], e_result = None, e_metadata = JObj [], e_started = None, e_finished = None, e_created = 0, e_updated = 0\<rparr>"

definition demo_run :: db where
  "demo_run = empty_db\<lparr>parts := [demo_part 1], executions := [demo_execution],
     results := [demo_annotation 1 (JStr [105])]\<rparr>"

lemma demo_index: "page_index jtext 3 demo_run = [page_ref_of jtext (demo_annotation 1 (JStr [105])) (demo_part 1)]"
  by (simp add: page_index_def demo_run_def demo_annotation_def demo_part_def empty_db_def List.map_filter_simps)

theorem find_document_span_witness:
  "\<exists>f. find_document (\<lambda>_. []) 3 [105] demo_run = ToolOk f \<and> fd_present f"
proof -
  obtain f where f: "find_document (\<lambda>_. []) 3 [105] demo_run = ToolOk f"
    "fd_present f = (\<exists>p \<in> set (page_index (\<lambda>_. []) 3 demo_run). pr_item_key p = Some [105])"
    using find_document_span [of "\<lambda>_. []" 3 "[105]" demo_run] by (elim exE) (rule that, erule conjunct1, erule conjunct2 [THEN conjunct1])
  have "fd_present f" unfolding f(2) demo_index by (simp add: page_ref_of_def demo_annotation_def json_text_def)
  with f(1) show ?thesis by blast
qed

theorem save_result_upserts_witness:
  "\<exists>i t. save_result (\<lambda>_. None) 5 30 3 11 (kind_text Extract) [97] demo_run = (Inr i, t)
     \<and> (\<exists>r. result_get 3 11 (kind_text Extract) t = Inr (Some r) \<and> r_content r = JObj [(lit ''result'', JStr [97])])"
proof -
  have 1: "distinct (map result_key (results demo_run))"
    by (simp add: demo_run_def result_key_def demo_annotation_def empty_db_def)
  have "fst (save_result (\<lambda>_. None) 5 30 3 11 (kind_text Extract) [97] demo_run) \<in> range Inr"
    by (simp add: save_result_def is_json_iff execution_ids_def part_ids_def demo_run_def demo_execution_def demo_part_def empty_db_def split_beta Let_def)
  then obtain i t where t: "save_result (\<lambda>_. None) 5 30 3 11 (kind_text Extract) [97] demo_run = (Inr i, t)"
    by (cases "save_result (\<lambda>_. None) 5 30 3 11 (kind_text Extract) [97] demo_run") auto
  from save_result_upserts [OF 1 t, THEN conjunct1] t show ?thesis by blast
qed

end
