(* ===== verification/Userdata.thy ===== *)
theory Userdata
  imports Tables Complex_Main "HOL-Library.List_Lexorder" "HOL-Library.Multiset"
begin

section \<open>User data: dossiers, document definitions, rules, knowledge\<close>

text \<open>
  \<open>doci/userdata/\<close>: the four services over \<open>dossier_def\<close>, \<open>document_def\<close>,
  \<open>agent_rule\<close> with its links, and \<open>knowledge\<close>, and their routers.  \<open>lower\<close> is
  \<open>str.lower\<close>; the six random characters of \<open>gen_key\<close>, \<open>now()\<close> and the generated row id
  are arguments.  PostgreSQL's \<open>word_similarity\<close> is the parameter \<open>sim\<close>.
\<close>

subsection \<open>Keys and page bounds\<close>

definition key_char :: "nat \<Rightarrow> bool" where
  "key_char c \<longleftrightarrow> (97 \<le> c \<and> c \<le> 122) \<or> (48 \<le> c \<and> c \<le> 57)"

text \<open>\<open>re.findall(r"[a-z0-9]+", s)\<close>: the maximal runs.\<close>

function slug_words :: "ustr \<Rightarrow> ustr list" where
  "slug_words s = (let t = dropWhile (\<lambda>c. \<not> key_char c) s in
     if t = [] then [] else takeWhile key_char t # slug_words (dropWhile key_char t))"
  by pat_completeness auto
termination
proof (relation "measure length")
  fix s t :: ustr
  assume t: "t = dropWhile (\<lambda>c. \<not> key_char c) s" "t \<noteq> []"
  then have "key_char (hd t)" by (metis hd_dropWhile)
  then have "length (dropWhile key_char t) < length t"
    using t(2) by (cases t) (auto simp: length_dropWhile_le less_Suc_eq_le)
  also have "\<dots> \<le> length s" by (simp add: t(1) length_dropWhile_le)
  finally show "(dropWhile key_char t, s) \<in> measure length" by simp
qed simp

declare slug_words.simps [simp del]

definition gen_key :: "(ustr \<Rightarrow> ustr) \<Rightarrow> ustr \<Rightarrow> ustr \<Rightarrow> ustr" where
  "gen_key lower suffix name =
     (let words = take 5 (slug_words (lower name)); stem = join [45] words in
      if stem \<noteq> [] then stem @ [45] @ suffix else suffix)"

text \<open>\<open>key or gen_key(name)\<close>.\<close>

definition key_or_gen :: "(ustr \<Rightarrow> ustr) \<Rightarrow> ustr \<Rightarrow> ustr \<Rightarrow> ustr option \<Rightarrow> ustr" where
  "key_or_gen lower suffix name key =
     (case key of Some k \<Rightarrow> if k \<noteq> [] then k else gen_key lower suffix name | None \<Rightarrow> gen_key lower suffix name)"

definition page_bounds :: "int option \<Rightarrow> int \<Rightarrow> nat \<times> nat" where
  "page_bounds limit off =
     (let l = (case limit of None \<Rightarrow> 50 | Some n \<Rightarrow> if n = 0 then 50 else n)
      in (nat (max 1 (min l 200)), nat (max 0 off)))"

subsection \<open>Rows and state\<close>

record dossier_def =
  dd_id :: uuid
  dd_key :: ustr
  dd_name :: ustr
  dd_description :: "ustr option"
  dd_deleted :: "time option"
  dd_created :: time
  dd_updated :: time

record document_def =
  df_id :: uuid
  df_dossier_id :: uuid
  df_key :: ustr
  df_name :: ustr
  df_description :: "ustr option"
  df_look_for :: "ustr option"
  df_created :: time
  df_updated :: time

record agent_rule =
  ar_id :: uuid
  ar_key :: ustr
  ar_name :: ustr
  ar_body :: ustr
  ar_deleted :: "time option"
  ar_created :: time
  ar_updated :: time

record knowledge =
  kn_id :: uuid
  kn_key :: ustr
  kn_name :: ustr
  kn_description :: "ustr option"
  kn_body :: ustr
  kn_deleted :: "time option"
  kn_created :: time
  kn_updated :: time

record userdb =
  dossiers :: "dossier_def list"
  docdefs :: "document_def list"
  rules :: "agent_rule list"
  links :: "(uuid \<times> uuid) list"
  knowledges :: "knowledge list"

definition coalesce :: "'a option \<Rightarrow> 'a \<Rightarrow> 'a" where
  "coalesce x y = (case x of None \<Rightarrow> y | Some z \<Rightarrow> z)"

definition coalesce2 :: "'a option \<Rightarrow> 'a option \<Rightarrow> 'a option" where
  "coalesce2 x y = (case x of None \<Rightarrow> y | Some z \<Rightarrow> Some z)"

text \<open>What a service call finds besides its arguments.\<close>

record call =
  cl_now :: time
  cl_id :: uuid
  cl_suffix :: ustr

subsection \<open>Dossiers\<close>

record dossier_create =
  dc_name :: ustr
  dc_key :: "ustr option"
  dc_description :: "ustr option"

record dossier_update =
  du_name :: "ustr option"
  du_description :: "ustr option"

definition dossier_live :: "ustr \<Rightarrow> dossier_def \<Rightarrow> bool" where
  "dossier_live k d \<longleftrightarrow> dd_key d = k \<and> dd_deleted d = None"

definition list_dossiers :: "int option \<Rightarrow> int \<Rightarrow> dossier_def list \<Rightarrow> dossier_def page" where
  "list_dossiers limit off rs = (let (lim, o') = page_bounds limit off in
     page_of (sort_key (\<lambda>d. (- dd_created d, dd_id d)) (filter (\<lambda>d. dd_deleted d = None) rs)) lim o')"

definition get_dossier :: "ustr \<Rightarrow> dossier_def list \<Rightarrow> userdata_error + dossier_def" where
  "get_dossier k rs = (case find (\<lambda>d. dd_key d = k \<and> dd_deleted d = None) rs of
     None \<Rightarrow> Inl NotFound | Some d \<Rightarrow> Inr d)"

definition create_dossier ::
  "(ustr \<Rightarrow> ustr) \<Rightarrow> call \<times> dossier_create \<Rightarrow> dossier_def list \<Rightarrow> (userdata_error + dossier_def) \<times> dossier_def list" where
  "create_dossier lower c rs =
     (let cl = fst c; b = snd c; k = key_or_gen lower (cl_suffix cl) (dc_name b) (dc_key b) in
      if \<exists>d \<in> set rs. dd_key d = k \<and> dd_deleted d = None then (Inl DuplicateKey, rs)
      else let d = \<lparr>dd_id = cl_id cl, dd_key = k, dd_name = dc_name b, dd_description = dc_description b,
                    dd_deleted = None, dd_created = cl_now cl, dd_updated = cl_now cl\<rparr>
           in (Inr d, rs @ [d]))"

definition patch_dossier :: "time \<times> dossier_update \<Rightarrow> dossier_def \<Rightarrow> dossier_def" where
  "patch_dossier u d = d\<lparr>dd_name := coalesce (du_name (snd u)) (dd_name d),
     dd_description := coalesce2 (du_description (snd u)) (dd_description d), dd_updated := fst u\<rparr>"

definition update_dossier ::
  "time \<times> dossier_update \<Rightarrow> ustr \<Rightarrow> dossier_def list \<Rightarrow> (userdata_error + dossier_def) \<times> dossier_def list" where
  "update_dossier u k rs =
     (case find (\<lambda>d. dd_key d = k \<and> dd_deleted d = None) rs of
        None \<Rightarrow> (Inl NotFound, rs)
      | Some d \<Rightarrow> (Inr (patch_dossier u d), upd_where (\<lambda>d. dd_key d = k \<and> dd_deleted d = None) (patch_dossier u) rs))"

definition mark_dossier :: "time \<Rightarrow> dossier_def \<Rightarrow> dossier_def" where
  "mark_dossier now d = d\<lparr>dd_deleted := Some now, dd_updated := now\<rparr>"

definition delete_dossiers :: "time \<Rightarrow> ustr list \<Rightarrow> dossier_def list \<Rightarrow> nat \<times> dossier_def list" where
  "delete_dossiers now ks rs = (if ks = [] then (0, rs)
     else (length (filter (\<lambda>d. dd_key d \<in> set ks \<and> dd_deleted d = None) rs),
           upd_where (\<lambda>d. dd_key d \<in> set ks \<and> dd_deleted d = None) (mark_dossier now) rs))"

subsection \<open>Rules\<close>

record rule_create =
  rc_name :: ustr
  rc_body :: ustr
  rc_key :: "ustr option"

record rule_update =
  ru_name :: "ustr option"
  ru_body :: "ustr option"

definition list_rules :: "int option \<Rightarrow> int \<Rightarrow> agent_rule list \<Rightarrow> agent_rule page" where
  "list_rules limit off rs = (let (lim, o') = page_bounds limit off in
     page_of (sort_key (\<lambda>d. (- ar_created d, ar_id d)) (filter (\<lambda>d. ar_deleted d = None) rs)) lim o')"

definition get_rule :: "ustr \<Rightarrow> agent_rule list \<Rightarrow> userdata_error + agent_rule" where
  "get_rule k rs = (case find (\<lambda>d. ar_key d = k \<and> ar_deleted d = None) rs of
     None \<Rightarrow> Inl NotFound | Some d \<Rightarrow> Inr d)"

definition create_rule ::
  "(ustr \<Rightarrow> ustr) \<Rightarrow> call \<times> rule_create \<Rightarrow> agent_rule list \<Rightarrow> (userdata_error + agent_rule) \<times> agent_rule list" where
  "create_rule lower c rs =
     (let cl = fst c; b = snd c; k = key_or_gen lower (cl_suffix cl) (rc_name b) (rc_key b) in
      if \<exists>d \<in> set rs. ar_key d = k \<and> ar_deleted d = None then (Inl DuplicateKey, rs)
      else let d = \<lparr>ar_id = cl_id cl, ar_key = k, ar_name = rc_name b, ar_body = rc_body b,
                    ar_deleted = None, ar_created = cl_now cl, ar_updated = cl_now cl\<rparr>
           in (Inr d, rs @ [d]))"

definition patch_rule :: "time \<times> rule_update \<Rightarrow> agent_rule \<Rightarrow> agent_rule" where
  "patch_rule u d = d\<lparr>ar_name := coalesce (ru_name (snd u)) (ar_name d),
     ar_body := coalesce (ru_body (snd u)) (ar_body d), ar_updated := fst u\<rparr>"

definition update_rule ::
  "time \<times> rule_update \<Rightarrow> ustr \<Rightarrow> agent_rule list \<Rightarrow> (userdata_error + agent_rule) \<times> agent_rule list" where
  "update_rule u k rs =
     (case find (\<lambda>d. ar_key d = k \<and> ar_deleted d = None) rs of
        None \<Rightarrow> (Inl NotFound, rs)
      | Some d \<Rightarrow> (Inr (patch_rule u d), upd_where (\<lambda>d. ar_key d = k \<and> ar_deleted d = None) (patch_rule u) rs))"

definition mark_rule :: "time \<Rightarrow> agent_rule \<Rightarrow> agent_rule" where
  "mark_rule now d = d\<lparr>ar_deleted := Some now, ar_updated := now\<rparr>"

definition delete_rules :: "time \<Rightarrow> ustr list \<Rightarrow> agent_rule list \<Rightarrow> nat \<times> agent_rule list" where
  "delete_rules now ks rs = (if ks = [] then (0, rs)
     else (length (filter (\<lambda>d. ar_key d \<in> set ks \<and> ar_deleted d = None) rs),
           upd_where (\<lambda>d. ar_key d \<in> set ks \<and> ar_deleted d = None) (mark_rule now) rs))"

subsection \<open>Knowledge\<close>

record knowledge_create =
  kc_name :: ustr
  kc_body :: ustr
  kc_key :: "ustr option"
  kc_description :: "ustr option"

record knowledge_update =
  ku_name :: "ustr option"
  ku_description :: "ustr option"
  ku_body :: "ustr option"

definition haystack :: "knowledge \<Rightarrow> ustr" where
  "haystack k = kn_name k @ [32] @ (case kn_description k of None \<Rightarrow> [] | Some d \<Rightarrow> d) @ [32] @ kn_body k"

text \<open>Similarities are rationals, the threshold 0.3 of the code is \<open>3 / 10\<close>.\<close>

definition list_knowledge ::
  "(ustr \<Rightarrow> ustr \<Rightarrow> rat) \<Rightarrow> ustr option \<Rightarrow> int option \<Rightarrow> int \<Rightarrow> knowledge list \<Rightarrow> knowledge page" where
  "list_knowledge sim search limit off rs = (let (lim, o') = page_bounds limit off in
     case (case search of Some q \<Rightarrow> if q = [] then None else Some q | None \<Rightarrow> None) of
       None \<Rightarrow> page_of (sort_key (\<lambda>k. (- kn_created k, kn_id k)) (filter (\<lambda>k. kn_deleted k = None) rs)) lim o'
     | Some q \<Rightarrow> page_of (sort_key (\<lambda>k. (- sim q (haystack k), - kn_created k, kn_id k))
         (filter (\<lambda>k. kn_deleted k = None \<and> 3 / 10 \<le> sim q (haystack k)) rs)) lim o')"

definition get_knowledge :: "ustr \<Rightarrow> knowledge list \<Rightarrow> userdata_error + knowledge" where
  "get_knowledge k rs = (case find (\<lambda>d. kn_key d = k \<and> kn_deleted d = None) rs of
     None \<Rightarrow> Inl NotFound | Some d \<Rightarrow> Inr d)"

definition create_knowledge ::
  "(ustr \<Rightarrow> ustr) \<Rightarrow> call \<times> knowledge_create \<Rightarrow> knowledge list \<Rightarrow> (userdata_error + knowledge) \<times> knowledge list" where
  "create_knowledge lower c rs =
     (let cl = fst c; b = snd c; k = key_or_gen lower (cl_suffix cl) (kc_name b) (kc_key b) in
      if \<exists>d \<in> set rs. kn_key d = k \<and> kn_deleted d = None then (Inl DuplicateKey, rs)
      else let d = \<lparr>kn_id = cl_id cl, kn_key = k, kn_name = kc_name b, kn_description = kc_description b,
                    kn_body = kc_body b, kn_deleted = None, kn_created = cl_now cl, kn_updated = cl_now cl\<rparr>
           in (Inr d, rs @ [d]))"

definition patch_knowledge :: "time \<times> knowledge_update \<Rightarrow> knowledge \<Rightarrow> knowledge" where
  "patch_knowledge u d = d\<lparr>kn_name := coalesce (ku_name (snd u)) (kn_name d),
     kn_description := coalesce2 (ku_description (snd u)) (kn_description d),
     kn_body := coalesce (ku_body (snd u)) (kn_body d), kn_updated := fst u\<rparr>"

definition update_knowledge ::
  "time \<times> knowledge_update \<Rightarrow> ustr \<Rightarrow> knowledge list \<Rightarrow> (userdata_error + knowledge) \<times> knowledge list" where
  "update_knowledge u k rs =
     (case find (\<lambda>d. kn_key d = k \<and> kn_deleted d = None) rs of
        None \<Rightarrow> (Inl NotFound, rs)
      | Some d \<Rightarrow> (Inr (patch_knowledge u d), upd_where (\<lambda>d. kn_key d = k \<and> kn_deleted d = None) (patch_knowledge u) rs))"

definition mark_knowledge :: "time \<Rightarrow> knowledge \<Rightarrow> knowledge" where
  "mark_knowledge now d = d\<lparr>kn_deleted := Some now, kn_updated := now\<rparr>"

definition delete_knowledge :: "time \<Rightarrow> ustr list \<Rightarrow> knowledge list \<Rightarrow> nat \<times> knowledge list" where
  "delete_knowledge now ks rs = (if ks = [] then (0, rs)
     else (length (filter (\<lambda>d. kn_key d \<in> set ks \<and> kn_deleted d = None) rs),
           upd_where (\<lambda>d. kn_key d \<in> set ks \<and> kn_deleted d = None) (mark_knowledge now) rs))"

subsection \<open>Document definitions\<close>

record document_upsert =
  dp_name :: ustr
  dp_key :: "ustr option"
  dp_description :: "ustr option"
  dp_look_for :: "ustr option"

definition dossier_id_of :: "ustr \<Rightarrow> userdb \<Rightarrow> userdata_error + uuid" where
  "dossier_id_of k s = bindE (get_dossier k (dossiers s)) (\<lambda>d. Inr (dd_id d))"

definition list_documents :: "ustr \<Rightarrow> userdb \<Rightarrow> userdata_error + document_def list" where
  "list_documents k s = bindE (dossier_id_of k s) (\<lambda>i.
     Inr (sort_key (\<lambda>d. (- df_created d, df_id d)) (filter (\<lambda>d. df_dossier_id d = i) (docdefs s))))"

definition get_document :: "ustr \<Rightarrow> ustr \<Rightarrow> userdb \<Rightarrow> userdata_error + document_def" where
  "get_document k dk s = bindE (dossier_id_of k s) (\<lambda>i.
     case find (\<lambda>d. (df_dossier_id d, df_key d) = (i, dk)) (docdefs s) of None \<Rightarrow> Inl NotFound | Some d \<Rightarrow> Inr d)"

text \<open>The statement itself, on the table, for a resolved dossier id.\<close>

type_synonym docdef_put = "(ustr \<Rightarrow> ustr) \<times> call \<times> uuid \<times> document_upsert"

definition docdef_key :: "docdef_put \<Rightarrow> uuid \<times> ustr" where
  "docdef_key = (\<lambda>(lower, cl, i, b). (i, key_or_gen lower (cl_suffix cl) (dp_name b) (dp_key b)))"

definition docdef_new :: "docdef_put \<Rightarrow> document_def" where
  "docdef_new a = (case a of (lower, cl, i, b) \<Rightarrow>
     \<lparr>df_id = cl_id cl, df_dossier_id = i, df_key = snd (docdef_key a), df_name = dp_name b,
      df_description = dp_description b, df_look_for = dp_look_for b, df_created = cl_now cl, df_updated = cl_now cl\<rparr>)"

definition docdef_set :: "docdef_put \<Rightarrow> document_def \<Rightarrow> document_def" where
  "docdef_set a d = (case a of (lower, cl, i, b) \<Rightarrow>
     d\<lparr>df_name := dp_name b, df_description := dp_description b, df_look_for := dp_look_for b, df_updated := cl_now cl\<rparr>)"

definition put_docdef :: "docdef_put \<Rightarrow> document_def list \<Rightarrow> document_def \<times> document_def list" where
  "put_docdef a rs = upsert (\<lambda>d. (df_dossier_id d, df_key d) = docdef_key a) (docdef_set a) (docdef_new a) rs"

definition upsert_document ::
  "(ustr \<Rightarrow> ustr) \<Rightarrow> call \<Rightarrow> ustr \<Rightarrow> document_upsert \<Rightarrow> userdb \<Rightarrow> (userdata_error + document_def) \<times> userdb" where
  "upsert_document lower cl k b s =
     (case dossier_id_of k s of
        Inl e \<Rightarrow> (Inl e, s)
      | Inr i \<Rightarrow> (let (d, ds) = put_docdef (lower, cl, i, b) (docdefs s) in (Inr d, s\<lparr>docdefs := ds\<rparr>)))"

definition delete_document :: "ustr \<Rightarrow> ustr \<Rightarrow> userdb \<Rightarrow> (userdata_error + nat) \<times> userdb" where
  "delete_document k dk s =
     (case dossier_id_of k s of
        Inl e \<Rightarrow> (Inl e, s)
      | Inr i \<Rightarrow> (Inr (length (filter (\<lambda>d. (df_dossier_id d, df_key d) = (i, dk)) (docdefs s))),
                 s\<lparr>docdefs := filter (\<lambda>d. (df_dossier_id d, df_key d) \<noteq> (i, dk)) (docdefs s)\<rparr>))"

subsection \<open>Links between rules and dossiers\<close>

text \<open>\<open>list(dict.fromkeys(xs))\<close>: the first occurrences, in order.\<close>

definition dedup :: "'a list \<Rightarrow> 'a list" where
  "dedup xs = rev (remdups (rev xs))"

text \<open>The dictionary \<open>found\<close> and the first key missing from it; an error leaves the state as it was.\<close>

definition set_dossiers :: "ustr \<Rightarrow> ustr list \<Rightarrow> userdb \<Rightarrow> (userdata_error + nat) \<times> userdb" where
  "set_dossiers rk dks s =
     (let wanted = dedup dks in
      case get_rule rk (rules s) of
        Inl e \<Rightarrow> (Inl e, s)
      | Inr r \<Rightarrow>
          (let found = map (\<lambda>d. (dd_key d, dd_id d))
                 (filter (\<lambda>d. dd_key d \<in> set wanted \<and> dd_deleted d = None) (dossiers s));
               missing = filter (\<lambda>k. map_of found k = None) wanted
           in if missing \<noteq> [] then (Inl NotFound, s)
              else let ids = map (\<lambda>k. the (map_of found k)) wanted in
                   (Inr (length ids),
                    s\<lparr>links := filter (\<lambda>l. fst l \<noteq> ar_id r) (links s) @ map (\<lambda>i. (ar_id r, i)) ids\<rparr>)))"

definition dossiers_for_rule :: "ustr \<Rightarrow> userdb \<Rightarrow> userdata_error + dossier_def list" where
  "dossiers_for_rule rk s = bindE (get_rule rk (rules s)) (\<lambda>r.
     Inr (sort_key (\<lambda>d. (- dd_created d, dd_id d))
       (filter (\<lambda>d. (ar_id r, dd_id d) \<in> set (links s) \<and> dd_deleted d = None) (dossiers s))))"

definition rules_for_dossier :: "ustr \<Rightarrow> userdb \<Rightarrow> userdata_error + agent_rule list" where
  "rules_for_dossier k s = bindE (get_dossier k (dossiers s)) (\<lambda>d.
     Inr (sort_key (\<lambda>r. (- ar_created r, ar_id r))
       (filter (\<lambda>r. (ar_id r, dd_id d) \<in> set (links s) \<and> ar_deleted r = None) (rules s))))"

subsection \<open>Routers\<close>

text \<open>\<open>_map_errors\<close>, the same in the four routers.\<close>

fun error_code :: "userdata_error \<Rightarrow> nat" where
  "error_code NotFound = 404"
| "error_code DuplicateKey = 409"

fun answer :: "nat \<Rightarrow> userdata_error + 'a \<Rightarrow> 'a http" where
  "answer code (Inr x) = Response code x"
| "answer code (Inl e) = HttpError (error_code e)"

definition post_dossier :: "(ustr \<Rightarrow> ustr) \<Rightarrow> call \<Rightarrow> dossier_create \<Rightarrow> userdb \<Rightarrow> dossier_def http \<times> userdb" where
  "post_dossier lower cl b s = (let (r, ds) = create_dossier lower (cl, b) (dossiers s) in (answer 201 r, s\<lparr>dossiers := ds\<rparr>))"

definition get_dossiers :: "int option \<Rightarrow> int \<Rightarrow> userdb \<Rightarrow> dossier_def page http" where
  "get_dossiers limit off s = Response 200 (list_dossiers limit off (dossiers s))"

definition get_dossier_by_key :: "ustr \<Rightarrow> userdb \<Rightarrow> dossier_def http" where
  "get_dossier_by_key k s = answer 200 (get_dossier k (dossiers s))"

definition patch_dossier_by_key :: "time \<Rightarrow> ustr \<Rightarrow> dossier_update \<Rightarrow> userdb \<Rightarrow> dossier_def http \<times> userdb" where
  "patch_dossier_by_key now k b s =
     (let (r, ds) = update_dossier (now, b) k (dossiers s) in (answer 200 r, s\<lparr>dossiers := ds\<rparr>))"

definition delete_dossier_by_key :: "time \<Rightarrow> ustr \<Rightarrow> userdb \<Rightarrow> nat http \<times> userdb" where
  "delete_dossier_by_key now k s = (let (n, ds) = delete_dossiers now [k] (dossiers s) in (Response 200 n, s\<lparr>dossiers := ds\<rparr>))"

definition get_dossier_rules :: "ustr \<Rightarrow> userdb \<Rightarrow> agent_rule list http" where
  "get_dossier_rules k s = answer 200 (rules_for_dossier k s)"

definition post_rule :: "(ustr \<Rightarrow> ustr) \<Rightarrow> call \<Rightarrow> rule_create \<Rightarrow> userdb \<Rightarrow> agent_rule http \<times> userdb" where
  "post_rule lower cl b s = (let (r, ds) = create_rule lower (cl, b) (rules s) in (answer 201 r, s\<lparr>rules := ds\<rparr>))"

definition get_rules :: "int option \<Rightarrow> int \<Rightarrow> userdb \<Rightarrow> agent_rule page http" where
  "get_rules limit off s = Response 200 (list_rules limit off (rules s))"

definition get_rule_by_key :: "ustr \<Rightarrow> userdb \<Rightarrow> agent_rule http" where
  "get_rule_by_key k s = answer 200 (get_rule k (rules s))"

definition patch_rule_by_key :: "time \<Rightarrow> ustr \<Rightarrow> rule_update \<Rightarrow> userdb \<Rightarrow> agent_rule http \<times> userdb" where
  "patch_rule_by_key now k b s = (let (r, ds) = update_rule (now, b) k (rules s) in (answer 200 r, s\<lparr>rules := ds\<rparr>))"

definition delete_rule_by_key :: "time \<Rightarrow> ustr \<Rightarrow> userdb \<Rightarrow> nat http \<times> userdb" where
  "delete_rule_by_key now k s = (let (n, ds) = delete_rules now [k] (rules s) in (Response 200 n, s\<lparr>rules := ds\<rparr>))"

definition put_rule_dossiers :: "ustr \<Rightarrow> ustr list \<Rightarrow> userdb \<Rightarrow> nat http \<times> userdb" where
  "put_rule_dossiers k dks s = (let (r, s') = set_dossiers k dks s in (answer 200 r, s'))"

definition get_rule_dossiers :: "ustr \<Rightarrow> userdb \<Rightarrow> dossier_def list http" where
  "get_rule_dossiers k s = answer 200 (dossiers_for_rule k s)"

definition post_knowledge :: "(ustr \<Rightarrow> ustr) \<Rightarrow> call \<Rightarrow> knowledge_create \<Rightarrow> userdb \<Rightarrow> knowledge http \<times> userdb" where
  "post_knowledge lower cl b s =
     (let (r, ds) = create_knowledge lower (cl, b) (knowledges s) in (answer 201 r, s\<lparr>knowledges := ds\<rparr>))"

definition get_knowledges ::
  "(ustr \<Rightarrow> ustr \<Rightarrow> rat) \<Rightarrow> ustr option \<Rightarrow> int option \<Rightarrow> int \<Rightarrow> userdb \<Rightarrow> knowledge page http" where
  "get_knowledges sim search limit off s = Response 200 (list_knowledge sim search limit off (knowledges s))"

definition get_knowledge_by_key :: "ustr \<Rightarrow> userdb \<Rightarrow> knowledge http" where
  "get_knowledge_by_key k s = answer 200 (get_knowledge k (knowledges s))"

definition patch_knowledge_by_key :: "time \<Rightarrow> ustr \<Rightarrow> knowledge_update \<Rightarrow> userdb \<Rightarrow> knowledge http \<times> userdb" where
  "patch_knowledge_by_key now k b s =
     (let (r, ds) = update_knowledge (now, b) k (knowledges s) in (answer 200 r, s\<lparr>knowledges := ds\<rparr>))"

definition delete_knowledge_by_key :: "time \<Rightarrow> ustr \<Rightarrow> userdb \<Rightarrow> nat http \<times> userdb" where
  "delete_knowledge_by_key now k s =
     (let (n, ds) = delete_knowledge now [k] (knowledges s) in (Response 200 n, s\<lparr>knowledges := ds\<rparr>))"

definition get_document_defs :: "ustr \<Rightarrow> userdb \<Rightarrow> document_def list http" where
  "get_document_defs k s = answer 200 (list_documents k s)"

definition put_document_def ::
  "(ustr \<Rightarrow> ustr) \<Rightarrow> call \<Rightarrow> ustr \<Rightarrow> document_upsert \<Rightarrow> userdb \<Rightarrow> document_def http \<times> userdb" where
  "put_document_def lower cl k b s = (let (r, s') = upsert_document lower cl k b s in (answer 200 r, s'))"

definition get_document_def :: "ustr \<Rightarrow> ustr \<Rightarrow> userdb \<Rightarrow> document_def http" where
  "get_document_def k dk s = answer 200 (get_document k dk s)"

definition delete_document_def :: "ustr \<Rightarrow> ustr \<Rightarrow> userdb \<Rightarrow> nat http \<times> userdb" where
  "delete_document_def k dk s = (let (r, s') = delete_document k dk s in (answer 200 r, s'))"

lemmas router_defs = post_dossier_def patch_dossier_by_key_def delete_dossier_by_key_def get_dossier_by_key_def
  post_rule_def patch_rule_by_key_def delete_rule_by_key_def get_rule_by_key_def put_rule_dossiers_def
  post_knowledge_def patch_knowledge_by_key_def delete_knowledge_by_key_def get_knowledge_by_key_def
  put_document_def_def delete_document_def_def get_document_def_def get_document_defs_def

subsection \<open>The three soft-deleted tables\<close>

definition dossier_ckey :: "(ustr \<Rightarrow> ustr) \<Rightarrow> call \<times> dossier_create \<Rightarrow> ustr" where
  "dossier_ckey lower c = key_or_gen lower (cl_suffix (fst c)) (dc_name (snd c)) (dc_key (snd c))"

definition rule_ckey :: "(ustr \<Rightarrow> ustr) \<Rightarrow> call \<times> rule_create \<Rightarrow> ustr" where
  "rule_ckey lower c = key_or_gen lower (cl_suffix (fst c)) (rc_name (snd c)) (rc_key (snd c))"

definition knowledge_ckey :: "(ustr \<Rightarrow> ustr) \<Rightarrow> call \<times> knowledge_create \<Rightarrow> ustr" where
  "knowledge_ckey lower c = key_or_gen lower (cl_suffix (fst c)) (kc_name (snd c)) (kc_key (snd c))"

lemma upd_where_empty_keys: "upd_where (\<lambda>r. k r \<in> set [] \<and> q r) f rs = rs"
  by (rule upd_where_none) simp

interpretation dossier: soft_table dd_key dd_id dd_deleted get_dossier "create_dossier lower" "dossier_ckey lower"
  "\<lambda>c. cl_id (fst c)" update_dossier patch_dossier delete_dossiers mark_dossier for lower
proof
  show "create_dossier lower c rs = (Inl DuplicateKey, rs)"
    if "\<exists>r \<in> set rs. dd_key r = dossier_ckey lower c \<and> dd_deleted r = None" for c rs
    using that by (simp add: create_dossier_def dossier_ckey_def Let_def)
  show "\<exists>r. create_dossier lower c rs = (Inr r, rs @ [r]) \<and> dd_key r = dossier_ckey lower c
      \<and> dd_id r = cl_id (fst c) \<and> dd_deleted r = None"
    if "\<not> (\<exists>r \<in> set rs. dd_key r = dossier_ckey lower c \<and> dd_deleted r = None)" for c rs
    using that by (simp add: create_dossier_def dossier_ckey_def Let_def)
qed (auto simp: get_dossier_def update_dossier_def delete_dossiers_def patch_dossier_def mark_dossier_def
    upd_where_empty_keys [simplified] split: option.splits)

interpretation rule: soft_table ar_key ar_id ar_deleted get_rule "create_rule lower" "rule_ckey lower"
  "\<lambda>c. cl_id (fst c)" update_rule patch_rule delete_rules mark_rule for lower
proof
  show "create_rule lower c rs = (Inl DuplicateKey, rs)"
    if "\<exists>r \<in> set rs. ar_key r = rule_ckey lower c \<and> ar_deleted r = None" for c rs
    using that by (simp add: create_rule_def rule_ckey_def Let_def)
  show "\<exists>r. create_rule lower c rs = (Inr r, rs @ [r]) \<and> ar_key r = rule_ckey lower c
      \<and> ar_id r = cl_id (fst c) \<and> ar_deleted r = None"
    if "\<not> (\<exists>r \<in> set rs. ar_key r = rule_ckey lower c \<and> ar_deleted r = None)" for c rs
    using that by (simp add: create_rule_def rule_ckey_def Let_def)
qed (auto simp: get_rule_def update_rule_def delete_rules_def patch_rule_def mark_rule_def
    upd_where_empty_keys [simplified] split: option.splits)

interpretation knowledge: soft_table kn_key kn_id kn_deleted get_knowledge "create_knowledge lower"
  "knowledge_ckey lower" "\<lambda>c. cl_id (fst c)" update_knowledge patch_knowledge delete_knowledge mark_knowledge for lower
proof
  show "create_knowledge lower c rs = (Inl DuplicateKey, rs)"
    if "\<exists>r \<in> set rs. kn_key r = knowledge_ckey lower c \<and> kn_deleted r = None" for c rs
    using that by (simp add: create_knowledge_def knowledge_ckey_def Let_def)
  show "\<exists>r. create_knowledge lower c rs = (Inr r, rs @ [r]) \<and> kn_key r = knowledge_ckey lower c
      \<and> kn_id r = cl_id (fst c) \<and> kn_deleted r = None"
    if "\<not> (\<exists>r \<in> set rs. kn_key r = knowledge_ckey lower c \<and> kn_deleted r = None)" for c rs
    using that by (simp add: create_knowledge_def knowledge_ckey_def Let_def)
qed (auto simp: get_knowledge_def update_knowledge_def delete_knowledge_def patch_knowledge_def mark_knowledge_def
    upd_where_empty_keys [simplified] split: option.splits)

interpretation docdef: keyed_upsert "\<lambda>d. (df_dossier_id d, df_key d)" df_id put_docdef docdef_key
  "\<lambda>(lower, cl, i, b) d. df_name d = dp_name b \<and> df_description d = dp_description b \<and> df_look_for d = dp_look_for b"
  by (rule keyed_upsert_upsert [where f = docdef_set and new = docdef_new])
    (auto simp: put_docdef_def docdef_set_def docdef_new_def docdef_key_def)

subsection \<open>The state machine of the four routers\<close>

datatype request =
    PostDossier dossier_create | PatchDossier ustr dossier_update | DeleteDossier ustr
  | PostRule rule_create | PatchRule ustr rule_update | DeleteRule ustr | PutRuleDossiers ustr "ustr list"
  | PostKnowledge knowledge_create | PatchKnowledge ustr knowledge_update | DeleteKnowledge ustr
  | PutDocumentDef ustr document_upsert | DeleteDocumentDef ustr ustr

fun handle :: "(ustr \<Rightarrow> ustr) \<Rightarrow> call \<Rightarrow> request \<Rightarrow> userdb \<Rightarrow> userdb" where
  "handle lower cl (PostDossier b) s = snd (post_dossier lower cl b s)"
| "handle lower cl (PatchDossier k b) s = snd (patch_dossier_by_key (cl_now cl) k b s)"
| "handle lower cl (DeleteDossier k) s = snd (delete_dossier_by_key (cl_now cl) k s)"
| "handle lower cl (PostRule b) s = snd (post_rule lower cl b s)"
| "handle lower cl (PatchRule k b) s = snd (patch_rule_by_key (cl_now cl) k b s)"
| "handle lower cl (DeleteRule k) s = snd (delete_rule_by_key (cl_now cl) k s)"
| "handle lower cl (PutRuleDossiers k dks) s = snd (put_rule_dossiers k dks s)"
| "handle lower cl (PostKnowledge b) s = snd (post_knowledge lower cl b s)"
| "handle lower cl (PatchKnowledge k b) s = snd (patch_knowledge_by_key (cl_now cl) k b s)"
| "handle lower cl (DeleteKnowledge k) s = snd (delete_knowledge_by_key (cl_now cl) k s)"
| "handle lower cl (PutDocumentDef k b) s = snd (put_document_def lower cl k b s)"
| "handle lower cl (DeleteDocumentDef k dk) s = snd (delete_document_def k dk s)"

definition empty_userdb :: userdb where
  "empty_userdb = \<lparr>dossiers = [], docdefs = [], rules = [], links = [], knowledges = []\<rparr>"

text \<open>The generated row id is a new UUID.\<close>

definition fresh_id :: "uuid \<Rightarrow> userdb \<Rightarrow> bool" where
  "fresh_id i s \<longleftrightarrow> i \<notin> dd_id ` set (dossiers s) \<and> i \<notin> ar_id ` set (rules s) \<and> i \<notin> kn_id ` set (knowledges s)
     \<and> i \<notin> df_id ` set (docdefs s)"

inductive ud_reachable :: "(ustr \<Rightarrow> ustr) \<Rightarrow> userdb \<Rightarrow> bool" for lower where
  start: "ud_reachable lower empty_userdb"
| step: "\<lbrakk>ud_reachable lower s; fresh_id (cl_id cl) s\<rbrakk> \<Longrightarrow> ud_reachable lower (handle lower cl req s)"

inductive_cases ud_reachable_stepE: "ud_reachable lower s"

definition links_ok :: "userdb \<Rightarrow> bool" where
  "links_ok s \<longleftrightarrow> distinct (links s) \<and> set (links s) \<subseteq> ar_id ` set (rules s) \<times> dd_id ` set (dossiers s)"

definition docdefs_ok :: "userdb \<Rightarrow> bool" where
  "docdefs_ok s \<longleftrightarrow> distinct (map (\<lambda>d. (df_dossier_id d, df_key d)) (docdefs s))
     \<and> df_dossier_id ` set (docdefs s) \<subseteq> dd_id ` set (dossiers s)"

definition userdata_ok :: "userdb \<Rightarrow> bool" where
  "userdata_ok s \<longleftrightarrow> dossier.wf (dossiers s) \<and> rule.wf (rules s) \<and> knowledge.wf (knowledges s)
     \<and> links_ok s \<and> docdefs_ok s"

lemma set_dedup [simp]: "set (dedup xs) = set xs"
  by (simp add: dedup_def)

lemma distinct_dedup [simp]: "distinct (dedup xs)"
  by (simp add: dedup_def)

lemma dossier_ids: "dd_id ` set ds \<subseteq> dd_id ` set (snd (create_dossier lower c ds))"
  "dd_id ` set (snd (update_dossier u k ds)) = dd_id ` set ds"
  "dd_id ` set (snd (delete_dossiers now ks ds)) = dd_id ` set ds"
proof -
  show "dd_id ` set ds \<subseteq> dd_id ` set (snd (create_dossier lower c ds))"
    by (rule dossier.create_cases [of lower c ds]) auto
  have "map dd_id (upd_where p (patch_dossier u) ds) = map dd_id ds"
    "map dd_id (upd_where p (mark_dossier now) ds) = map dd_id ds" for p
    by (simp_all add: map_upd_where patch_dossier_def mark_dossier_def)
  then have "dd_id ` set (upd_where p (patch_dossier u) ds) = dd_id ` set ds"
    "dd_id ` set (upd_where p (mark_dossier now) ds) = dd_id ` set ds" for p
    by (metis set_map)+
  then show "dd_id ` set (snd (update_dossier u k ds)) = dd_id ` set ds"
    "dd_id ` set (snd (delete_dossiers now ks ds)) = dd_id ` set ds"
    by (simp_all add: update_dossier_def delete_dossiers_def split: option.split)
qed

lemma rule_ids: "ar_id ` set ds \<subseteq> ar_id ` set (snd (create_rule lower c ds))"
  "ar_id ` set (snd (update_rule u k ds)) = ar_id ` set ds"
  "ar_id ` set (snd (delete_rules now ks ds)) = ar_id ` set ds"
proof -
  show "ar_id ` set ds \<subseteq> ar_id ` set (snd (create_rule lower c ds))"
    by (rule rule.create_cases [of lower c ds]) auto
  have "map ar_id (upd_where p (patch_rule u) ds) = map ar_id ds"
    "map ar_id (upd_where p (mark_rule now) ds) = map ar_id ds" for p
    by (simp_all add: map_upd_where patch_rule_def mark_rule_def)
  then have "ar_id ` set (upd_where p (patch_rule u) ds) = ar_id ` set ds"
    "ar_id ` set (upd_where p (mark_rule now) ds) = ar_id ` set ds" for p
    by (metis set_map)+
  then show "ar_id ` set (snd (update_rule u k ds)) = ar_id ` set ds"
    "ar_id ` set (snd (delete_rules now ks ds)) = ar_id ` set ds"
    by (simp_all add: update_rule_def delete_rules_def split: option.split)
qed

text \<open>\<open>set_dossiers\<close> in terms of \<open>get_rule\<close> and \<open>get_dossier\<close>.\<close>

definition dossier_ref :: "ustr \<Rightarrow> userdb \<Rightarrow> uuid" where
  "dossier_ref k s = dd_id (projr (get_dossier k (dossiers s)))"

lemma map_of_filter_find:
  "map_of (map (\<lambda>d. (key d, v d)) (filter P xs)) k = map_option v (find (\<lambda>d. key d = k \<and> P d) xs)"
  by (induction xs) auto

lemma set_dossiers_eq: "set_dossiers rk dks s =
  (case get_rule rk (rules s) of
     Inl e \<Rightarrow> (Inl e, s)
   | Inr r \<Rightarrow>
       if \<exists>k \<in> set dks. get_dossier k (dossiers s) = Inl NotFound then (Inl NotFound, s)
       else (Inr (length (dedup dks)),
             s\<lparr>links := filter (\<lambda>l. fst l \<noteq> ar_id r) (links s) @ map (\<lambda>k. (ar_id r, dossier_ref k s)) (dedup dks)\<rparr>))"
proof -
  define found where "found = map (\<lambda>d. (dd_key d, dd_id d))
    (filter (\<lambda>d. dd_key d \<in> set (dedup dks) \<and> dd_deleted d = None) (dossiers s))"
  have f: "map_of found k = map_option dd_id (find (\<lambda>d. dd_key d = k \<and> dd_deleted d = None) (dossiers s))"
    if "k \<in> set dks" for k
    using that unfolding found_def map_of_filter_find by (intro arg_cong [where f = "map_option dd_id"] find_cong) auto
  have none: "map_of found k = None \<longleftrightarrow> get_dossier k (dossiers s) = Inl NotFound" if "k \<in> set dks" for k
    using f [OF that] by (simp add: get_dossier_def split: option.split)
  have ref: "the (map_of found k) = dossier_ref k s" if "k \<in> set dks" "map_of found k \<noteq> None" for k
    using f [OF that(1)] that(2) by (auto simp: get_dossier_def dossier_ref_def split: option.splits)
  have miss: "filter (\<lambda>k. map_of found k = None) (dedup dks) \<noteq> [] \<longleftrightarrow> (\<exists>k \<in> set dks. get_dossier k (dossiers s) = Inl NotFound)"
    using none by (auto simp: filter_empty_conv)
  have ids: "map (\<lambda>i. (x, i)) (map (\<lambda>k. the (map_of found k)) (dedup dks)) = map (\<lambda>k. (x, dossier_ref k s)) (dedup dks)"
    if "\<not> (\<exists>k \<in> set dks. get_dossier k (dossiers s) = Inl NotFound)" for x
    using that none ref by simp
  show ?thesis
    unfolding set_dossiers_def Let_def found_def [symmetric]
    using miss ids by (simp split: sum.split)
qed

lemma get_dossier_Inr: "get_dossier k ds = Inr d \<Longrightarrow> d \<in> set ds \<and> dd_key d = k \<and> dd_deleted d = None"
  by (auto simp: dossier.get_Inr dest: find_Some_in)

lemma get_rule_Inr: "get_rule k ds = Inr d \<Longrightarrow> d \<in> set ds \<and> ar_key d = k \<and> ar_deleted d = None"
  by (auto simp: rule.get_Inr dest: find_Some_in)

lemma get_dossier_found: "get_dossier k ds \<noteq> Inl NotFound \<Longrightarrow> get_dossier k ds = Inr (projr (get_dossier k ds))"
  by (auto simp: get_dossier_def split: option.splits)

lemma dossier_ref_inj:
  assumes "dossier.wf (dossiers s)" "\<forall>k \<in> set ks. get_dossier k (dossiers s) \<noteq> Inl NotFound"
  shows "inj_on (\<lambda>k. dossier_ref k s) (set ks)"
proof
  fix j k
  assume jk: "j \<in> set ks" "k \<in> set ks" "dossier_ref j s = dossier_ref k s"
  define d where "d = projr (get_dossier j (dossiers s))"
  define e where "e = projr (get_dossier k (dossiers s))"
  have d: "get_dossier j (dossiers s) = Inr d" "get_dossier k (dossiers s) = Inr e"
    using assms(2) jk get_dossier_found unfolding d_def e_def by blast+
  then have de: "d \<in> set (dossiers s)" "e \<in> set (dossiers s)" "dd_key d = j" "dd_key e = k"
    by (auto dest: get_dossier_Inr)
  have "dd_id d = dd_id e" using jk(3) by (simp add: dossier_ref_def d)
  with de assms(1) have "d = e" by (auto simp: dossier.wf_def distinct_map dest: inj_onD)
  with de show "j = k" by simp
qed

lemma links_ok_set: "\<lbrakk>userdata_ok s\<rbrakk> \<Longrightarrow> links_ok (snd (set_dossiers rk dks s))"
proof (cases "get_rule rk (rules s)")
  case (Inr r)
  assume ok: "userdata_ok s"
  show ?thesis
  proof (cases "\<exists>k \<in> set dks. get_dossier k (dossiers s) = Inl NotFound")
    case False
    then have all: "\<forall>k \<in> set dks. get_dossier k (dossiers s) \<noteq> Inl NotFound" by blast
    have refs: "dossier_ref k s \<in> dd_id ` set (dossiers s)" if "k \<in> set dks" for k
      using get_dossier_found [OF all [rule_format, OF that]] get_dossier_Inr
      by (fastforce simp: dossier_ref_def)
    have "distinct (map (\<lambda>k. (ar_id r, dossier_ref k s)) (dedup dks))"
      using dossier_ref_inj [of s dks] ok all by (auto simp: distinct_map inj_on_def userdata_ok_def)
    then show ?thesis
      using ok refs get_rule_Inr [OF Inr] False
      by (auto simp: set_dossiers_eq Inr links_ok_def userdata_ok_def)
  qed (use ok in \<open>simp add: set_dossiers_eq Inr userdata_ok_def\<close>)
qed (simp add: set_dossiers_eq userdata_ok_def)

lemma userdata_ok_handle:
  assumes "userdata_ok s" "fresh_id (cl_id cl) s"
  shows "userdata_ok (handle lower cl req s)"
proof -
  have mono: "links_ok (s\<lparr>dossiers := ds\<rparr>) \<and> docdefs_ok (s\<lparr>dossiers := ds\<rparr>)"
    if "dd_id ` set (dossiers s) \<subseteq> dd_id ` set ds" for ds
    using assms(1) that by (auto simp: userdata_ok_def links_ok_def docdefs_ok_def subset_iff)
  have rmono: "links_ok (s\<lparr>rules := rs\<rparr>)" if "ar_id ` set (rules s) \<subseteq> ar_id ` set rs" for rs
    using assms(1) that by (auto simp: userdata_ok_def links_ok_def subset_iff)
  note wf = dossier.wf_create dossier.wf_update dossier.wf_delete rule.wf_create rule.wf_update rule.wf_delete
    knowledge.wf_create knowledge.wf_update knowledge.wf_delete
  show ?thesis
  proof (cases req)
    case (PutRuleDossiers k dks)
    have "dossiers (snd (set_dossiers k dks s)) = dossiers s \<and> rules (snd (set_dossiers k dks s)) = rules s
        \<and> knowledges (snd (set_dossiers k dks s)) = knowledges s \<and> docdefs (snd (set_dossiers k dks s)) = docdefs s"
      by (simp add: set_dossiers_eq split: sum.split)
    with links_ok_set [OF assms(1), of k dks] assms(1) show ?thesis
      by (simp add: PutRuleDossiers router_defs split_beta Let_def userdata_ok_def docdefs_ok_def)
  next
    case (PutDocumentDef k b)
    show ?thesis
    proof (cases "dossier_id_of k s")
      case (Inr i)
      have "i \<in> dd_id ` set (dossiers s)" using Inr get_dossier_Inr by (fastforce simp: dossier_id_of_def)
      then have "docdefs_ok (s\<lparr>docdefs := snd (put_docdef (lower, cl, i, b) (docdefs s))\<rparr>)"
      proof -
        have k: "fst (docdef_key (lower, cl, i, b)) = i" by (simp add: docdef_key_def)
        have "set (map (\<lambda>d. (df_dossier_id d, df_key d)) (snd (put_docdef (lower, cl, i, b) (docdefs s))))
            \<subseteq> insert (docdef_key (lower, cl, i, b)) (set (map (\<lambda>d. (df_dossier_id d, df_key d)) (docdefs s)))"
          unfolding docdef.put_keys by simp blast
        then have "fst ` set (map (\<lambda>d. (df_dossier_id d, df_key d)) (snd (put_docdef (lower, cl, i, b) (docdefs s))))
            \<subseteq> fst ` insert (docdef_key (lower, cl, i, b)) (set (map (\<lambda>d. (df_dossier_id d, df_key d)) (docdefs s)))"
          by (rule image_mono)
        then have "df_dossier_id ` set (snd (put_docdef (lower, cl, i, b) (docdefs s))) \<subseteq> insert i (df_dossier_id ` set (docdefs s))"
          unfolding image_insert k set_map image_image fst_conv .
        moreover assume "i \<in> dd_id ` set (dossiers s)"
        ultimately show ?thesis
          using assms(1) docdef.put_distinct [of "docdefs s" "(lower, cl, i, b)"]
          by (auto simp: docdefs_ok_def userdata_ok_def)
      qed
      then show ?thesis
        using assms(1) by (simp add: PutDocumentDef router_defs upsert_document_def Inr split_beta Let_def userdata_ok_def links_ok_def)
    qed (use assms(1) in \<open>simp add: PutDocumentDef router_defs upsert_document_def\<close>)
  next
    case (DeleteDocumentDef k dk)
    show ?thesis
      using assms(1) by (auto simp: DeleteDocumentDef router_defs delete_document_def split_beta Let_def userdata_ok_def
          links_ok_def docdefs_ok_def distinct_map_filterI split: sum.split)
  qed (use assms mono rmono wf dossier_ids rule_ids in
      \<open>auto simp: router_defs split_beta Let_def userdata_ok_def fresh_id_def docdefs_ok_def links_ok_def\<close>)
qed

subsection \<open>Properties\<close>

text \<open>
  C11.  The state invariant of the user data.  In every state the routers can reach, whatever
  requests they serve: row ids are unique in each table, a key names at most one live dossier,
  one live rule and one live knowledge entry, a document definition belongs to an existing
  dossier and is alone under its key there, and the links are distinct pairs of an existing
  rule and an existing dossier.
\<close>

theorem userdata_invariant:
  assumes "ud_reachable lower s"
  shows "userdata_ok s"
  using assms
proof induction
  case start
  show ?case
    by (simp add: empty_userdb_def userdata_ok_def dossier.wf_def rule.wf_def knowledge.wf_def links_ok_def
        docdefs_ok_def dossier.live_def rule.live_def knowledge.live_def)
next
  case (step s cl req)
  then show ?case by (simp add: userdata_ok_handle)
qed

theorem userdata_invariant_witness:
  "userdata_ok (handle id \<lparr>cl_now = 1, cl_id = 7, cl_suffix = []\<rparr>
     (PostDossier \<lparr>dc_name = lit ''Payment'', dc_key = Some (lit ''pay''), dc_description = None\<rparr>) empty_userdb)"
  by (rule userdata_invariant [of id], rule ud_reachable.step, rule ud_reachable.start) (simp add: fresh_id_def empty_userdb_def)

text \<open>
  The life of a dossier key.  A dossier that was created is answered by its key; creating
  its key again is a conflict that changes nothing; deleting it reports one row, makes the key
  unknown (404) and a second deletion reports none; and then the key can be taken by a new
  dossier with its own id, while the deleted row is still in the table, marked.
\<close>

theorem dossier_key_lifecycle:
  assumes "post_dossier lower cl b s = (Response 201 d, s1)" and "dossier.wf (dossiers s1)"
    and "dossier_ckey lower (cl2, b2) = dd_key d" and "delete_dossier_by_key now (dd_key d) s1 = (r, s2)"
  shows "get_dossier_by_key (dd_key d) s1 = Response 200 d
    \<and> post_dossier lower cl2 b2 s1 = (HttpError 409, s1)
    \<and> r = Response 200 1
    \<and> get_dossier_by_key (dd_key d) s2 = HttpError 404
    \<and> fst (delete_dossier_by_key now' (dd_key d) s2) = Response 200 0
    \<and> (\<exists>d'. fst (post_dossier lower cl2 b2 s2) = Response 201 d' \<and> dd_id d' = cl_id cl2)
    \<and> mark_dossier now d \<in> set (dossiers (snd (post_dossier lower cl2 b2 s2)))"
proof -
  let ?k = "dd_key d"
  have s1: "fst (create_dossier lower (cl, b) (dossiers s)) = Inr d"
    "dossiers s1 = snd (create_dossier lower (cl, b) (dossiers s))"
    using assms(1) by (auto simp: router_defs split_beta Let_def elim: answer.elims)
  then have d: "dossiers s1 = dossiers s @ [d]" "?k = dossier_ckey lower (cl, b)" "dd_deleted d = None"
    by (cases rule: dossier.create_cases [of lower "(cl, b)" "dossiers s"]; simp)+
  have live: "\<exists>x \<in> set (dossiers s1). dd_key x = ?k \<and> dd_deleted x = None" using d by auto
  have g: "get_dossier ?k (dossiers s1) = Inr d" using d(2) s1 dossier.create_get by simp
  have dup: "create_dossier lower (cl2, b2) (dossiers s1) = (Inl DuplicateKey, dossiers s1)"
    by (rule dossier.create_dup) (use live assms(3) in simp)
  have del: "dossiers s2 = snd (delete_dossiers now [?k] (dossiers s1))" "r = Response 200 (fst (delete_dossiers now [?k] (dossiers s1)))"
    using assms(4) by (auto simp: router_defs split_beta Let_def)
  have one: "fst (delete_dossiers now [?k] (dossiers s1)) = 1"
  proof -
    have "distinct (map dd_key (filter (\<lambda>x. dd_deleted x = None) (dossiers s1)))"
      using assms(2) by (simp add: dossier.wf_def dossier.live_def)
    then have "distinct (map dd_key (filter (\<lambda>x. dd_deleted x = None) (dossiers s))) \<and>
        ?k \<notin> dd_key ` set (filter (\<lambda>x. dd_deleted x = None) (dossiers s))"
      using d by auto
    then have "filter (\<lambda>x. dd_key x = ?k \<and> dd_deleted x = None) (dossiers s) = []"
      by (auto simp: filter_empty_conv image_iff)
    then show ?thesis using d by (simp add: delete_dossiers_def)
  qed
  have mark: "mark_dossier now d \<in> set (dossiers s2)"
    unfolding del(1) using d by (auto simp: delete_dossiers_def)
  obtain d' where d': "create_dossier lower (cl2, b2) (dossiers s2) = (Inr d', dossiers s2 @ [d'])" "dd_id d' = cl_id cl2"
    using dossier.delete_create [of lower "(cl2, b2)" "[?k]" now "dossiers s1"] assms(3) unfolding del(1) by auto
  show ?thesis
    using g dup del(2) one mark d' dossier.delete_get [of ?k "[?k]" now "dossiers s1"]
      dossier.delete_again [of now' "[?k]" now "dossiers s1"]
    by (simp add: router_defs split_beta Let_def del(1) [symmetric])
qed

definition demo_call :: "nat \<Rightarrow> call" where
  "demo_call n = \<lparr>cl_now = int n, cl_id = n, cl_suffix = lit ''abc123''\<rparr>"

definition demo_dossier :: dossier_create where
  "demo_dossier = \<lparr>dc_name = lit ''Payment'', dc_key = Some (lit ''pay''), dc_description = None\<rparr>"

definition demo_dossier_row :: dossier_def where
  "demo_dossier_row = \<lparr>dd_id = 1, dd_key = lit ''pay'', dd_name = lit ''Payment'', dd_description = None,
     dd_deleted = None, dd_created = 1, dd_updated = 1\<rparr>"

theorem dossier_key_lifecycle_witness:
  "get_dossier_by_key (lit ''pay'') (snd (delete_dossier_by_key 5 (lit ''pay'')
     (snd (post_dossier id (demo_call 1) demo_dossier empty_userdb)))) = HttpError 404"
proof -
  have "dossier_ckey id (demo_call 2, demo_dossier) = dd_key demo_dossier_row"
    by (simp add: dossier_ckey_def demo_dossier_def demo_dossier_row_def key_or_gen_def lit_def)
  moreover have "post_dossier id (demo_call 1) demo_dossier empty_userdb
      = (Response 201 demo_dossier_row, empty_userdb\<lparr>dossiers := [demo_dossier_row]\<rparr>)"
    by (simp add: post_dossier_def create_dossier_def demo_call_def demo_dossier_def demo_dossier_row_def
        empty_userdb_def key_or_gen_def lit_def Let_def)
  moreover have "dossier.wf [demo_dossier_row]" by (simp add: dossier.wf_def dossier.live_def)
  ultimately show ?thesis
    using dossier_key_lifecycle [of id "demo_call 1" demo_dossier empty_userdb demo_dossier_row
        "empty_userdb\<lparr>dossiers := [demo_dossier_row]\<rparr>" "demo_call 2" demo_dossier 5
        "fst (delete_dossier_by_key 5 (lit ''pay'') (empty_userdb\<lparr>dossiers := [demo_dossier_row]\<rparr>))"
        "snd (delete_dossier_by_key 5 (lit ''pay'') (empty_userdb\<lparr>dossiers := [demo_dossier_row]\<rparr>))" 6]
    by (simp add: demo_dossier_row_def)
qed

text \<open>
  \<open>PUT /agent-rules/{key}/dossiers\<close> replaces the links of the rule, all or nothing.  It
  answers 404 and changes nothing when the rule or one of the dossiers is unknown; otherwise it
  reports the number of distinct keys given, the rule is then linked to exactly these dossiers,
  and the links of every other rule are as they were.
\<close>

theorem set_dossiers_replaces:
  assumes "userdata_ok s" and "put_rule_dossiers rk dks s = (resp, s')"
  shows "(case get_rule rk (rules s) of
      Inl e \<Rightarrow> resp = HttpError 404 \<and> s' = s
    | Inr r \<Rightarrow>
        if \<exists>k \<in> set dks. get_dossier_by_key k s = HttpError 404 then resp = HttpError 404 \<and> s' = s
        else resp = Response 200 (card (set dks))
          \<and> {i. (ar_id r, i) \<in> set (links s')} = (\<lambda>k. dd_id (projr (get_dossier k (dossiers s)))) ` set dks
          \<and> (\<forall>q i. q \<noteq> ar_id r \<longrightarrow> ((q, i) \<in> set (links s') \<longleftrightarrow> (q, i) \<in> set (links s)))
          \<and> dossiers s' = dossiers s \<and> rules s' = rules s)"
proof (cases "get_rule rk (rules s)")
  case (Inl e)
  then have "e = NotFound" by (simp add: rule.get_Inl)
  with Inl assms(2) show ?thesis by (auto simp: router_defs set_dossiers_eq)
next
  case (Inr r)
  have nf: "get_dossier_by_key k s = HttpError 404 \<longleftrightarrow> get_dossier k (dossiers s) = Inl NotFound" for k
    by (auto simp: get_dossier_by_key_def get_dossier_def split: option.splits)
  have len: "length (dedup dks) = card (set dks)" by (metis distinct_card distinct_dedup set_dedup)
  show ?thesis
  proof (cases "\<exists>k \<in> set dks. get_dossier k (dossiers s) = Inl NotFound")
    case True
    then have ex: "\<exists>k \<in> set dks. get_dossier_by_key k s = HttpError 404" by (simp add: nf)
    from True Inr assms(2) have "resp = HttpError 404" "s' = s" by (auto simp: put_rule_dossiers_def set_dossiers_eq)
    with Inr ex show ?thesis by simp
  next
    case False
    define ls where "ls = filter (\<lambda>l. fst l \<noteq> ar_id r) (links s) @ map (\<lambda>k. (ar_id r, dossier_ref k s)) (dedup dks)"
    have "resp = Response 200 (card (set dks))" "s' = s\<lparr>links := ls\<rparr>"
      using Inr False assms(2) len by (auto simp: put_rule_dossiers_def set_dossiers_eq ls_def)
    moreover have "{i. (ar_id r, i) \<in> set ls} = (\<lambda>k. dossier_ref k s) ` set dks" by (auto simp: ls_def)
    moreover have "(q, i) \<in> set ls \<longleftrightarrow> (q, i) \<in> set (links s)" if "q \<noteq> ar_id r" for q i
      using that by (auto simp: ls_def)
    ultimately show ?thesis using Inr False by (simp add: nf dossier_ref_def)
  qed
qed

definition demo_rule_row :: agent_rule where
  "demo_rule_row = \<lparr>ar_id = 9, ar_key = lit ''r'', ar_name = lit ''R'', ar_body = [], ar_deleted = None,
     ar_created = 2, ar_updated = 2\<rparr>"

definition demo_userdb :: userdb where
  "demo_userdb = empty_userdb\<lparr>dossiers := [demo_dossier_row], rules := [demo_rule_row], links := [(9, 1)]\<rparr>"

theorem set_dossiers_replaces_witness:
  "fst (put_rule_dossiers (lit ''r'') [lit ''pay'', lit ''pay''] demo_userdb) = Response 200 1"
proof -
  have "userdata_ok demo_userdb"
    by (simp add: demo_userdb_def empty_userdb_def userdata_ok_def dossier.wf_def rule.wf_def knowledge.wf_def
        links_ok_def docdefs_ok_def dossier.live_def rule.live_def knowledge.live_def demo_dossier_row_def demo_rule_row_def)
  from set_dossiers_replaces [OF this, of "lit ''r''" "[lit ''pay'', lit ''pay'']"
      "fst (put_rule_dossiers (lit ''r'') [lit ''pay'', lit ''pay''] demo_userdb)"
      "snd (put_rule_dossiers (lit ''r'') [lit ''pay'', lit ''pay''] demo_userdb)"]
  show ?thesis
    by (simp add: demo_userdb_def get_rule_def demo_rule_row_def get_dossier_by_key_def get_dossier_def demo_dossier_row_def)
qed

text \<open>
  Walking the pages of the dossier list.  For a page size between 1 and 200, the first
  \<open>n\<close> pages, one after the other, are the first \<open>n * limit\<close> live dossiers in the listing's
  order, newest first, and a page reports that more follow exactly when some are left; so a
  client that follows \<open>has_more\<close> sees every live dossier exactly once.
\<close>

theorem list_dossiers_pages:
  assumes "1 \<le> per" "per \<le> 200"
  shows "\<exists>order. sorted_wrt (\<lambda>d e. dd_created e \<le> dd_created d) order \<and> mset order = mset (dossier.live ds)
    \<and> concat (map (\<lambda>i. items (list_dossiers (Some (int per)) (int (i * per)) ds)) [0..<n]) = take (n * per) order
    \<and> (\<forall>i. has_more (list_dossiers (Some (int per)) (int (i * per)) ds) \<longleftrightarrow> Suc i * per < length order)"
proof -
  define order where "order = sort_key (\<lambda>d. (- dd_created d, dd_id d)) (filter (\<lambda>d. dd_deleted d = None) ds)"
  have page: "list_dossiers (Some (int per)) (int (i * per)) ds = page_of order per (i * per)" for i
  proof -
    have "page_bounds (Some (int per)) (int (i * per)) = (per, i * per)"
      using assms by (simp add: page_bounds_def nat_mult_distrib)
    then show ?thesis by (simp add: list_dossiers_def order_def)
  qed
  have "sorted (map (\<lambda>d. (- dd_created d, dd_id d)) order)" by (simp add: order_def)
  then have "sorted_wrt (\<lambda>d e. (- dd_created d, dd_id d) \<le> (- dd_created e, dd_id e)) order"
    by (simp add: sorted_map)
  then have "sorted_wrt (\<lambda>d e. dd_created e \<le> dd_created d) order"
    by (rule sorted_wrt_mono_rel [rotated]) (auto simp: less_eq_prod_def)
  moreover have "mset order = mset (dossier.live ds)" by (simp add: order_def dossier.live_def)
  moreover have "concat (map (\<lambda>i. items (page_of order per (i * per))) [0..<n]) = take (n * per) order"
  proof (induction n)
    case (Suc n)
    have "Suc n * per = n * per + per" by simp
    then have "take (Suc n * per) order = take (n * per) order @ take per (drop (n * per) order)"
      by (simp only: take_add)
    with Suc show ?case by (simp add: page_of_items)
  qed simp
  ultimately show ?thesis unfolding page by (auto simp: page_of_has_more add.commute)
qed

theorem list_dossiers_pages_witness:
  "has_more (list_dossiers (Some 1) 0 [demo_dossier_row, demo_dossier_row\<lparr>dd_id := 2, dd_key := lit ''k''\<rparr>])"
proof -
  obtain order where o: "mset order = mset (dossier.live [demo_dossier_row, demo_dossier_row\<lparr>dd_id := 2, dd_key := lit ''k''\<rparr>])"
    "\<forall>i. has_more (list_dossiers (Some 1) (int (i * 1)) [demo_dossier_row, demo_dossier_row\<lparr>dd_id := 2, dd_key := lit ''k''\<rparr>])
      \<longleftrightarrow> Suc i * 1 < length order"
    using list_dossiers_pages [of 1 "[demo_dossier_row, demo_dossier_row\<lparr>dd_id := 2, dd_key := lit ''k''\<rparr>]" 0] by auto
  have "length order = 2" using mset_eq_length [OF o(1)] by (simp add: dossier.live_def demo_dossier_row_def)
  then show ?thesis using o(2) [rule_format, of 0] by simp
qed

text \<open>
  \<open>PUT /dossiers/{key}/documents\<close> is idempotent.  When it is served twice for the same
  document key, the second time answers a row with the id of the first and the contents of the
  second request, no row is added, the document is then found under its key, and the documents
  of other keys and dossiers are as before.
\<close>

theorem put_document_def_idempotent:
  assumes "docdefs_ok s" and "put_document_def lower cl k b s = (Response 200 d, s1)"
    and "put_document_def lower cl2 k b2 s1 = (Response 200 d2, s2)"
    and "key_or_gen lower (cl_suffix cl2) (dp_name b2) (dp_key b2) = df_key d"
  shows "df_id d2 = df_id d \<and> df_name d2 = dp_name b2 \<and> df_look_for d2 = dp_look_for b2
    \<and> length (docdefs s2) = length (docdefs s1)
    \<and> get_document_def k (df_key d) s2 = Response 200 d2
    \<and> (\<forall>i j. (i, j) \<noteq> (df_dossier_id d, df_key d) \<longrightarrow>
         filter (\<lambda>e. (df_dossier_id e, df_key e) = (i, j)) (docdefs s2) =
         filter (\<lambda>e. (df_dossier_id e, df_key e) = (i, j)) (docdefs s))"
proof -
  obtain i where i: "dossier_id_of k s = Inr i"
    using assms(2) by (cases "dossier_id_of k s") (auto simp: put_document_def_def upsert_document_def)
  define a where "a = (lower, cl, i, b)"
  define a2 where "a2 = (lower, cl2, i, b2)"
  have s1: "d = fst (put_docdef a (docdefs s))" "s1 = s\<lparr>docdefs := snd (put_docdef a (docdefs s))\<rparr>"
    using assms(2) i by (auto simp: put_document_def_def upsert_document_def a_def split_beta Let_def)
  have i2: "dossier_id_of k s1 = Inr i" using i by (simp add: s1(2) dossier_id_of_def)
  have s2: "d2 = fst (put_docdef a2 (docdefs s1))" "s2 = s1\<lparr>docdefs := snd (put_docdef a2 (docdefs s1))\<rparr>"
    using assms(3) i2 by (auto simp: put_document_def_def upsert_document_def a2_def split_beta Let_def)
  have dist: "distinct (map (\<lambda>d. (df_dossier_id d, df_key d)) (docdefs s))" using assms(1) by (simp add: docdefs_ok_def)
  have ka: "docdef_key a = (df_dossier_id d, df_key d)" "df_dossier_id d = i"
    using docdef.put_row [of a "docdefs s"] by (auto simp: s1(1) a_def docdef_key_def)
  have k2: "docdef_key a2 = docdef_key a" using ka assms(4) by (simp add: a2_def docdef_key_def)
  have row2: "(df_dossier_id d2, df_key d2) = docdef_key a2 \<and> df_name d2 = dp_name b2 \<and> df_look_for d2 = dp_look_for b2"
    using docdef.put_row [of a2 "docdefs s1"] by (simp add: s2(1) a2_def)
  have again: "df_id d2 = df_id d" "length (docdefs s2) = length (docdefs s1)"
    using docdef.put_again [OF dist k2] by (simp_all add: s1 s2)
  have "find (\<lambda>d. (df_dossier_id d, df_key d) = docdef_key a2) (docdefs s2) = Some d2"
    using docdef.put_lookup [of "docdefs s1" a2] docdef.put_distinct [OF dist, of a] by (simp add: s1 s2)
  moreover have i3: "dossier_id_of k s2 = Inr i" using i2 by (simp add: s2(2) dossier_id_of_def)
  ultimately have "get_document k (df_key d) s2 = Inr d2"
    unfolding get_document_def i3 bindE.simps using k2 ka by simp
  moreover have "filter (\<lambda>e. (df_dossier_id e, df_key e) = (x, y)) (docdefs s2) =
      filter (\<lambda>e. (df_dossier_id e, df_key e) = (x, y)) (docdefs s)" if "(x, y) \<noteq> docdef_key a" for x y
    using docdef.put_other [of "(x, y)" a "docdefs s"] docdef.put_other [of "(x, y)" a2 "docdefs s1"] that k2
    by (simp add: s1 s2)
  ultimately show ?thesis
    using again row2 ka by (auto simp: get_document_def_def)
qed

definition demo_upsert :: "string \<Rightarrow> document_upsert" where
  "demo_upsert n = \<lparr>dp_name = lit n, dp_key = Some (lit ''inv''), dp_description = None, dp_look_for = None\<rparr>"

theorem put_document_def_idempotent_witness:
  "\<exists>d d2. fst (put_document_def id (demo_call 3) (lit ''pay'') (demo_upsert ''A'') demo_userdb) = Response 200 d
    \<and> fst (put_document_def id (demo_call 4) (lit ''pay'') (demo_upsert ''B'')
        (snd (put_document_def id (demo_call 3) (lit ''pay'') (demo_upsert ''A'') demo_userdb))) = Response 200 d2
    \<and> df_id d2 = df_id d"
proof -
  have a: "\<exists>d s1. put_document_def id (demo_call n) (lit ''pay'') (demo_upsert x) (demo_userdb\<lparr>docdefs := ds\<rparr>) = (Response 200 d, s1)
      \<and> df_key d = lit ''inv'' \<and> s1 = demo_userdb\<lparr>docdefs := snd (put_docdef (id, demo_call n, 1, demo_upsert x) ds)\<rparr>" for n x ds
    using docdef.put_row [of "(id, demo_call n, 1, demo_upsert x)" ds]
    by (simp add: put_document_def_def upsert_document_def dossier_id_of_def get_dossier_def demo_userdb_def
        demo_dossier_row_def split_beta Let_def docdef_key_def demo_upsert_def key_or_gen_def lit_def)
  obtain d s1 where 1: "put_document_def id (demo_call 3) (lit ''pay'') (demo_upsert ''A'') demo_userdb = (Response 200 d, s1)"
    "df_key d = lit ''inv''" "s1 = demo_userdb\<lparr>docdefs := snd (put_docdef (id, demo_call 3, 1, demo_upsert ''A'') [])\<rparr>"
    using a [of 3 "''A''" "[]"] by (auto simp: demo_userdb_def empty_userdb_def)
  obtain d2 s2 where 2: "put_document_def id (demo_call 4) (lit ''pay'') (demo_upsert ''B'') s1 = (Response 200 d2, s2)"
    using a [of 4 "''B''"] unfolding 1(3) by blast
  have "df_id d2 = df_id d"
    using put_document_def_idempotent [OF _ 1(1) 2] 1(2)
    by (simp add: docdefs_ok_def demo_userdb_def empty_userdb_def key_or_gen_def demo_upsert_def lit_def)
  with 1 2 show ?thesis by auto
qed

end
