(* ===== verification/Mining.thy ===== *)
theory Mining
  imports Audits Results Userdata
begin

section \<open>Document mining\<close>

text \<open>
  \<open>doci/workflows/langgraph_document_mining/\<close>, its image and PDF child workflows, their three
  tasks, and \<open>doci/workflows/dossierspec.py\<close>.  The activities that parse, render or ask a model
  (pymupdf, the chat models) are the fields of \<open>activities\<close>; \<open>None\<close> means that they raise.  A run
  works on the world, database and object store; \<open>seq\<close> stops at the first exception and keeps what
  was written before it.  The pages of a PDF are processed in the order \<open>ac_sched\<close> gives, one of
  the interleavings of \<open>asyncio.gather\<close>; like \<open>gather\<close> it runs every page even when one raises.
\<close>

subsection \<open>Effects\<close>

datatype mine_error = MineDocument doc_error | MineNotReady | MinePart part_error | MineBlob blob_error
  | MineObject | MineResult result_error | MineActivity | MineUserdata userdata_error | MineEnqueue | MineTimeout

type_synonym 'a mine = "world \<Rightarrow> (mine_error + 'a) \<times> world"

definition seq :: "'a mine \<Rightarrow> ('a \<Rightarrow> 'b mine) \<Rightarrow> 'b mine" where
  "seq m f w = (case m w of (Inl e, v) \<Rightarrow> (Inl e, v) | (Inr x, v) \<Rightarrow> f x v)"

definition done_with :: "'a \<Rightarrow> 'a mine" where
  "done_with x w = (Inr x, w)"

definition raise :: "mine_error \<Rightarrow> 'a mine" where
  "raise e w = (Inl e, w)"

definition run_db :: "('e \<Rightarrow> mine_error) \<Rightarrow> (db \<Rightarrow> ('e + 'a) \<times> db) \<Rightarrow> 'a mine" where
  "run_db err g w = (let (r, s) = g (wdb w) in (case r of Inl e \<Rightarrow> Inl (err e) | Inr x \<Rightarrow> Inr x, w\<lparr>wdb := s\<rparr>))"

definition run_world :: "('e \<Rightarrow> mine_error) \<Rightarrow> (world \<Rightarrow> ('e + 'a) \<times> world) \<Rightarrow> 'a mine" where
  "run_world err g w = (let (r, v) = g w in (case r of Inl e \<Rightarrow> Inl (err e) | Inr x \<Rightarrow> Inr x, v))"

definition write_db :: "(db \<Rightarrow> db) \<Rightarrow> unit mine" where
  "write_db f w = (Inr (), upd_db f w)"

definition activity :: "'a option \<Rightarrow> 'a mine" where
  "activity r = (case r of None \<Rightarrow> raise MineActivity | Some x \<Rightarrow> done_with x)"

subsection \<open>Types and dossier\<close>

datatype document_type = PdfType | ImageType

definition by_mime :: "(ustr \<times> document_type) list" where
  "by_mime = [(mime_str Pdf, PdfType), (mime_str Png, ImageType), (mime_str Jpeg, ImageType), (mime_str Gif, ImageType),
     (mime_str Webp, ImageType), (mime_str Bmp, ImageType), (mime_str Tiff, ImageType)]"

definition classify :: "ustr option \<Rightarrow> document_type option" where
  "classify m = (case m of None \<Rightarrow> None | Some k \<Rightarrow> map_of by_mime k)"

datatype route = ToPdf | ToImage | ToUnsupported

definition route_by_type :: "document_type option \<Rightarrow> route" where
  "route_by_type t = (case t of Some PdfType \<Rightarrow> ToPdf | Some ImageType \<Rightarrow> ToImage | None \<Rightarrow> ToUnsupported)"

record dossier_item =
  di_key :: ustr
  di_name :: ustr
  di_description :: "ustr option"
  di_look_for :: "ustr option"

record dossier_spec =
  ds_key :: ustr
  ds_name :: ustr
  ds_items :: "dossier_item list"

text \<open>
  The dossier is read, then its documents: the userdata at either time.  Only the first read is in the \<open>try\<close>.
\<close>

definition resolve_dossier_spec :: "ustr option \<Rightarrow> userdb \<times> userdb \<Rightarrow> userdata_error + dossier_spec option" where
  "resolve_dossier_spec key u =
     (case key of None \<Rightarrow> Inr None | Some k \<Rightarrow>
        if k = [] then Inr None
        else case get_dossier k (dossiers (fst u)) of
          Inl NotFound \<Rightarrow> Inr None
        | Inl e \<Rightarrow> Inl e
        | Inr d \<Rightarrow> bindE (list_documents k (snd u)) (\<lambda>docs. Inr (Some
            \<lparr>ds_key = dd_key d, ds_name = dd_name d,
             ds_items = map (\<lambda>x. \<lparr>di_key = df_key x, di_name = df_name x, di_description = df_description x,
                                 di_look_for = df_look_for x\<rparr>) docs\<rparr>)))"

subsection \<open>Activities\<close>

record pdf_page =
  pg_number :: nat
  pg_count :: nat
  pg_content :: "byte list"
  pg_text_len :: nat
  pg_images :: nat
  pg_annots :: bool

datatype page_kind = TextPage | ImagePage

definition classify_page :: "pdf_page \<Rightarrow> page_kind" where
  "classify_page p = (if 0 < pg_text_len p \<and> pg_images p = 0 \<and> \<not> pg_annots p then TextPage else ImagePage)"

text \<open>A split page in the state of the graph, and what its processing returns.\<close>

record page_handle =
  ph_number :: nat
  ph_kind :: page_kind
  ph_media :: "uuid option"
  ph_part :: uuid

record page_result =
  po_number :: nat
  po_kind :: page_kind
  po_media :: "uuid option"
  po_thumb :: "uuid option"
  po_extract :: "ustr option"
  po_annotation :: "ustr option"

text \<open>The row ids the database and \<open>uuid4\<close> choose for one page, and the clock.\<close>

record fresh_ids =
  fi_now :: time
  fi_part :: uuid
  fi_blob :: uuid
  fi_thumb :: uuid
  fi_extract :: uuid
  fi_annotation :: uuid

record activities =
  ac_split :: "byte list \<Rightarrow> pdf_page list option"
  ac_render :: "byte list \<Rightarrow> byte list option"
  ac_extract_pdf :: "byte list \<Rightarrow> ustr option"
  ac_annotate_text :: "ustr \<Rightarrow> dossier_spec option \<Rightarrow> bool \<Rightarrow> ustr option"
  ac_thumb_pdf :: "byte list \<Rightarrow> byte list option"
  ac_extract_image :: "byte list \<Rightarrow> ustr option"
  ac_annotate_image :: "byte list \<Rightarrow> dossier_spec option \<Rightarrow> bool \<Rightarrow> ustr option"
  ac_thumb_image :: "byte list \<Rightarrow> byte list option"
  ac_loads :: "ustr \<Rightarrow> json option"
  ac_ids :: "nat \<Rightarrow> fresh_ids"
  ac_sched :: "page_handle list \<Rightarrow> page_handle list"

text \<open>\<open>download\<close>: \<open>None\<close> is a part without a blob, which \<open>MediaService.get\<close> does not find.\<close>

definition download :: "uuid option \<Rightarrow> byte list mine" where
  "download i w = (case i of None \<Rightarrow> (Inl (MineBlob (BlobMedia MediaNotFound)), w)
     | Some m \<Rightarrow> (case media_download m w of
         Inl e \<Rightarrow> (Inl (MineBlob (BlobMedia e)), w)
       | Inr None \<Rightarrow> (Inl MineObject, w)
       | Inr (Some d) \<Rightarrow> (Inr d, w)))"

definition thumb_of :: "fresh_ids \<Rightarrow> uuid option \<Rightarrow> byte list option \<Rightarrow> media_row mine" where
  "thumb_of fi i png = (case i of None \<Rightarrow> raise (MineBlob (BlobMedia MediaNotFound))
     | Some m \<Rightarrow> run_world MineBlob (ensure_thumb (fi_now fi) (fi_thumb fi) m
         (\<lambda>_. map_option (\<lambda>d. (d, Some (mime_str Png))) png)))"

definition save :: "activities \<Rightarrow> fresh_ids \<Rightarrow> uuid \<Rightarrow> uuid \<Rightarrow> ustr \<Rightarrow> ustr \<Rightarrow> ustr mine" where
  "save A fi eid part kind payload = run_db MineResult (save_result_to_postgres (ac_loads A) (fi_now fi)
     (if kind = lit ''extract.md'' then fi_extract fi else fi_annotation fi) eid part kind payload)"

subsection \<open>Image workflow\<close>

record image_state =
  is_media :: "uuid option"
  is_part :: uuid
  is_execution :: uuid
  is_dossier :: "dossier_spec option"
  is_reflect :: bool

definition thumbnail_node :: "activities \<Rightarrow> fresh_ids \<Rightarrow> image_state \<Rightarrow> uuid mine" where
  "thumbnail_node A fi st = seq (download (is_media st)) (\<lambda>data.
     seq (thumb_of fi (is_media st) (ac_thumb_image A data)) (\<lambda>rec. done_with (m_id rec)))"

definition transcribe_node :: "activities \<Rightarrow> fresh_ids \<Rightarrow> image_state \<Rightarrow> (ustr \<times> ustr) mine" where
  "transcribe_node A fi st = seq (download (is_media st)) (\<lambda>data.
     seq (activity (ac_extract_image A data)) (\<lambda>markdown.
     seq (activity (ac_annotate_image A data (is_dossier st) (is_reflect st))) (\<lambda>annotation.
     seq (save A fi (is_execution st) (is_part st) (lit ''extract.md'') markdown) (\<lambda>ex.
     seq (save A fi (is_execution st) (is_part st) (lit ''annotation.json'') annotation) (\<lambda>an.
     done_with (ex, an))))))"

text \<open>The two branches of one superstep, the thumbnail first; the other one is cancelled when it raises.\<close>

definition image_graph :: "activities \<Rightarrow> fresh_ids \<Rightarrow> image_state \<Rightarrow> (uuid \<times> ustr \<times> ustr) mine" where
  "image_graph A fi st = seq (thumbnail_node A fi st) (\<lambda>thumb.
     seq (transcribe_node A fi st) (\<lambda>r. done_with (thumb, r)))"

subsection \<open>PDF workflow\<close>

fun part_kind_of :: "page_kind \<Rightarrow> part_kind" where
  "part_kind_of TextPage = TextPart"
| "part_kind_of ImagePage = ImagePart"

text \<open>What the render closure of a page yields: the page itself, or its PNG.\<close>

definition page_blob :: "activities \<Rightarrow> pdf_page \<Rightarrow> (byte list \<times> ustr option) option" where
  "page_blob A p = (case classify_page p of
     TextPage \<Rightarrow> Some (pg_content p, Some (mime_str Pdf))
   | ImagePage \<Rightarrow> map_option (\<lambda>d. (d, Some (mime_str Png))) (ac_render A (pg_content p)))"

definition split_page :: "activities \<Rightarrow> uuid \<Rightarrow> pdf_page \<Rightarrow> page_handle mine" where
  "split_page A doc p =
     seq (run_world MinePart (ensure_part (fi_now (ac_ids A (pg_number p))) (fi_blob (ac_ids A (pg_number p)), fi_part (ac_ids A (pg_number p)))
            doc (page_locator (pg_number p)) (part_kind_of (classify_page p)) (\<lambda>_. page_blob A p) (Some (int (pg_number p))) id))
       (\<lambda>part. done_with \<lparr>ph_number = pg_number p, ph_kind = classify_page p, ph_media = p_media_id part, ph_part = p_id part\<rparr>)"

fun split_pages :: "activities \<Rightarrow> uuid \<Rightarrow> pdf_page list \<Rightarrow> page_handle list mine" where
  "split_pages A doc [] = done_with []"
| "split_pages A doc (p # ps) = seq (split_page A doc p) (\<lambda>h. seq (split_pages A doc ps) (\<lambda>hs. done_with (h # hs)))"

definition last_count :: "pdf_page list \<Rightarrow> nat" where
  "last_count ps = (if ps = [] then 0 else pg_count (last ps))"

definition split_node :: "activities \<Rightarrow> time \<Rightarrow> uuid \<Rightarrow> uuid option \<Rightarrow> (page_handle list \<times> nat) mine" where
  "split_node A now doc media_id = seq (download media_id) (\<lambda>data.
     seq (activity (ac_split A data)) (\<lambda>pages.
     seq (split_pages A doc pages) (\<lambda>hs.
     seq (write_db (tx_page_count now doc (int (last_count pages)))) (\<lambda>_.
     done_with (hs, last_count pages)))))"

definition text_page :: "activities \<Rightarrow> uuid \<Rightarrow> dossier_spec option \<Rightarrow> bool \<Rightarrow> page_handle \<Rightarrow> page_result mine" where
  "text_page A eid dossier rf p = (let fi = ac_ids A (ph_number p) in
     seq (download (ph_media p)) (\<lambda>data.
     seq (activity (ac_extract_pdf A data)) (\<lambda>markdown.
     seq (activity (ac_annotate_text A markdown dossier rf)) (\<lambda>annotation.
     seq (thumb_of fi (ph_media p) (ac_thumb_pdf A data)) (\<lambda>thumb.
     seq (write_db (tx_part_thumb (fi_now fi) (ph_part p) (m_id thumb))) (\<lambda>_.
     seq (save A fi eid (ph_part p) (lit ''extract.md'') markdown) (\<lambda>ex.
     seq (save A fi eid (ph_part p) (lit ''annotation.json'') annotation) (\<lambda>an.
     done_with \<lparr>po_number = ph_number p, po_kind = ph_kind p, po_media = ph_media p, po_thumb = Some (m_id thumb),
                po_extract = Some ex, po_annotation = Some an\<rparr>))))))))"

definition image_page :: "activities \<Rightarrow> uuid \<Rightarrow> dossier_spec option \<Rightarrow> bool \<Rightarrow> page_handle \<Rightarrow> page_result mine" where
  "image_page A eid dossier rf p = (let fi = ac_ids A (ph_number p) in
     seq (image_graph A fi \<lparr>is_media = ph_media p, is_part = ph_part p, is_execution = eid, is_dossier = dossier, is_reflect = rf\<rparr>)
       (\<lambda>(thumb, ex, an). seq (write_db (tx_part_thumb (fi_now fi) (ph_part p) thumb)) (\<lambda>_.
     done_with \<lparr>po_number = ph_number p, po_kind = ph_kind p, po_media = ph_media p, po_thumb = Some thumb,
                po_extract = Some ex, po_annotation = Some an\<rparr>)))"

definition handle_page :: "activities \<Rightarrow> uuid \<Rightarrow> dossier_spec option \<Rightarrow> bool \<Rightarrow> page_handle \<Rightarrow> page_result mine" where
  "handle_page A eid dossier rf p =
     (if ph_kind p = TextPage then text_page A eid dossier rf p else image_page A eid dossier rf p)"

text \<open>\<open>gather\<close>: every page runs; the first exception is raised.\<close>

fun gather :: "(page_handle \<Rightarrow> page_result mine) \<Rightarrow> page_handle list \<Rightarrow> page_result list mine" where
  "gather f [] w = (Inr [], w)"
| "gather f (p # ps) w =
     (let (r, w1) = f p w; (rs, w2) = gather f ps w1
      in (case r of Inl e \<Rightarrow> Inl e | Inr x \<Rightarrow> (case rs of Inl e \<Rightarrow> Inl e | Inr xs \<Rightarrow> Inr (x # xs)), w2))"

definition process_node :: "activities \<Rightarrow> uuid \<Rightarrow> dossier_spec option \<Rightarrow> bool \<Rightarrow> page_handle list \<Rightarrow> page_result list mine" where
  "process_node A eid dossier rf pages =
     seq (gather (handle_page A eid dossier rf) (ac_sched A pages)) (\<lambda>rs. done_with (sort_key po_number rs))"

definition pdf_graph :: "activities \<Rightarrow> time \<Rightarrow> uuid \<Rightarrow> uuid option \<Rightarrow> uuid \<Rightarrow> dossier_spec option \<Rightarrow> bool \<Rightarrow> (nat \<times> page_result list) mine" where
  "pdf_graph A now doc media_id eid dossier rf =
     seq (split_node A now doc media_id) (\<lambda>(pages, n).
     seq (process_node A eid dossier rf pages) (\<lambda>rs. done_with (n, rs)))"

subsection \<open>Parent workflow\<close>

text \<open>What finalizing needs: the characters, the zip reader, the limits, the stream of an object.\<close>

record finalizer =
  fz_unicode :: unicode
  fz_namelist :: "byte list \<Rightarrow> ustr list option"
  fz_config :: media_config
  fz_body :: "ustr \<Rightarrow> object_stream"

record mining_out =
  mo_type :: "document_type option"
  mo_mime :: "ustr option"
  mo_unsupported :: "ustr option"

definition finalize_node :: "finalizer \<Rightarrow> time \<Rightarrow> uuid \<Rightarrow> document_rec mine" where
  "finalize_node F now doc = run_db MineDocument (finalize_document (fz_unicode F) (fz_namelist F) (fz_config F) (fz_body F) now doc)"

definition prepare_image_node :: "activities \<Rightarrow> uuid \<Rightarrow> part_row mine" where
  "prepare_image_node A doc =
     run_db MinePart (ensure_source_part (fi_now (ac_ids A 1)) (fi_part (ac_ids A 1)) doc ImagePart id)"

definition record_image_thumb_node :: "activities \<Rightarrow> uuid \<Rightarrow> uuid option \<Rightarrow> unit mine" where
  "record_image_thumb_node A part thumb = (case thumb of None \<Rightarrow> done_with ()
     | Some t \<Rightarrow> write_db (tx_part_thumb (fi_now (ac_ids A 1)) part t))"

definition unsupported_node :: "ustr option \<Rightarrow> ustr" where
  "unsupported_node m = lit ''unsupported type: '' @ (case m of None \<Rightarrow> lit ''None'' | Some k \<Rightarrow> k)"

definition mining_graph :: "activities \<Rightarrow> finalizer \<Rightarrow> time \<Rightarrow> uuid \<Rightarrow> uuid \<Rightarrow> dossier_spec option \<Rightarrow> bool \<Rightarrow> mining_out mine" where
  "mining_graph A F now doc eid dossier rf =
     seq (finalize_node F now doc) (\<lambda>rec.
       let t = classify (dr_mime rec); out = \<lparr>mo_type = t, mo_mime = dr_mime rec, mo_unsupported = None\<rparr>;
           media_id = Some (d_media_id (dr_row rec))
       in case route_by_type t of
            ToPdf \<Rightarrow> seq (pdf_graph A now doc media_id eid dossier rf) (\<lambda>_. done_with out)
          | ToImage \<Rightarrow> seq (prepare_image_node A doc) (\<lambda>part.
              seq (image_graph A (ac_ids A 1) \<lparr>is_media = media_id, is_part = p_id part, is_execution = eid,
                     is_dossier = dossier, is_reflect = rf\<rparr>) (\<lambda>(thumb, _).
              seq (record_image_thumb_node A (p_id part) (Some thumb)) (\<lambda>_. done_with out)))
          | ToUnsupported \<Rightarrow> done_with (out\<lparr>mo_unsupported := Some (unsupported_node (dr_mime rec))\<rparr>))"

subsection \<open>Tasks\<close>

text \<open>
  What the tasks share: \<open>rc_cut\<close> is the effect on the world of a graph that the time budget
  cut off, \<open>rc_show\<close> and \<open>rc_meta\<close> are \<open>str(exc)\<close>, \<open>rc_latest\<close> is what each read of the checkpointer gets.
\<close>

record run_ctx =
  rc_unicode :: unicode
  rc_latest :: saver_reads
  rc_deadline :: utc
  rc_now :: "time \<times> time"
  rc_thread :: ustr
  rc_show :: "mine_error \<Rightarrow> ustr"
  rc_meta :: "meta_error \<Rightarrow> ustr"
  rc_cut :: "(world \<Rightarrow> world) option"

definition budgeted :: "run_ctx \<Rightarrow> 'a mine \<Rightarrow> 'a mine" where
  "budgeted C g w = (case rc_cut C of None \<Rightarrow> g w | Some f \<Rightarrow> (Inl MineTimeout, f w))"

definition settle_ok :: "run_ctx \<Rightarrow> uuid \<Rightarrow> json \<Rightarrow> world \<Rightarrow> task_end \<times> world" where
  "settle_ok C eid output w =
     (let (x, s) = succeed_run (rc_unicode C) (rc_meta C) (rc_latest C) (rc_deadline C) (snd (rc_now C)) eid (rc_thread C) output (wdb w)
      in (x, w\<lparr>wdb := s\<rparr>))"

text \<open>The handlers, with their \<open>n\<close>-th read of the checkpointer.\<close>

definition settle_bad :: "run_ctx \<Rightarrow> nat \<Rightarrow> uuid \<Rightarrow> mine_error \<Rightarrow> world \<Rightarrow> task_end \<times> world" where
  "settle_bad C n eid e w =
     (let (x, s) = fail_run (rc_unicode C) (rc_latest C n) (rc_deadline C) (snd (rc_now C)) eid (rc_thread C)
            (if e = MineTimeout then lit ''timed out after 900s'' else rc_show C e)
            (if e = MineTimeout then RaisedTimeout else RaisedError (rc_show C e)) (wdb w)
      in (x, w\<lparr>wdb := s\<rparr>))"

definition start_run :: "run_ctx \<Rightarrow> uuid \<Rightarrow> world \<Rightarrow> world" where
  "start_run C eid w = upd_db (mark_running (fst (rc_now C)) eid) w"

definition task_of :: "run_ctx \<Rightarrow> uuid \<Rightarrow> json mine \<Rightarrow> world \<Rightarrow> task_end \<times> world" where
  "task_of C eid body w = (case body (start_run C eid w) of
     (Inl e, v) \<Rightarrow> settle_bad C 0 eid e v
   | (Inr output, v) \<Rightarrow> settle_ok C eid output v)"

definition read_spec :: "ustr option \<Rightarrow> userdb \<times> userdb \<Rightarrow> dossier_spec option mine" where
  "read_spec key u = (case resolve_dossier_spec key u of Inl e \<Rightarrow> raise (MineUserdata e) | Inr sp \<Rightarrow> done_with sp)"

definition ready_document :: "uuid \<Rightarrow> document_rec mine" where
  "ready_document doc = seq (run_db MineDocument (\<lambda>s. (doc_get doc s, s))) (\<lambda>rec.
     if d_status (dr_row rec) \<noteq> DocReady then raise MineNotReady else done_with rec)"

definition jnat :: "nat \<Rightarrow> json" where "jnat n = JInt (int n)"

definition page_output :: "page_result \<Rightarrow> json" where
  "page_output p = JObj [(lit ''page_number'', jnat (po_number p)),
     (lit ''kind'', JStr (lit (case po_kind p of TextPage \<Rightarrow> ''text'' | ImagePage \<Rightarrow> ''image''))),
     (lit ''page_media_id'', jopt (map_option uuid_str (po_media p))), (lit ''thumb_media_id'', jopt (map_option uuid_str (po_thumb p))),
     (lit ''extract_ref'', jopt (po_extract p)), (lit ''annotation_ref'', jopt (po_annotation p))]"

definition run_document_mining_pdf ::
  "run_ctx \<Rightarrow> activities \<Rightarrow> userdb \<times> userdb \<Rightarrow> uuid \<Rightarrow> uuid \<Rightarrow> ustr option \<Rightarrow> bool \<Rightarrow> world \<Rightarrow> task_end \<times> world" where
  "run_document_mining_pdf C A u doc eid key rf = task_of C eid
     (seq (ready_document doc) (\<lambda>rec.
      seq (read_spec key u) (\<lambda>dossier.
      seq (budgeted C (pdf_graph A (fst (rc_now C)) doc (Some (d_media_id (dr_row rec))) eid dossier rf)) (\<lambda>(n, rs).
      done_with (JObj [(lit ''document_id'', JStr (uuid_str doc)), (lit ''page_count'', jnat n),
                       (lit ''pages'', JList (map page_output rs))])))))"

definition run_document_mining_image ::
  "run_ctx \<Rightarrow> activities \<Rightarrow> userdb \<times> userdb \<Rightarrow> uuid \<Rightarrow> uuid \<Rightarrow> ustr option \<Rightarrow> bool \<Rightarrow> world \<Rightarrow> task_end \<times> world" where
  "run_document_mining_image C A u doc eid key rf = task_of C eid
     (seq (ready_document doc) (\<lambda>rec.
      seq (prepare_image_node A doc) (\<lambda>part.
      seq (read_spec key u) (\<lambda>dossier.
      seq (budgeted C (image_graph A (ac_ids A 1) \<lparr>is_media = Some (d_media_id (dr_row rec)), is_part = p_id part,
             is_execution = eid, is_dossier = dossier, is_reflect = rf\<rparr>)) (\<lambda>(thumb, ex, an).
      seq (record_image_thumb_node A (p_id part) (Some thumb)) (\<lambda>_.
      done_with (JObj [(lit ''document_id'', JStr (uuid_str doc)), (lit ''part_id'', JStr (uuid_str (p_id part))),
                       (lit ''thumb_media_id'', JStr (uuid_str thumb)), (lit ''extract_ref'', JStr ex),
                       (lit ''annotation_ref'', JStr an)])))))))"

text \<open>
  The parent stores its result and then, for a dossier, enqueues the audit, still inside the
  \<open>try\<close>: \<open>audit\<close> holds the clock, id and thread of the audit run and whether its job is accepted.
\<close>

type_synonym chain = "time \<times> uuid \<times> ustr \<times> (audit_args \<Rightarrow> bool)"

definition chain_audit :: "chain \<Rightarrow> uuid \<Rightarrow> uuid \<Rightarrow> ustr \<Rightarrow> unit mine" where
  "chain_audit ch doc eid dk w = (case ch of (now, aid, thread, kiq) \<Rightarrow>
     (case enqueue_audit now aid thread kiq doc eid dk (lit ''English'') (wdb w) of
        (None, s) \<Rightarrow> (Inl MineEnqueue, w\<lparr>wdb := s\<rparr>)
      | (Some _, s) \<Rightarrow> (Inr (), w\<lparr>wdb := s\<rparr>)))"

definition type_name :: "document_type \<Rightarrow> ustr" where
  "type_name t = lit (case t of PdfType \<Rightarrow> ''pdf'' | ImageType \<Rightarrow> ''image'')"

definition mining_output :: "uuid \<Rightarrow> mining_out \<Rightarrow> json" where
  "mining_output doc o' = JObj [(lit ''document_id'', JStr (uuid_str doc)), (lit ''document_type'', jopt (map_option type_name (mo_type o'))),
     (lit ''mime_type'', jopt (mo_mime o')), (lit ''unsupported_reason'', jopt (mo_unsupported o'))]"

definition run_document_mining ::
  "run_ctx \<Rightarrow> activities \<Rightarrow> finalizer \<Rightarrow> chain \<Rightarrow> userdb \<times> userdb \<Rightarrow> uuid \<Rightarrow> uuid \<Rightarrow> ustr option \<Rightarrow> bool \<Rightarrow> world \<Rightarrow> task_end \<times> world" where
  "run_document_mining C A F ch u doc eid key rf w =
     (case seq (read_spec key u) (\<lambda>dossier. budgeted C (mining_graph A F (fst (rc_now C)) doc eid dossier rf)) (start_run C eid w) of
        (Inl e, v) \<Rightarrow> settle_bad C 0 eid e v
      | (Inr out, v) \<Rightarrow>
          (case settle_ok C eid (mining_output doc out) v of
             (Returned output, v1) \<Rightarrow>
               (if key \<noteq> None \<and> key \<noteq> Some [] then
                  (case chain_audit ch doc eid (the key) v1 of
                     (Inl e, v2) \<Rightarrow> settle_bad C 1 eid e v2
                   | (Inr _, v2) \<Rightarrow> (Returned output, v2))
                else (Returned output, v1))
           | r \<Rightarrow> r))"

subsection \<open>The graphs leave the runs alone\<close>

named_theorems keeps \<open>steps of the graphs that do not touch the executions\<close>

definition keeps_runs :: "'a mine \<Rightarrow> bool" where
  "keeps_runs m \<longleftrightarrow> (\<forall>w. executions (wdb (snd (m w))) = executions (wdb w))"

lemma keeps_runsI: "(\<And>w. executions (wdb (snd (m w))) = executions (wdb w)) \<Longrightarrow> keeps_runs m"
  by (simp add: keeps_runs_def)

lemma keeps_runsD: "keeps_runs m \<Longrightarrow> m w = (r, v) \<Longrightarrow> executions (wdb v) = executions (wdb w)"
  by (metis keeps_runs_def snd_conv)

lemma keeps_seq [keeps]: "\<lbrakk>keeps_runs m; \<And>x. keeps_runs (f x)\<rbrakk> \<Longrightarrow> keeps_runs (seq m f)"
  by (simp add: keeps_runs_def seq_def split_beta split: prod.split sum.split)

lemma keeps_basic [keeps]:
  "keeps_runs (done_with x)" "keeps_runs (raise e)" "keeps_runs (activity r)" "keeps_runs (download i)"
  by (auto simp: keeps_runs_def done_with_def raise_def activity_def download_def split: option.split sum.split)

lemma keeps_run_db: "(\<And>s. executions (snd (g s)) = executions s) \<Longrightarrow> keeps_runs (run_db err g)"
  by (simp add: keeps_runs_def run_db_def split_beta)

lemma keeps_write_db: "(\<And>s. executions (f s) = executions s) \<Longrightarrow> keeps_runs (write_db f)"
  by (simp add: keeps_runs_def write_db_def upd_db_def)

lemma keeps_run_world: "(\<And>w. executions (wdb (snd (g w))) = executions (wdb w)) \<Longrightarrow> keeps_runs (run_world err g)"
  by (simp add: keeps_runs_def run_world_def split_beta)

lemma insert_blob_runs: "executions (snd (insert_blob now fresh key i mime sz s)) = executions s"
  by (simp add: insert_blob_def split_beta)

lemma insert_part_runs: "executions (snd (insert_part p s)) = executions s"
  by (simp add: insert_part_def)

lemma tx_part_runs: "executions (snd (tx_part now fresh doc loc kind page mime sz s)) = executions s"
  by (simp add: tx_part_def split_beta Let_def insert_part_runs insert_blob_runs)

lemma ensure_part_runs: "executions (wdb (snd (ensure_part now fresh doc loc kind render page id w))) = executions (wdb w)"
  using tx_part_runs [of now fresh doc loc kind page]
  by (auto simp: ensure_part_def create_part_def upload_object_def Let_def split_beta split: option.split)

lemma ensure_source_part_runs: "executions (snd (ensure_source_part now fresh doc kind id s)) = executions s"
  by (auto simp: ensure_source_part_def Let_def split_beta insert_part_runs split: option.split sum.split)

lemma ensure_thumb_runs: "executions (wdb (snd (ensure_thumb now fresh src render w))) = executions (wdb w)"
  by (auto simp: ensure_thumb_def Let_def split_beta insert_blob_runs upload_object_def split: option.split sum.split)

lemma save_result_runs: "executions (snd (save_result_to_postgres loads now fresh eid part kind payload s)) = executions s"
  by (auto simp: save_result_to_postgres_def save_result_def split_beta split: option.split sum.split prod.split)

lemma finalize_runs: "executions (snd (finalize_document U namelist cfg body now i s)) = executions s"
  by (auto simp: finalize_document_def finalize_def tx_set_status_def tx_finalize_def Let_def
      split: sum.split doc_error.split prod.split option.split)

lemma keeps_leaves [keeps]:
  "keeps_runs (thumb_of fi i png)" "keeps_runs (save A fi eid part kind payload)"
  "keeps_runs (write_db (tx_part_thumb now part t))" "keeps_runs (write_db (tx_page_count now doc n))"
  "keeps_runs (finalize_node F now doc)" "keeps_runs (prepare_image_node A doc)"
  "keeps_runs (run_world MinePart (ensure_part now fresh doc loc k render page id))"
  "keeps_runs (read_spec key u)" "keeps_runs (run_db MineDocument (\<lambda>s. (doc_get doc s, s)))"
  by (auto simp: thumb_of_def save_def finalize_node_def prepare_image_node_def tx_part_thumb_def tx_page_count_def read_spec_def
      ensure_thumb_runs ensure_part_runs ensure_source_part_runs save_result_runs finalize_runs
      intro!: keeps keeps_run_db keeps_run_world keeps_write_db split: option.split sum.split)

lemma keeps_split_pages [keeps]: "keeps_runs (split_pages A doc ps)"
  by (induction A doc ps rule: split_pages.induct) (simp_all add: split_page_def keeps)

lemma keeps_gather: "(\<And>p. keeps_runs (f p)) \<Longrightarrow> keeps_runs (gather f ps)"
proof (induction ps)
  case Nil
  then show ?case by (simp add: keeps_runs_def)
next
  case (Cons p ps)
  from Cons.IH [OF Cons.prems] Cons.prems [of p] show ?case by (simp add: keeps_runs_def split_beta Let_def)
qed

lemma keeps_image_graph [keeps]: "keeps_runs (image_graph A fi st)"
  by (simp add: image_graph_def thumbnail_node_def transcribe_node_def keeps)

lemma keeps_handle_page [keeps]: "keeps_runs (handle_page A eid dossier rf p)"
  by (auto simp: handle_page_def text_page_def image_page_def Let_def split_beta intro!: keeps)

lemma keeps_pdf_graph [keeps]: "keeps_runs (pdf_graph A now doc mid eid dossier rf)"
  by (auto simp: pdf_graph_def split_node_def process_node_def split_beta intro!: keeps keeps_gather)

lemma keeps_mining_graph [keeps]: "keeps_runs (mining_graph A F now doc eid dossier rf)"
  by (auto simp: mining_graph_def record_image_thumb_node_def split_beta Let_def intro!: keeps split: route.split)

lemma keeps_budgeted:
  assumes "keeps_runs g" "\<And>f v. rc_cut C = Some f \<Longrightarrow> executions (wdb (f v)) = executions (wdb v)"
  shows "keeps_runs (budgeted C g)"
  using assms by (auto simp: keeps_runs_def budgeted_def split: option.split)

subsection \<open>Every task settles its run\<close>

definition settled :: "uuid \<Rightarrow> task_end \<times> world \<Rightarrow> bool" where
  "settled eid r \<longleftrightarrow> (case fst r of
     Returned x \<Rightarrow> succeeded_with eid x (wdb (snd r))
   | _ \<Rightarrow> \<exists>err. failed_with eid err (wdb (snd r)))"

text \<open>The \<open>n\<close>-th read of the checkpointer by a task; a task that raises its error, leaving the row in a state.\<close>

definition reads :: "run_ctx \<Rightarrow> nat \<Rightarrow> ustr + ustr option" where
  "reads C n = rc_latest C n (rc_thread C)"

definition stuck :: "run_ctx \<Rightarrow> nat \<Rightarrow> uuid \<Rightarrow> workflow_status \<Rightarrow> task_end \<times> world \<Rightarrow> bool" where
  "stuck C n eid st r \<longleftrightarrow> (\<exists>x. reads C n = Inl x \<and> fst r = RaisedMeta (MetaCheckpoint x)) \<and> run_is eid st (wdb (snd r))"

lemma settle_ok_ok:
  assumes "run_get (rc_unicode C) eid (wdb w) = Inr rec" and "settle_ok C eid out w = (x, v)"
  shows "case (reads C 0, reads C 1) of
      (Inr c, _) \<Rightarrow> x = Returned out \<and> settled eid (x, v)
    | (Inl a, Inr c) \<Rightarrow> (\<forall>y. x \<noteq> Returned y) \<and> settled eid (x, v)
    | (Inl a, Inl b) \<Rightarrow> x = RaisedMeta (MetaCheckpoint b) \<and> v = w"
proof -
  obtain s where s: "succeed_run (rc_unicode C) (rc_meta C) (rc_latest C) (rc_deadline C) (snd (rc_now C)) eid (rc_thread C) out (wdb w) = (x, s)"
    and v: "v = w\<lparr>wdb := s\<rparr>" using assms(2) by (auto simp: settle_ok_def split: prod.splits)
  show ?thesis using succeed_run_ok [OF assms(1) s] by (auto simp: v settled_def reads_def split: sum.split)
qed

lemma settle_bad_ok:
  assumes "run_get (rc_unicode C) eid (wdb w) = Inr rec" and "settle_bad C n eid e w = (x, v)"
  shows "case reads C n of
      Inr c \<Rightarrow> x = (if e = MineTimeout then RaisedTimeout else RaisedError (rc_show C e)) \<and> settled eid (x, v)
        \<and> failed_with eid (if e = MineTimeout then lit ''timed out after 900s'' else rc_show C e) (wdb v)
    | Inl a \<Rightarrow> x = RaisedMeta (MetaCheckpoint a) \<and> v = w"
proof -
  obtain s where s: "fail_run (rc_unicode C) (rc_latest C n) (rc_deadline C) (snd (rc_now C)) eid (rc_thread C)
      (if e = MineTimeout then lit ''timed out after 900s'' else rc_show C e)
      (if e = MineTimeout then RaisedTimeout else RaisedError (rc_show C e)) (wdb w) = (x, s)"
    and v: "v = w\<lparr>wdb := s\<rparr>" using assms(2) by (auto simp: settle_bad_def split: prod.splits)
  show ?thesis using fail_run_ok [OF assms(1) s] by (auto simp: v settled_def reads_def split: sum.split)
qed

lemma start_run_readable:
  "run_get U eid (wdb w) = Inr rec \<Longrightarrow> \<exists>rec'. run_get U eid (wdb (start_run C eid w)) = Inr rec'"
  using run_get_running by (simp add: start_run_def upd_db_def)

lemma start_run_running: "run_get U eid (wdb w) = Inr rec \<Longrightarrow> run_is eid Running (wdb (start_run C eid w))"
  using run_is_running by (simp add: start_run_def upd_db_def)

text \<open>How a task may end, by what the checkpointer answers.\<close>

definition task_outcome :: "run_ctx \<Rightarrow> uuid \<Rightarrow> task_end \<times> world \<Rightarrow> bool" where
  "task_outcome C eid r \<longleftrightarrow>
     ((\<forall>n. \<exists>c. reads C n = Inr c) \<longrightarrow> settled eid r)
   \<and> ((\<forall>n. \<exists>x. reads C n = Inl x) \<longrightarrow> (\<exists>n. stuck C n eid Running r))
   \<and> (settled eid r \<or> (\<exists>n \<le> 1. stuck C n eid Running r) \<or> stuck C 1 eid Succeeded r)"

lemma task_outcome_bad:
  assumes "run_get (rc_unicode C) eid (wdb v) = Inr rec" "run_is eid Running (wdb v)"
  shows "task_outcome C eid (settle_bad C 0 eid e v)"
proof -
  obtain x v' where s: "settle_bad C 0 eid e v = (x, v')" by fastforce
  show ?thesis
  proof (cases "reads C 0")
    case (Inl a)
    then have "stuck C 0 eid Running (x, v')" using settle_bad_ok [OF assms(1) s] assms(2) by (simp add: stuck_def)
    moreover have "\<exists>n. \<forall>c. reads C n \<noteq> Inr c" using Inl by (intro exI [of _ 0]) simp
    ultimately show ?thesis unfolding task_outcome_def s by blast
  next
    case (Inr c)
    then have "settled eid (x, v')" using settle_bad_ok [OF assms(1) s] by auto
    moreover have "\<exists>n. \<forall>x. reads C n \<noteq> Inl x" using Inr by (intro exI [of _ 0]) simp
    ultimately show ?thesis unfolding task_outcome_def s by blast
  qed
qed

lemma task_outcome_ok:
  assumes "run_get (rc_unicode C) eid (wdb v) = Inr rec" "run_is eid Running (wdb v)" "settle_ok C eid out v = (x, v')"
  shows "(\<exists>c. reads C 0 = Inr c) \<and> x = Returned out \<and> settled eid (x, v') \<or> (\<forall>y. x \<noteq> Returned y) \<and> task_outcome C eid (x, v')"
proof (cases "reads C 0")
  case (Inr c)
  then show ?thesis using settle_ok_ok [OF assms(1,3)] by auto
next
  case (Inl a)
  then have not: "\<exists>n. \<forall>c. reads C n \<noteq> Inr c" by (intro exI [of _ 0]) simp
  show ?thesis
  proof (cases "reads C 1")
    case (Inl b)
    then have "x = RaisedMeta (MetaCheckpoint b)" "stuck C 1 eid Running (x, v')"
      using \<open>reads C 0 = Inl a\<close> settle_ok_ok [OF assms(1,3)] assms(2) by (simp_all add: stuck_def)
    then show ?thesis using not unfolding task_outcome_def by blast
  next
    case (Inr c)
    then have "(\<forall>y. x \<noteq> Returned y) \<and> settled eid (x, v')" using Inl settle_ok_ok [OF assms(1,3)] by simp
    moreover have "\<exists>n. \<forall>x. reads C n \<noteq> Inl x" using Inr by (intro exI [of _ 1]) simp
    ultimately show ?thesis unfolding task_outcome_def by blast
  qed
qed

lemma task_settles:
  assumes "run_get (rc_unicode C) eid (wdb w) = Inr rec" "keeps_runs body"
  shows "task_outcome C eid (task_of C eid body w)"
proof -
  obtain rec' where r: "run_get (rc_unicode C) eid (wdb (start_run C eid w)) = Inr rec'" using start_run_readable [OF assms(1)] by blast
  obtain x v where b: "body (start_run C eid w) = (x, v)" by fastforce
  note same = keeps_runsD [OF assms(2) b]
  have rv: "run_get (rc_unicode C) eid (wdb v) = Inr rec'" "run_is eid Running (wdb v)"
    using run_get_cong [OF same] run_is_cong [OF same] r start_run_running [OF assms(1)] by simp_all
  show ?thesis
  proof (cases x)
    case (Inl e)
    then show ?thesis using task_outcome_bad [OF rv] by (simp add: task_of_def b)
  next
    case (Inr out)
    obtain y v' where s: "settle_ok C eid out v = (y, v')" by fastforce
    have "task_outcome C eid (y, v')"
      using task_outcome_ok [OF rv s]
    proof
      assume a: "(\<exists>c. reads C 0 = Inr c) \<and> y = Returned out \<and> settled eid (y, v')"
      then have "\<exists>n. \<forall>x. reads C n \<noteq> Inl x" by (intro exI [of _ 0]) auto
      with a show ?thesis unfolding task_outcome_def by blast
    qed simp
    then show ?thesis by (simp add: task_of_def b Inr s)
  qed
qed

lemma chain_audit_row: "run_row eid (wdb w) = Some e \<Longrightarrow> run_row eid (wdb (snd (chain_audit ch doc i dk w))) = Some e"
  by (auto simp: chain_audit_def enqueue_audit_def run_create_def Let_def run_row_def find_append split: prod.split)

lemma settled_chain:
  assumes "settled eid (Returned x, w)"
  shows "settled eid (Returned x, snd (chain_audit ch doc i dk w))"
  using assms chain_audit_row [of eid w _ ch doc i dk] by (auto simp: settled_def succeeded_with_def run_has_def)

lemma finish_readable_world:
  assumes "unicode_ok (rc_unicode C)" "utc_ok (rc_deadline C)" "run_get (rc_unicode C) eid (wdb w) = Inr rec"
  shows "\<exists>rec'. run_get (rc_unicode C) eid (wdb (snd (settle_ok C eid out w))) = Inr rec'"
    "\<exists>rec'. run_get (rc_unicode C) eid (wdb (snd (settle_bad C n eid e w))) = Inr rec'"
  using finish_readable [OF assms] by (simp_all add: settle_ok_def settle_bad_def split_beta)

lemma chain_readable:
  assumes "run_get U eid (wdb w) = Inr rec"
  shows "run_get U eid (wdb (snd (chain_audit ch doc i dk w))) = Inr rec"
proof -
  obtain e where "run_row eid (wdb w) = Some e" using run_get_Some [OF assms] by blast
  then show ?thesis using assms chain_audit_row [of eid w e ch doc i dk] by (simp add: run_get_row)
qed

definition cut_ok :: "run_ctx \<Rightarrow> bool" where
  "cut_ok C \<longleftrightarrow> (\<forall>f v. rc_cut C = Some f \<longrightarrow> executions (wdb (f v)) = executions (wdb v))"

text \<open>The part of the parent task that runs before its result is stored.\<close>

definition mining_body ::
  "run_ctx \<Rightarrow> activities \<Rightarrow> finalizer \<Rightarrow> userdb \<times> userdb \<Rightarrow> uuid \<Rightarrow> uuid \<Rightarrow> ustr option \<Rightarrow> bool \<Rightarrow> mining_out mine" where
  "mining_body C A F u doc eid key rf =
     seq (read_spec key u) (\<lambda>dossier. budgeted C (mining_graph A F (fst (rc_now C)) doc eid dossier rf))"

lemma keeps_mining_body: "cut_ok C \<Longrightarrow> keeps_runs (mining_body C A F u doc eid key rf)"
  by (auto simp: mining_body_def cut_ok_def intro!: keeps keeps_budgeted)

lemma run_document_mining_body:
  "mining_body C A F u doc eid key rf (start_run C eid w) = (r, v) \<Longrightarrow>
   run_document_mining C A F ch u doc eid key rf w = (case r of Inl e \<Rightarrow> settle_bad C 0 eid e v
      | Inr out \<Rightarrow> (case settle_ok C eid (mining_output doc out) v of
             (Returned output, v1) \<Rightarrow>
               (if key \<noteq> None \<and> key \<noteq> Some [] then
                  (case chain_audit ch doc eid (the key) v1 of (Inl e, v2) \<Rightarrow> settle_bad C 1 eid e v2 | (Inr _, v2) \<Rightarrow> (Returned output, v2))
                else (Returned output, v1))
           | r' \<Rightarrow> r'))"
  unfolding run_document_mining_def mining_body_def [symmetric] by (cases r) simp_all

lemma settled_succeeded: "settled eid (Returned x, v) \<Longrightarrow> run_is eid Succeeded (wdb v)"
  by (auto simp: settled_def succeeded_with_def run_has_def run_is_def)

lemma mining_settles:
  assumes "unicode_ok (rc_unicode C)" "utc_ok (rc_deadline C)" "run_get (rc_unicode C) eid (wdb w) = Inr rec" "cut_ok C"
  shows "task_outcome C eid (run_document_mining C A F ch u doc eid key rf w)"
proof -
  obtain rec' where r: "run_get (rc_unicode C) eid (wdb (start_run C eid w)) = Inr rec'" using start_run_readable [OF assms(3)] by blast
  obtain x v where b: "mining_body C A F u doc eid key rf (start_run C eid w) = (x, v)" by fastforce
  note same = keeps_runsD [OF keeps_mining_body [OF assms(4)] b]
  have rv: "run_get (rc_unicode C) eid (wdb v) = Inr rec'" "run_is eid Running (wdb v)"
    using run_get_cong [OF same] run_is_cong [OF same] r start_run_running [OF assms(3)] by simp_all
  show ?thesis
  proof (cases x)
    case (Inl e)
    then show ?thesis using task_outcome_bad [OF rv] by (simp add: run_document_mining_body [OF b])
  next
    case (Inr out)
    obtain y v1 where v1: "settle_ok C eid (mining_output doc out) v = (y, v1)" by fastforce
    show ?thesis
      using task_outcome_ok [OF rv v1]
    proof
      assume "(\<forall>j. y \<noteq> Returned j) \<and> task_outcome C eid (y, v1)"
      then show ?thesis by (cases y) (simp_all add: run_document_mining_body [OF b] Inr v1)
    next
      assume a: "(\<exists>c. reads C 0 = Inr c) \<and> y = Returned (mining_output doc out) \<and> settled eid (y, v1)"
      have ends: "task_outcome C eid p" if "settled eid p \<or> stuck C 1 eid Succeeded p" for p
      proof -
        have "\<exists>n. \<forall>x. reads C n \<noteq> Inl x" using a by (intro exI [of _ 0]) auto
        moreover have "settled eid p" if "\<forall>n. \<exists>c. reads C n = Inr c"
          using that \<open>settled eid p \<or> _\<close> by (metis Inl_Inr_False stuck_def)
        ultimately show ?thesis using that unfolding task_outcome_def by blast
      qed
      obtain z v2 where c: "chain_audit ch doc eid (the key) v1 = (z, v2)" by fastforce
      have ok: "settled eid (Returned (mining_output doc out), v2)"
        using settled_chain [of eid "mining_output doc out" v1 ch doc eid "the key"] a by (auto simp: c)
      obtain rec1 where "run_get (rc_unicode C) eid (wdb v1) = Inr rec1"
        using finish_readable_world(1) [OF assms(1,2) rv(1), of "mining_output doc out"] by (auto simp: v1)
      then have r2: "run_get (rc_unicode C) eid (wdb v2) = Inr rec1" using chain_readable [of _ eid v1 rec1 ch doc eid "the key"] by (simp add: c)
      have "task_outcome C eid (settle_bad C 1 eid e v2)" for e
      proof -
        obtain o1 o2 where s: "settle_bad C 1 eid e v2 = (o1, o2)" by fastforce
        show ?thesis unfolding s
          by (rule ends) (use settle_bad_ok [OF r2 s] settled_succeeded [OF ok] in \<open>auto simp: stuck_def split: sum.splits\<close>)
      qed
      then show ?thesis using a ends ok by (cases z) (auto simp: run_document_mining_body [OF b] Inr v1 c)
    qed
  qed
qed

lemma keeps_ready [keeps]: "keeps_runs (ready_document doc)"
  by (auto simp: ready_document_def intro!: keeps)

lemma keeps_record_thumb [keeps]: "keeps_runs (record_image_thumb_node A part t)"
  by (auto simp: record_image_thumb_node_def intro!: keeps split: option.split)

lemma keeps_cut: "\<lbrakk>cut_ok C; keeps_runs g\<rbrakk> \<Longrightarrow> keeps_runs (budgeted C g)"
  by (auto simp: cut_ok_def intro: keeps_budgeted)


lemma doc_fetch_start [simp]: "doc_fetch b i (wdb (start_run C eid w)) = doc_fetch b i (wdb w)"
  by (simp add: doc_fetch_def doc_join_def start_run_def upd_db_def mark_running_def upd_run_def cong: option.case_cong)

text \<open>An invalid document passes through the graph as an unsupported one.\<close>

lemma mining_body_invalid:
  assumes "doc_fetch False doc (wdb w) = Inr d" "d_status (dr_row d) \<noteq> DocNew" "classify (dr_mime d) = None"
    and "rc_cut C = None" "resolve_dossier_spec key u = Inr sp"
  shows "mining_body C A F u doc eid key rf w = (Inr \<lparr>mo_type = None, mo_mime = dr_mime d, mo_unsupported = Some (unsupported_node (dr_mime d))\<rparr>, w)"
proof -
  have "finalize_node F now doc w = (Inr d, w)" for now
    using assms(1,2) by (simp add: finalize_node_def run_db_def finalize_document_def finalize_def doc_get_def)
  then show ?thesis
    using assms(3-5) by (simp add: mining_body_def seq_def read_spec_def done_with_def budgeted_def mining_graph_def route_by_type_def Let_def)
qed

lemma settle_bad_only: "only_run eid (wdb v) (wdb (snd (settle_bad C n eid e v)))"
  using only_run_ends(1) by (auto simp: settle_bad_def split_beta)

text \<open>
  C22.  A mining run that succeeded is turned into a failed one when its audit cannot be
  enqueued.  The audit is enqueued inside the same \<open>try\<close> after the result has been stored: when the
  queue refuses the job (and the checkpoint can be read), the run whose output was already recorded as succeeded ends failed,
  its output gone from the row, the task raises (so it is retried), and an audit execution stays
  queued that no job will ever run.
\<close>

theorem audit_enqueue_fails_run:
  assumes "unicode_ok (rc_unicode C)" and "utc_ok (rc_deadline C)"
    and "run_get (rc_unicode C) eid (wdb w) = Inr rec" and "cut_ok C"
    and "mining_body C A F u doc eid (Some dk) rf (start_run C eid w) = (Inr out, v)" and "dk \<noteq> []"
    and "aid \<notin> execution_ids (wdb v)" and "aid \<noteq> eid" and "\<And>n. \<exists>c. reads C n = Inr c"
    and "run_document_mining C A F (now, aid, thread, \<lambda>_. False) u doc eid (Some dk) rf w = (x, t)"
  shows "settled eid (settle_ok C eid (mining_output doc out) v) \<and> fst (settle_ok C eid (mining_output doc out) v) = Returned (mining_output doc out)
    \<and> x = RaisedError (rc_show C MineEnqueue)
    \<and> run_has eid Failed \<lparr>wr_output = JNull, wr_error = JStr (rc_show C MineEnqueue), wr_version = result_version\<rparr> (wdb t)
    \<and> (\<exists>e. run_row aid (wdb t) = Some e \<and> e_status e = Queued \<and> e_workflow e = lit ''audit'')"
proof -
  obtain rec' where r: "run_get (rc_unicode C) eid (wdb (start_run C eid w)) = Inr rec'" using start_run_readable [OF assms(3)] by blast
  have rv: "run_get (rc_unicode C) eid (wdb v) = Inr rec'"
    using run_get_cong [OF keeps_runsD [OF keeps_mining_body [OF assms(4)] assms(5)]] r by simp
  obtain c0 c1 where c: "reads C 0 = Inr c0" "reads C 1 = Inr c1" using assms(9) by blast
  obtain y v1 where s: "settle_ok C eid (mining_output doc out) v = (y, v1)" by fastforce
  then have v1: "settle_ok C eid (mining_output doc out) v = (Returned (mining_output doc out), v1)"
    and ok: "settled eid (Returned (mining_output doc out), v1)" using settle_ok_ok [OF rv s] c(1) by auto
  obtain rec1 where "run_get (rc_unicode C) eid (wdb v1) = Inr rec1"
    using finish_readable_world(1) [OF assms(1,2) rv, of "mining_output doc out"] by (auto simp: v1)
  note r2 = chain_readable [OF this, of "(now, aid, thread, \<lambda>_. False)" doc eid dk]
  obtain v2 where ch: "chain_audit (now, aid, thread, \<lambda>_. False) doc eid dk v1 = (Inl MineEnqueue, v2)"
    by (simp add: chain_audit_def enqueue_audit_def run_create_def)
  have xt: "settle_bad C 1 eid MineEnqueue v2 = (x, t)"
    using assms(6,10) by (simp add: run_document_mining_body [OF assms(5)] v1 ch)
  have r2': "run_get (rc_unicode C) eid (wdb v2) = Inr rec1" using r2 by (simp add: ch)
  have ids: "execution_ids (wdb v1) = execution_ids (wdb v)"
    using only_run_ends(2) [of eid "wdb v"] v1 by (force simp: settle_ok_def split_beta only_run_def)
  have row: "\<exists>e. run_row aid (wdb v2) = Some e \<and> e_status e = Queued \<and> e_workflow e = lit ''audit''"
    using run_row_create [of aid "wdb v1" now "lit ''audit''" "lit ''document''" doc] assms(7) ch ids
    by (auto simp: chain_audit_def enqueue_audit_def Let_def split_beta)
  have "only_run eid (wdb v2) (wdb t)" using settle_bad_only [of eid v2 C 1 MineEnqueue] unfolding xt by simp
  then have "\<exists>e. run_row aid (wdb t) = Some e \<and> e_status e = Queued \<and> e_workflow e = lit ''audit''"
    using row assms(8) by (simp add: only_run_def)
  moreover have "x = RaisedError (rc_show C MineEnqueue)
      \<and> run_has eid Failed \<lparr>wr_output = JNull, wr_error = JStr (rc_show C MineEnqueue), wr_version = result_version\<rparr> (wdb t)"
    using settle_bad_ok [OF r2' xt] c(2) by (simp add: failed_with_def)
  ultimately show ?thesis using ok by (simp add: v1)
qed

lemma doc_fetch_set_status:
  assumes "doc_fetch False i s = Inr d"
  shows "doc_fetch False i (tx_set_status now i st s) = Inr (d\<lparr>dr_row := (dr_row d)\<lparr>d_status := st, d_updated := now\<rparr>\<rparr>)"
proof -
  obtain r where r: "find (\<lambda>x. d_id x = i \<and> (False \<or> d_deleted x = None)) (documents s) = Some r" "doc_join s r = Some d"
    using assms by (auto simp: doc_fetch_def split: option.splits)
  have "d_id r = i" using find_Some_in [OF r(1)] by simp
  moreover have "find (\<lambda>x. d_id x = i \<and> (False \<or> d_deleted x = None)) (documents (tx_set_status now i st s))
      = map_option (\<lambda>x. if d_id x = i then x\<lparr>d_status := st, d_updated := now\<rparr> else x) (Some r)"
    unfolding tx_set_status_def r(1) [symmetric] by (simp add: find_upd_where)
  ultimately show ?thesis
    using r(2) by (auto simp: doc_fetch_def doc_join_def tx_set_status_def)
qed

lemma doc_fetch_runs: "\<lbrakk>documents t = documents s; media t = media s\<rbrakk> \<Longrightarrow> doc_fetch b i t = doc_fetch b i s"
  by (simp add: doc_fetch_def doc_join_def cong: option.case_cong)

text \<open>
  C32.  A retry turns the failure of a rejected upload into a success.  When the upload does not
  validate, the first attempt fails with the validation error and marks the document invalid; the
  next attempt of the same task (every error but a timeout is retried) finds the document already
  finalized, takes it for one of an unsupported type, and ends succeeded with the reason
  \<open>unsupported type: None\<close>.
\<close>

theorem rejected_upload_retried:
  assumes "unicode_ok (rc_unicode C)" and "utc_ok (rc_deadline C)"
    and "run_get (rc_unicode C) eid (wdb w) = Inr rec" and "rc_cut C = None"
    and "doc_fetch False doc (wdb w) = Inr d" and "d_status (dr_row d) = DocNew" and "dr_mime d = None"
    and "validate_stream (fz_unicode F) (fz_namelist F) (nat (max_size (fz_config F))) (fz_body F (dr_object_key d)) (d_name (dr_row d)) = Some (Inl e)"
    and "\<And>n. \<exists>c. reads C n = Inr c"
    and "run_document_mining C A F ch u doc eid None rf w = (x, t)" and "run_document_mining C A F ch u doc eid None rf t = (y, t')"
  shows "x = RaisedError (rc_show C (MineDocument (BadUpload e))) \<and> settled eid (x, t)
    \<and> (\<exists>d'. doc_get doc (wdb t) = Inr d' \<and> d_status (dr_row d') = DocInvalid)
    \<and> y = Returned (mining_output doc \<lparr>mo_type = None, mo_mime = None, mo_unsupported = Some (lit ''unsupported type: None'')\<rparr>)
    \<and> settled eid (y, t')"
proof -
  have cut: "cut_ok C" using assms(4) by (simp add: cut_ok_def)
  have s: "settled eid (x, t)"
    using mining_settles [OF assms(1-3) cut, of A F ch u doc None rf] assms(9,10) by (simp add: task_outcome_def)
  obtain c0 where c: "reads C 0 = Inr c0" using assms(9) by blast
  have t: "doc_fetch False doc (wdb (start_run C eid w)) = Inr d" using assms(5) by simp
  let ?v = "upd_db (tx_set_status (fst (rc_now C)) doc DocInvalid) (start_run C eid w)"
  have body: "mining_body C A F u doc eid None rf (start_run C eid w) = (Inl (MineDocument (BadUpload e)), ?v)"
    using t assms(4,6,8)
    by (simp add: mining_body_def seq_def read_spec_def resolve_dossier_spec_def done_with_def budgeted_def mining_graph_def
        finalize_node_def run_db_def finalize_document_def finalize_def upd_db_def)
  have xt: "settle_bad C 0 eid (MineDocument (BadUpload e)) ?v = (x, t)"
    using assms(10) by (simp add: run_document_mining_body [OF body])
  obtain rec' where "run_get (rc_unicode C) eid (wdb (start_run C eid w)) = Inr rec'" using start_run_readable [OF assms(3)] by blast
  then have rv: "run_get (rc_unicode C) eid (wdb ?v) = Inr rec'" by (simp add: upd_db_def run_get_def tx_set_status_def)
  have x: "x = RaisedError (rc_show C (MineDocument (BadUpload e)))" using settle_bad_ok [OF rv xt] c by simp
  have fetch: "doc_fetch False doc (wdb t) = Inr (d\<lparr>dr_row := (dr_row d)\<lparr>d_status := DocInvalid, d_updated := fst (rc_now C)\<rparr>\<rparr>)"
  proof -
    have "documents (wdb t) = documents (wdb ?v)" "media (wdb t) = media (wdb ?v)"
      using settle_bad_only [of eid ?v C 0 "MineDocument (BadUpload e)"] by (simp_all add: xt only_run_def)
    then have "doc_fetch False doc (wdb t) = doc_fetch False doc (wdb ?v)" by (rule doc_fetch_runs)
    then show ?thesis using doc_fetch_set_status [OF t] by (simp add: upd_db_def)
  qed
  obtain rec2 where r2: "run_get (rc_unicode C) eid (wdb t) = Inr rec2"
    using finish_readable_world(2) [OF assms(1,2) rv] xt by (metis snd_conv)
  have t2: "doc_fetch False doc (wdb (start_run C eid t)) = Inr (d\<lparr>dr_row := (dr_row d)\<lparr>d_status := DocInvalid, d_updated := fst (rc_now C)\<rparr>\<rparr>)"
    using fetch by simp
  let ?o = "\<lparr>mo_type = None, mo_mime = None, mo_unsupported = Some (lit ''unsupported type: None'')\<rparr>"
  have body2: "mining_body C A F u doc eid None rf (start_run C eid t) = (Inr ?o, start_run C eid t)"
    using mining_body_invalid [OF t2 _ _ assms(4), of None u None A F eid rf] assms(7)
    by (simp add: classify_def resolve_dossier_spec_def unsupported_node_def lit_def)
  obtain rec3 where r3: "run_get (rc_unicode C) eid (wdb (start_run C eid t)) = Inr rec3" using start_run_readable [OF r2] by blast
  obtain z v1 where s1: "settle_ok C eid (mining_output doc ?o) (start_run C eid t) = (z, v1)" by fastforce
  then have v1: "settle_ok C eid (mining_output doc ?o) (start_run C eid t) = (Returned (mining_output doc ?o), v1)"
    and ok: "settled eid (Returned (mining_output doc ?o), v1)" using settle_ok_ok [OF r3 s1] c by auto
  have "(y, t') = (Returned (mining_output doc ?o), v1)" using assms(11) by (simp add: run_document_mining_body [OF body2] v1)
  then show ?thesis using x s fetch ok by (simp add: doc_get_def)
qed

subsection \<open>Splitting again\<close>

text \<open>What splitting keeps: the parts that are there, their blobs, and the original.\<close>

definition keeps_parts :: "world \<Rightarrow> world \<Rightarrow> bool" where
  "keeps_parts w v \<longleftrightarrow> (\<forall>d l q. part_by_locator d l (wdb w) = Some q \<longrightarrow> part_by_locator d l (wdb v) = Some q)"

definition with_blobs :: "world \<Rightarrow> bool" where
  "with_blobs w \<longleftrightarrow> (\<forall>p \<in> set (parts (wdb w)). p_media_id p \<noteq> None)"

definition keeps_other_blobs :: "uuid \<Rightarrow> world \<Rightarrow> world \<Rightarrow> bool" where
  "keeps_other_blobs doc w v \<longleftrightarrow>
     (\<forall>i m. media_fetch i (wdb w) = Inr m \<longrightarrow> (\<forall>n. m_object_key m \<noteq> doc_key doc (page_locator n)) \<longrightarrow> media_fetch i (wdb v) = Inr m)"

definition keeps_other_objects :: "uuid \<Rightarrow> world \<Rightarrow> world \<Rightarrow> bool" where
  "keeps_other_objects doc w v \<longleftrightarrow> (\<forall>k. (\<forall>n. k \<noteq> doc_key doc (page_locator n)) \<longrightarrow> objs v k = objs w k)"

definition splits_to :: "uuid \<Rightarrow> world \<Rightarrow> world \<Rightarrow> bool" where
  "splits_to doc w v \<longleftrightarrow> keeps_parts w v \<and> (with_blobs w \<longrightarrow> with_blobs v) \<and> keeps_other_blobs doc w v \<and> keeps_other_objects doc w v"

lemmas splits_defs = splits_to_def keeps_parts_def with_blobs_def keeps_other_blobs_def keeps_other_objects_def

lemma splits_to_refl [intro]: "splits_to doc w w"
  by (simp add: splits_defs)

lemma splits_to_trans: "\<lbrakk>splits_to doc w v; splits_to doc v u\<rbrakk> \<Longrightarrow> splits_to doc w u"
proof -
  assume a: "splits_to doc w v" and b: "splits_to doc v u"
  from a b have "keeps_parts w v" "keeps_parts v u" by (simp_all add: splits_to_def)
  then have "keeps_parts w u" unfolding keeps_parts_def by blast
  moreover from a b have "keeps_other_blobs doc w v" "keeps_other_blobs doc v u" by (simp_all add: splits_to_def)
  then have "keeps_other_blobs doc w u" unfolding keeps_other_blobs_def by blast
  moreover from a b have "keeps_other_objects doc w v" "keeps_other_objects doc v u" by (simp_all add: splits_to_def)
  then have "keeps_other_objects doc w u" unfolding keeps_other_objects_def by metis
  ultimately show ?thesis using a b by (simp add: splits_to_def)
qed

lemma insert_blob_parts: "parts (snd (insert_blob now fresh key i mime sz s)) = parts s"
  by (simp add: insert_blob_def split_beta)

lemma insert_blob_fetch:
  assumes "media_fetch j s = Inr m" "m_object_key m \<noteq> key"
  shows "media_fetch j (snd (insert_blob now fresh key i mime sz s)) = Inr m"
proof -
  let ?q = "\<lambda>m. m_id m = j \<and> m_deleted m = None"
  have f: "find ?q (media s) = Some m" using assms(1) by (auto simp: media_fetch_def split: option.splits)
  have "find ?q (upd_where (\<lambda>m. m_object_key m = key) (set_blob now mime sz) (media s)) = Some m"
    using assms(2) f by (subst find_upd_where) (simp_all add: set_blob_def)
  then have "find ?q (snd (put_blob (now, fresh, key, i, mime, sz) (media s))) = Some m"
    using f by (auto simp: put_blob_def upsert_def blob_key_def blob_set_def find_append split: option.split)
  then show ?thesis by (simp add: media_fetch_def insert_blob_def split_beta)
qed

lemma insert_part_lookup: "part_by_locator d l s = Some q \<Longrightarrow> part_by_locator d l (snd (insert_part p s)) = Some q"
  by (simp add: part_by_locator_def insert_part_def find_append)

lemma tx_part_splits:
  "splits_to doc w (w\<lparr>wdb := snd (tx_part now fresh doc (page_locator n) kind page mime sz (wdb w))\<rparr>)"
proof -
  let ?s1 = "snd (insert_blob now (fst fresh) (doc_key doc (page_locator n)) None mime (Some sz) (wdb w))"
  obtain x where x: "snd (tx_part now fresh doc (page_locator n) kind page mime sz (wdb w)) = snd (insert_part x ?s1)" "p_media_id x \<noteq> None"
    by (simp add: tx_part_def split_beta Let_def new_part_def)
  have m: "media_fetch i (snd (insert_part x s)) = media_fetch i s" for i s by (simp add: media_fetch_def insert_part_def)
  have l: "part_by_locator d l ?s1 = part_by_locator d l (wdb w)" for d l by (simp add: part_by_locator_def insert_blob_parts)
  have ps: "set (parts (snd (insert_part x ?s1))) \<subseteq> insert x (set (parts (wdb w)))" by (auto simp: insert_part_def insert_blob_parts)
  have "part_by_locator d l (snd (insert_part x ?s1)) = Some q" if "part_by_locator d l (wdb w) = Some q" for d l q
    using that by (intro insert_part_lookup) (simp add: l)
  moreover have "media_fetch i (snd (insert_part x ?s1)) = Inr r"
    if "media_fetch i (wdb w) = Inr r" "\<forall>n. m_object_key r \<noteq> doc_key doc (page_locator n)" for i r
    unfolding m by (rule insert_blob_fetch) (use that in simp_all)
  ultimately show ?thesis unfolding splits_defs x(1) using ps x(2) by auto
qed

lemma ensure_part_splits:
  assumes "ensure_part now fresh doc (page_locator n) kind render page id w = (r, v)"
  shows "splits_to doc w v"
proof -
  have up: "splits_to doc w (upload_object (doc_key doc (page_locator n)) data w)" for data
    by (auto simp: splits_defs upload_object_def)
  have "splits_to doc w (snd (create_part now fresh doc (page_locator n) kind render page id w))"
    using splits_to_trans [OF up tx_part_splits [of doc _ now fresh n kind page]]
    by (auto simp: create_part_def Let_def split_beta up split: option.split)
  then show ?thesis using assms by (auto simp: ensure_part_def split: option.splits if_splits)
qed

lemma ensure_part_reads:
  assumes "ensure_part now fresh doc loc kind render page id w = (Inr p, v)" "parts_keyed (wdb w)"
  shows "part_by_locator doc loc (wdb v) = Some p"
proof (cases "\<exists>q. part_by_locator doc loc (wdb w) = Some q \<and> p_media_id q \<noteq> None")
  case True
  then show ?thesis using assms by (auto simp: ensure_part_def)
next
  case False
  then have c: "create_part now fresh doc loc kind render page id w = (Inr p, v)"
    using assms(1) by (auto simp: ensure_part_def split: option.splits if_splits)
  then obtain data mime where "render () = Some (data, mime)" by (auto simp: create_part_def split: option.splits)
  with c have "doc \<in> document_ids (wdb w)" by (auto simp: create_part_def upload_object_def Let_def split: if_splits)
  obtain row s where t: "tx_part now fresh doc loc kind page mime (length data) (wdb w) = (row, s)" by fastforce
  define s1 where "s1 = snd (insert_blob now (fst fresh) (doc_key doc loc) None mime (Some (length data)) (wdb w))"
  define x where "x = new_part now (snd fresh) doc loc kind page
      (m_id (fst (insert_blob now (fst fresh) (doc_key doc loc) None mime (Some (length data)) (wdb w))))"
  have x: "insert_part x s1 = (row, s)" "p_document_id x = doc" "p_locator x = loc"
    using t by (simp_all add: tx_part_def split_beta Let_def s1_def x_def) (simp_all add: new_part_def)
  have "parts_keyed s1" using assms(2) by (simp add: parts_keyed_def s1_def insert_blob_parts)
  then obtain q where q: "(case row of Some q \<Rightarrow> Some q | None \<Rightarrow> part_by_locator doc loc s) = Some q" "part_by_locator doc loc s = Some q"
    using insert_part_read [OF x(2,3,1)] by blast
  then have "create_part now fresh doc loc kind render page id w = (Inr q, (upload_object (doc_key doc loc) data w)\<lparr>wdb := s\<rparr>)"
    using \<open>render () = _\<close> \<open>doc \<in> _\<close> t by (simp add: create_part_def upload_object_def Let_def)
  with c q(2) show ?thesis by auto
qed

lemma ensure_part_keyed:
  assumes "ensure_part now fresh doc loc kind render page id w = (r, v)" "parts_keyed (wdb w)"
  shows "parts_keyed (wdb v)"
proof -
  have "parts_keyed (snd (tx_part now fresh doc loc kind page mime sz s))" if "parts_keyed s" for s mime sz
    unfolding tx_part_def split_beta Let_def
    by (rule parts_keyed_insert) (use that in \<open>simp add: parts_keyed_def insert_blob_parts\<close>)
  then have "parts_keyed (wdb (snd (create_part now fresh doc loc kind render page id w)))"
    using assms(2) by (auto simp: create_part_def upload_object_def Let_def split_beta split: option.split)
  then show ?thesis using assms by (auto simp: ensure_part_def split: option.splits if_splits)
qed

definition handle_for :: "uuid \<Rightarrow> world \<Rightarrow> pdf_page \<Rightarrow> page_handle \<Rightarrow> bool" where
  "handle_for doc w p h \<longleftrightarrow> (\<exists>q. part_by_locator doc (page_locator (pg_number p)) (wdb w) = Some q \<and> p_media_id q \<noteq> None
     \<and> h = \<lparr>ph_number = pg_number p, ph_kind = classify_page p, ph_media = p_media_id q, ph_part = p_id q\<rparr>)"

lemma handle_for_later: "\<lbrakk>handle_for doc w p h; splits_to doc w v\<rbrakk> \<Longrightarrow> handle_for doc v p h"
  unfolding handle_for_def splits_to_def keeps_parts_def by blast

lemma split_page_ok:
  assumes "split_page A doc p w = (Inr h, v)" "parts_keyed (wdb w)" "with_blobs w"
  shows "splits_to doc w v \<and> parts_keyed (wdb v) \<and> handle_for doc v p h"
proof -
  let ?fi = "ac_ids A (pg_number p)"
  obtain q where e: "ensure_part (fi_now ?fi) (fi_blob ?fi, fi_part ?fi) doc (page_locator (pg_number p)) (part_kind_of (classify_page p))
        (\<lambda>_. page_blob A p) (Some (int (pg_number p))) id w = (Inr q, v)"
      and h: "h = \<lparr>ph_number = pg_number p, ph_kind = classify_page p, ph_media = p_media_id q, ph_part = p_id q\<rparr>"
    using assms(1) by (auto simp: split_page_def seq_def run_world_def done_with_def split: prod.splits sum.splits)
  have s: "splits_to doc w v" by (rule ensure_part_splits [OF e])
  have r: "part_by_locator doc (page_locator (pg_number p)) (wdb v) = Some q" by (rule ensure_part_reads [OF e assms(2)])
  have "p_media_id q \<noteq> None"
    using s assms(3) part_by_locator_in [OF r] by (simp add: splits_to_def with_blobs_def)
  with s r ensure_part_keyed [OF e assms(2)] show ?thesis by (auto simp: handle_for_def h)
qed

lemma split_pages_ok:
  assumes "split_pages A doc ps w = (Inr hs, v)" "parts_keyed (wdb w)" "with_blobs w"
  shows "splits_to doc w v \<and> parts_keyed (wdb v) \<and> list_all2 (handle_for doc v) ps hs"
  using assms
proof (induction A doc ps arbitrary: w hs rule: split_pages.induct)
  case (1 A doc)
  then show ?case by (auto simp: done_with_def)
next
  case (2 A doc p ps)
  from "2.prems"(1) obtain h u hs' where h: "split_page A doc p w = (Inr h, u)" "split_pages A doc ps u = (Inr hs', v)" "hs = h # hs'"
    by (auto simp: seq_def done_with_def split: prod.splits sum.splits)
  note a = split_page_ok [OF h(1) "2.prems"(2,3)]
  have "with_blobs u" using a "2.prems"(3) by (simp add: splits_to_def)
  with "2.IH" [OF h(2)] a have b: "splits_to doc u v" "parts_keyed (wdb v)" "list_all2 (handle_for doc v) ps hs'" by auto
  then show ?case using a splits_to_trans handle_for_later by (auto simp: h(3))
qed

lemma split_page_again:
  assumes "handle_for doc w p h"
  shows "split_page A doc p w = (Inr h, w)"
  using assms by (auto simp: handle_for_def split_page_def seq_def run_world_def ensure_part_def done_with_def)

lemma split_pages_again: "list_all2 (handle_for doc w) ps hs \<Longrightarrow> split_pages A doc ps w = (Inr hs, w)"
  by (induction ps hs rule: list_all2_induct) (simp_all add: done_with_def seq_def split_page_again)

lemma original_not_page: "doc_key doc (lit ''original'') \<noteq> doc_key doc (page_locator n)"
  by (simp add: doc_key_def page_locator_def Let_def lit_def)

lemma page_count_reads [simp]:
  "part_by_locator d l (tx_page_count now doc n s) = part_by_locator d l s"
  "media_fetch i (tx_page_count now doc n s) = media_fetch i s"
  "objs (upd_db (tx_page_count now doc n) w) = objs w"
  by (simp_all add: upd_db_def tx_page_count_def part_by_locator_def media_fetch_def)

text \<open>
  C19.  Splitting a PDF is exact and repeatable.  A successful split yields one handle per page, in
  order, with the page's number and class and the id and blob of the part stored under the page's
  locator, and it records the page count.  A rerun of the node, whatever its renderer would do,
  returns the same handles and count and writes nothing but the count again: no part is added,
  no blob is uploaded.
\<close>

theorem split_node_repeatable:
  assumes "split_node A now doc (Some mid) w = (Inr (hs, n), w1)"
    and "media_fetch mid (wdb w) = Inr m" and "m_object_key m = doc_key doc (lit ''original'')"
    and "parts_keyed (wdb w)" and "with_blobs w" and "ac_split B = ac_split A"
  shows "(\<exists>data pages. objs w (m_object_key m) = Some data \<and> ac_split A data = Some pages \<and> n = last_count pages
        \<and> map (\<lambda>h. (ph_number h, ph_kind h)) hs = map (\<lambda>p. (pg_number p, classify_page p)) pages)
    \<and> (\<forall>h \<in> set hs. \<exists>q. part_by_locator doc (page_locator (ph_number h)) (wdb w1) = Some q \<and> ph_part h = p_id q \<and> ph_media h = p_media_id q)
    \<and> (\<forall>d \<in> set (documents (wdb w1)). d_id d = doc \<longrightarrow> d_page_count d = Some (int n))
    \<and> split_node B later doc (Some mid) w1 = (Inr (hs, n), upd_db (tx_page_count later doc (int n)) w1)"
proof -
  obtain data pages v where o': "objs w (m_object_key m) = Some data" "ac_split A data = Some pages"
      "split_pages A doc pages w = (Inr hs, v)" "n = last_count pages" "w1 = upd_db (tx_page_count now doc (int n)) v"
    using assms(1,2)
    by (auto simp: split_node_def seq_def download_def media_download_def activity_def raise_def done_with_def write_db_def
        split: prod.splits sum.splits option.splits)
  note sp = split_pages_ok [OF o'(3) assms(4,5)]
  have "handle_for doc w1 = handle_for doc v" by (simp add: o'(5) handle_for_def fun_eq_iff)
  with sp have l2: "list_all2 (handle_for doc w1) pages hs" by simp
  have maps: "map (\<lambda>h. (ph_number h, ph_kind h)) hs = map (\<lambda>p. (pg_number p, classify_page p)) pages"
    using l2 by (induction pages hs rule: list_all2_induct) (auto simp: handle_for_def)
  have parts: "\<exists>q. part_by_locator doc (page_locator (ph_number h)) (wdb w1) = Some q \<and> ph_part h = p_id q \<and> ph_media h = p_media_id q"
    if "h \<in> set hs" for h
    using l2 that by (induction pages hs rule: list_all2_induct) (auto simp: handle_for_def)
  have "media_fetch mid (wdb v) = Inr m" "objs v (m_object_key m) = Some data"
    using sp assms(2,3) o'(1) original_not_page [of doc] by (simp_all add: splits_to_def keeps_other_blobs_def keeps_other_objects_def)
  then have "media_fetch mid (wdb w1) = Inr m" "objs w1 (m_object_key m) = Some data" by (simp_all add: o'(5))
  then have again: "split_node B later doc (Some mid) w1 = (Inr (hs, n), upd_db (tx_page_count later doc (int n)) w1)"
    using split_pages_again [OF l2, of B] assms(6) o'(2,4)
    by (simp add: split_node_def seq_def download_def media_download_def activity_def done_with_def write_db_def)
  have count: "d_page_count d = Some (int n)" if "d \<in> set (documents (wdb w1))" "d_id d = doc" for d
  proof -
    let ?f = "\<lambda>r. if d_id r = doc then r\<lparr>d_page_count := Some (int n), d_updated := now\<rparr> else r"
    have "set (documents (wdb w1)) = ?f ` set (documents (wdb v))" unfolding o'(5) by (simp add: tx_page_count_def set_upd_where)
    then have "d \<in> ?f ` set (documents (wdb v))" using that(1) by (rule back_subst [rotated])
    then obtain r where "d = ?f r" by (rule imageE)
    then show ?thesis using that(2) by (cases "d_id r = doc") simp_all
  qed
  show ?thesis
  proof (intro conjI ballI impI)
    show "\<exists>data pages. objs w (m_object_key m) = Some data \<and> ac_split A data = Some pages \<and> n = last_count pages
        \<and> map (\<lambda>h. (ph_number h, ph_kind h)) hs = map (\<lambda>p. (pg_number p, classify_page p)) pages"
      using o'(1,2,4) maps by blast
  qed (rule parts, assumption, rule count, assumption+, rule again)
qed

subsection \<open>Witnesses\<close>

text \<open>Run 5 on document 1, whose upload is a single NUL byte; the models answer nothing.\<close>

definition demo_ctx :: run_ctx where
  "demo_ctx = \<lparr>rc_unicode = ascii_unicode, rc_latest = (\<lambda>_ _. Inr None), rc_deadline = demo_deadline, rc_now = (7, 8), rc_thread = [116],
     rc_show = (\<lambda>_. [69]), rc_meta = (\<lambda>_. [70]), rc_cut = None\<rparr>"

definition demo_ids :: fresh_ids where
  "demo_ids = \<lparr>fi_now = 7, fi_part = 11, fi_blob = 12, fi_thumb = 13, fi_extract = 14, fi_annotation = 15\<rparr>"

definition demo_activities :: activities where
  "demo_activities = \<lparr>ac_split = (\<lambda>_. None), ac_render = (\<lambda>_. None), ac_extract_pdf = (\<lambda>_. None), ac_annotate_text = (\<lambda>_ _ _. None),
     ac_thumb_pdf = (\<lambda>_. None), ac_extract_image = (\<lambda>_. None), ac_annotate_image = (\<lambda>_ _ _. None), ac_thumb_image = (\<lambda>_. None),
     ac_loads = (\<lambda>_. None), ac_ids = (\<lambda>_. demo_ids), ac_sched = id\<rparr>"

definition demo_finalizer :: finalizer where
  "demo_finalizer = \<lparr>fz_unicode = ascii_unicode, fz_namelist = (\<lambda>_. None), fz_config = media_config_default, fz_body = (\<lambda>_. ([[0]], False))\<rparr>"

definition mining_userdb :: "userdb \<times> userdb" where
  "mining_userdb = (let u = \<lparr>dossiers = [], docdefs = [], rules = [], links = [], knowledges = []\<rparr> in (u, u))"

definition demo_world :: "document_status \<Rightarrow> world" where
  "demo_world st = \<lparr>wdb = demo_audit_db\<lparr>media := [one_blob], documents := [one_row\<lparr>d_status := st\<rparr>]\<rparr>, objs = (\<lambda>_. None)\<rparr>"

lemma demo_ctx_ok: "unicode_ok (rc_unicode demo_ctx)" "utc_ok (rc_deadline demo_ctx)" "cut_ok demo_ctx" "rc_cut demo_ctx = None"
  "\<exists>c. reads demo_ctx n = Inr c"
  using unicode_ok_ascii by (simp_all add: demo_ctx_def utc_ok_def valid_date_def days_in_month_def cut_ok_def demo_deadline_def reads_def)

lemma demo_world_get: "\<exists>rec. run_get (rc_unicode demo_ctx) 5 (wdb (demo_world st)) = Inr rec"
  using demo_audit_get run_get_cong [of "wdb (demo_world st)" demo_audit_db] by (simp add: demo_ctx_def demo_world_def)

lemma demo_world_doc: "doc_fetch False 1 (wdb (demo_world st)) = Inr \<lparr>dr_row = one_row\<lparr>d_status := st\<rparr>, dr_object_key = m_object_key one_blob,
    dr_mime = None, dr_size = None\<rparr>"
  by (simp add: doc_fetch_def doc_join_def demo_world_def one_row_def one_blob_def blob_new_def)


lemma demo_body: "mining_body demo_ctx demo_activities demo_finalizer mining_userdb 1 5 key False (start_run demo_ctx 5 (demo_world DocInvalid))
  = (Inr \<lparr>mo_type = None, mo_mime = None, mo_unsupported = Some (unsupported_node None)\<rparr>, start_run demo_ctx 5 (demo_world DocInvalid))"
proof -
  have "resolve_dossier_spec key mining_userdb = Inr None"
    by (simp add: resolve_dossier_spec_def get_dossier_def mining_userdb_def Let_def split: option.split)
  then show ?thesis
    using mining_body_invalid [of 1 "start_run demo_ctx 5 (demo_world DocInvalid)" _ demo_ctx key mining_userdb None demo_activities demo_finalizer 5 False]
    by (simp add: demo_world_doc demo_ctx_ok classify_def del: One_nat_def)
qed

text \<open>The queue refuses the audit of run 5: the run fails, audit run 6 stays queued.\<close>

theorem audit_enqueue_fails_run_witness:
  "let t = snd (run_document_mining demo_ctx demo_activities demo_finalizer (9, 6, [116], \<lambda>_. False) mining_userdb 1 5 (Some [100]) False (demo_world DocInvalid))
   in run_has 5 Failed \<lparr>wr_output = JNull, wr_error = JStr [69], wr_version = result_version\<rparr> (wdb t)
      \<and> (\<exists>e. run_row 6 (wdb t) = Some e \<and> e_status e = Queued)"
proof -
  obtain rec where r: "run_get (rc_unicode demo_ctx) 5 (wdb (demo_world DocInvalid)) = Inr rec" using demo_world_get by blast
  have "6 \<notin> execution_ids (wdb (start_run demo_ctx 5 (demo_world DocInvalid)))"
    by (simp add: execution_ids_def start_run_def upd_db_def mark_running_def upd_run_def demo_world_def demo_audit_db_def demo_audit_row_def)
  from audit_enqueue_fails_run [OF demo_ctx_ok(1,2) r demo_ctx_ok(3) demo_body _ this _ demo_ctx_ok(5) surjective_pairing, where now = 9 and thread = "[116]"]
  show ?thesis by (auto simp: Let_def demo_ctx_def)
qed

text \<open>The NUL byte: rejected by the first attempt, a success after the second.\<close>

theorem rejected_upload_retried_witness:
  "let t = snd (run_document_mining demo_ctx demo_activities demo_finalizer (9, 6, [116], \<lambda>_. False) mining_userdb 1 5 None False (demo_world DocNew));
       r = run_document_mining demo_ctx demo_activities demo_finalizer (9, 6, [116], \<lambda>_. False) mining_userdb 1 5 None False t
   in (\<exists>d. doc_get 1 (wdb t) = Inr d \<and> d_status (dr_row d) = DocInvalid) \<and> (\<exists>x. fst r = Returned x) \<and> settled 5 r"
proof -
  obtain rec where r: "run_get (rc_unicode demo_ctx) 5 (wdb (demo_world DocNew)) = Inr rec" using demo_world_get by blast
  have "take header_len [0::byte] = [0]" by (simp add: header_len_def)
  then have "detect_mime ascii_unicode (\<lambda>_. None) [0] None = None"
    by (simp add: detect_mime_def magic_def zip_magic_def classify_text_def bytes_def match_webp_def bad_ctrl_def Let_def)
  then have v: "\<exists>e. validate_stream (fz_unicode demo_finalizer) (fz_namelist demo_finalizer) (nat (max_size (fz_config demo_finalizer)))
      (fz_body demo_finalizer k) None = Some (Inl e)" for k
    by (simp add: validate_stream_def validate_object_def demo_finalizer_def media_config_default_def)
  obtain e where e: "validate_stream (fz_unicode demo_finalizer) (fz_namelist demo_finalizer) (nat (max_size (fz_config demo_finalizer)))
      (fz_body demo_finalizer (m_object_key one_blob)) None = Some (Inl e)" using v by blast
  from rejected_upload_retried [OF demo_ctx_ok(1,2) r demo_ctx_ok(4) demo_world_doc _ _ _ demo_ctx_ok(5) surjective_pairing surjective_pairing,
      of demo_finalizer e demo_activities "(9, 6, [116], \<lambda>_. False)" mining_userdb False]
  show ?thesis by (auto simp: e Let_def one_row_def)
qed

definition demo_page :: pdf_page where
  "demo_page = \<lparr>pg_number = 1, pg_count = 1, pg_content = [37], pg_text_len = 3, pg_images = 0, pg_annots = False\<rparr>"

definition demo_splitter :: activities where
  "demo_splitter = demo_activities\<lparr>ac_split := (\<lambda>_. Some [demo_page])\<rparr>"

definition demo_pdf :: world where
  "demo_pdf = (demo_world DocReady)\<lparr>objs := (\<lambda>k. if k = doc_key 1 (lit ''original'') then Some [37] else None)\<rparr>"

lemma demo_split: "\<exists>hs n w1. split_node demo_splitter 7 1 (Some 2) demo_pdf = (Inr (hs, n), w1)"
proof -
  have f: "media_fetch 2 (wdb demo_pdf) = Inr one_blob"
    by (simp add: media_fetch_def demo_pdf_def demo_world_def one_blob_def blob_new_def)
  have o': "objs demo_pdf (m_object_key one_blob) = Some [37]" by (simp add: demo_pdf_def one_blob_def blob_new_def)
  obtain h v where "split_page demo_splitter 1 demo_page demo_pdf = (Inr h, v)"
    by (simp add: split_page_def seq_def run_world_def ensure_part_def create_part_def part_by_locator_def demo_pdf_def demo_world_def
        demo_audit_db_def empty_db_def page_blob_def classify_page_def demo_page_def done_with_def upload_object_def document_ids_def
        one_row_def Let_def tx_part_def split_beta insert_part_def insert_blob_parts)
  then show ?thesis
    using f o' by (simp add: split_node_def seq_def download_def media_download_def activity_def demo_splitter_def
        done_with_def write_db_def)
qed

text \<open>One page, split twice, the second time with a renderer that raises.\<close>

theorem split_node_repeatable_witness:
  "\<exists>h n w1. split_node demo_splitter 9 1 (Some 2) w1 = (Inr ([h], n), upd_db (tx_page_count 9 1 (int n)) w1) \<and> n = 1
    \<and> ph_kind h = TextPage"
proof -
  obtain hs n w1 where s: "split_node demo_splitter 7 1 (Some 2) demo_pdf = (Inr (hs, n), w1)" using demo_split by blast
  have f: "media_fetch 2 (wdb demo_pdf) = Inr one_blob" "m_object_key one_blob = doc_key 1 (lit ''original'')"
    by (simp_all add: media_fetch_def demo_pdf_def demo_world_def one_blob_def blob_new_def)
  have p: "parts_keyed (wdb demo_pdf)" "with_blobs demo_pdf"
    by (simp_all add: parts_keyed_def with_blobs_def demo_pdf_def demo_world_def demo_audit_db_def empty_db_def)
  note t = split_node_repeatable [OF s f p refl, of 9]
  obtain h where h: "hs = [h]" "ph_kind h = TextPage" "n = 1"
    using t [THEN conjunct1] by (auto simp: demo_splitter_def last_count_def demo_page_def classify_page_def Cons_eq_map_conv)
  show ?thesis using t [THEN conjunct2, THEN conjunct2, THEN conjunct2] h by blast
qed

end
