(* ===== verification/Valkey.thy ===== *)
theory Valkey
  imports Bucket "HOL-Library.AList" "HOL-Library.List_Lexorder"
begin

section \<open>Keys of a Valkey database\<close>

text \<open>
  The commands the checkpointer, the key-value client and the task monitor issue, on a database that maps a key to its
  value and its time of expiry in seconds.  A key that has expired is absent; a write to an absent
  key creates it without expiry, a write to a live key keeps its expiry.  Each key holds one
  type; the key spaces of the callers do not mix types.
\<close>

datatype vvalue = VText ustr | VHash "(ustr \<times> ustr) list" | VSet "ustr list" | VScores "(ustr \<times> rat) list"

record vslot =
  vs_value :: vvalue
  vs_expires :: "rat option"

type_synonym valkey = "ustr \<Rightarrow> vslot option"

definition live_slot :: "rat \<Rightarrow> ustr \<Rightarrow> valkey \<Rightarrow> vslot option" where
  "live_slot now k st = (case st k of None \<Rightarrow> None
     | Some e \<Rightarrow> (case vs_expires e of None \<Rightarrow> Some e | Some t \<Rightarrow> if now < t then Some e else None))"

definition put_value :: "rat \<Rightarrow> ustr \<Rightarrow> vvalue \<Rightarrow> valkey \<Rightarrow> valkey" where
  "put_value now k v st = st(k \<mapsto> \<lparr>vs_value = v,
     vs_expires = (case live_slot now k st of None \<Rightarrow> None | Some e \<Rightarrow> vs_expires e)\<rparr>)"

definition expire :: "rat \<Rightarrow> ustr \<Rightarrow> int \<Rightarrow> valkey \<Rightarrow> valkey" where
  "expire now k ttl st = (case live_slot now k st of None \<Rightarrow> st
     | Some e \<Rightarrow> st(k \<mapsto> e\<lparr>vs_expires := Some (now + of_int ttl)\<rparr>))"

definition hgetall :: "rat \<Rightarrow> ustr \<Rightarrow> valkey \<Rightarrow> (ustr \<times> ustr) list" where
  "hgetall now k st = (case live_slot now k st of None \<Rightarrow> []
     | Some e \<Rightarrow> (case vs_value e of VHash h \<Rightarrow> h | _ \<Rightarrow> []))"

definition hset :: "rat \<Rightarrow> ustr \<Rightarrow> (ustr \<times> ustr) list \<Rightarrow> valkey \<Rightarrow> valkey" where
  "hset now k kvs st = put_value now k (VHash (fold (\<lambda>(f, v). AList.update f v) kvs (hgetall now k st))) st"

definition hdel :: "rat \<Rightarrow> ustr \<Rightarrow> ustr list \<Rightarrow> valkey \<Rightarrow> valkey" where
  "hdel now k fs st = (let h = filter (\<lambda>(f, v). f \<notin> set fs) (hgetall now k st)
     in if h = [] then st(k := None) else put_value now k (VHash h) st)"

definition smembers :: "rat \<Rightarrow> ustr \<Rightarrow> valkey \<Rightarrow> ustr list" where
  "smembers now k st = (case live_slot now k st of None \<Rightarrow> []
     | Some e \<Rightarrow> (case vs_value e of VSet m \<Rightarrow> m | _ \<Rightarrow> []))"

definition sadd :: "rat \<Rightarrow> ustr \<Rightarrow> ustr \<Rightarrow> valkey \<Rightarrow> valkey" where
  "sadd now k m st = put_value now k (VSet (List.insert m (smembers now k st))) st"

definition zmembers :: "rat \<Rightarrow> ustr \<Rightarrow> valkey \<Rightarrow> (ustr \<times> rat) list" where
  "zmembers now k st = (case live_slot now k st of None \<Rightarrow> []
     | Some e \<Rightarrow> (case vs_value e of VScores z \<Rightarrow> z | _ \<Rightarrow> []))"

definition zadd :: "rat \<Rightarrow> ustr \<Rightarrow> ustr \<Rightarrow> rat \<Rightarrow> valkey \<Rightarrow> valkey" where
  "zadd now k m score st = put_value now k (VScores (AList.update m score (zmembers now k st))) st"

definition zfilter :: "rat \<Rightarrow> ustr \<Rightarrow> (ustr \<times> rat \<Rightarrow> bool) \<Rightarrow> valkey \<Rightarrow> valkey" where
  "zfilter now k keep st = (let z = filter keep (zmembers now k st)
     in if z = [] then st(k := None) else put_value now k (VScores z) st)"

definition zremrangebyscore :: "rat \<Rightarrow> ustr \<Rightarrow> rat \<Rightarrow> valkey \<Rightarrow> valkey" where
  "zremrangebyscore now k hi st = zfilter now k (\<lambda>(m, s). hi < s) st"

definition zrem :: "rat \<Rightarrow> ustr \<Rightarrow> ustr \<Rightarrow> valkey \<Rightarrow> valkey" where
  "zrem now k m st = zfilter now k (\<lambda>(x, s). x \<noteq> m) st"

text \<open>\<open>ZREVRANGE k 0 n\<close>: by descending score, then descending name.\<close>

definition zrevrange :: "rat \<Rightarrow> ustr \<Rightarrow> nat \<Rightarrow> valkey \<Rightarrow> ustr list" where
  "zrevrange now k n st = take (Suc n) (map fst (rev (sort_key (\<lambda>(m, s). (s, m)) (zmembers now k st))))"

text \<open>Texts: \<open>SET\<close> replaces value and expiry, \<open>DEL\<close> and \<open>EXISTS\<close> count live keys.\<close>

definition text_get :: "rat \<Rightarrow> ustr \<Rightarrow> valkey \<Rightarrow> ustr option" where
  "text_get now k st = (case live_slot now k st of None \<Rightarrow> None
     | Some e \<Rightarrow> (case vs_value e of VText s \<Rightarrow> Some s | _ \<Rightarrow> None))"

definition text_set :: "rat \<Rightarrow> ustr \<Rightarrow> ustr \<Rightarrow> int option \<Rightarrow> valkey \<Rightarrow> valkey" where
  "text_set now k s ex st = st(k \<mapsto> \<lparr>vs_value = VText s, vs_expires = map_option (\<lambda>t. now + of_int t) ex\<rparr>)"

definition count_live :: "rat \<Rightarrow> ustr list \<Rightarrow> valkey \<Rightarrow> nat" where
  "count_live now ks st = length (filter (\<lambda>k. live_slot now k st \<noteq> None) ks)"

definition del_keys :: "ustr list \<Rightarrow> valkey \<Rightarrow> valkey" where
  "del_keys ks st = (\<lambda>k. if k \<in> set ks then None else st k)"

subsection \<open>Reads after writes\<close>

named_theorems valkey_simps \<open>what a read of one key sees after a write of another or the same key\<close>

lemma live_slot_other [valkey_simps]:
  "k \<noteq> j \<Longrightarrow> live_slot t j (put_value now k v st) = live_slot t j st"
  "k \<noteq> j \<Longrightarrow> live_slot t j (expire now k ttl st) = live_slot t j st"
  by (auto simp: live_slot_def put_value_def expire_def split: option.split)

lemma live_slot_put [valkey_simps]:
  "live_slot now k (put_value now k v st)
     = Some \<lparr>vs_value = v, vs_expires = (case live_slot now k st of None \<Rightarrow> None | Some e \<Rightarrow> vs_expires e)\<rparr>"
  by (auto simp: live_slot_def put_value_def split: option.split)

lemma live_slot_expire:
  "0 < ttl \<Longrightarrow> now \<le> t \<Longrightarrow> live_slot t k (expire now k ttl st) =
     (case live_slot now k st of None \<Rightarrow> None
      | Some e \<Rightarrow> if t < now + of_int ttl then Some (e\<lparr>vs_expires := Some (now + of_int ttl)\<rparr>) else None)"
  by (auto simp: live_slot_def expire_def split: option.split)

lemma reads_other [valkey_simps]:
  "k \<noteq> j \<Longrightarrow> hgetall t j (hset now k kvs st) = hgetall t j st"
  "k \<noteq> j \<Longrightarrow> hgetall t j (sadd now k m st) = hgetall t j st"
  "k \<noteq> j \<Longrightarrow> hgetall t j (expire now k ttl st) = hgetall t j st"
  "k \<noteq> j \<Longrightarrow> smembers t j (hset now k kvs st) = smembers t j st"
  "k \<noteq> j \<Longrightarrow> smembers t j (sadd now k m st) = smembers t j st"
  "k \<noteq> j \<Longrightarrow> smembers t j (expire now k ttl st) = smembers t j st"
  by (simp_all add: hgetall_def smembers_def hset_def sadd_def valkey_simps)

lemma text_get_set [valkey_simps]:
  "text_get t k (text_set now k s (Some ttl) st) = (if t < now + of_int ttl then Some s else None)"
  by (simp add: text_get_def text_set_def live_slot_def)

lemma text_get_other [valkey_simps]: "k \<noteq> j \<Longrightarrow> text_get t j (text_set now k s ex st) = text_get t j st"
  by (simp add: text_get_def text_set_def live_slot_def)

lemma text_get_del [valkey_simps]: "text_get t k (del_keys ks st) = (if k \<in> set ks then None else text_get t k st)"
  by (simp add: text_get_def del_keys_def live_slot_def)

lemma live_slot_drop [valkey_simps]: "k \<noteq> j \<Longrightarrow> live_slot t j (st(k := None)) = live_slot t j st"
  by (simp add: live_slot_def)

lemma live_slot_zfilter [valkey_simps]: "k \<noteq> j \<Longrightarrow> live_slot t j (zfilter now k keep st) = live_slot t j st"
  by (simp add: zfilter_def Let_def valkey_simps)

lemma live_slot_hdel [valkey_simps]: "k \<noteq> j \<Longrightarrow> live_slot t j (hdel now k fs st) = live_slot t j st"
  by (simp add: hdel_def Let_def valkey_simps)

lemma live_slot_hset [valkey_simps]: "k \<noteq> j \<Longrightarrow> live_slot t j (hset now k kvs st) = live_slot t j st"
  by (simp add: hset_def valkey_simps)

lemma live_slot_zadd [valkey_simps]: "k \<noteq> j \<Longrightarrow> live_slot t j (zadd now k m sc st) = live_slot t j st"
  by (simp add: zadd_def valkey_simps)

lemma hgetall_hdel: "hgetall now k (hdel now k fs st) = filter (\<lambda>(f, v). f \<notin> set fs) (hgetall now k st)"
  by (auto simp: hgetall_def hdel_def Let_def valkey_simps) (simp add: live_slot_def)

text \<open>A write followed by \<open>EXPIRE\<close> in one pipeline is readable for exactly the time to live.\<close>

lemma hset_expire:
  assumes "0 < ttl" "now \<le> t"
  shows "hgetall t k (expire now k ttl (hset now k kvs st)) =
    (if t < now + of_int ttl then fold (\<lambda>(f, v). AList.update f v) kvs (hgetall now k st) else [])"
  using assms by (simp add: hgetall_def live_slot_expire hset_def valkey_simps)

lemma sadd_expire:
  assumes "0 < ttl" "now \<le> t"
  shows "smembers t k (expire now k ttl (sadd now k m st)) =
    (if t < now + of_int ttl then List.insert m (smembers now k st) else [])"
  using assms by (simp add: smembers_def live_slot_expire sadd_def valkey_simps)

lemma map_of_fields:
  assumes "distinct (map fst kvs)"
  shows "map_of (fold (\<lambda>(f, v). AList.update f v) kvs h) = map_of h ++ map_of kvs"
  using assms
proof (induction kvs arbitrary: h)
  case (Cons kv kvs)
  obtain f v where kv: "kv = (f, v)" by (cases kv)
  have "f \<notin> dom (map_of kvs)" using Cons.prems by (simp add: kv dom_map_of_conv_image_fst)
  then show ?case using Cons by (auto simp: kv update_conv' map_add_def fun_eq_iff split: option.split)
qed simp

text \<open>\<open>ZADD\<close>, \<open>EXPIRE\<close> and the removal of old scores, as the task monitor sends them.\<close>

lemma zadd_trimmed:
  assumes "0 < ttl" "now \<le> t"
  shows "zmembers t k (zremrangebyscore now k (now - of_int ttl) (expire now k ttl (zadd now k m now st))) =
    (if t < now + of_int ttl then filter (\<lambda>(x, s). now - of_int ttl < s) (AList.update m now (zmembers now k st)) else [])"
proof -
  let ?z = "AList.update m now (zmembers now k st)" and ?st = "expire now k ttl (zadd now k m now st)"
  have e: "live_slot t k ?st = (if t < now + of_int ttl then Some \<lparr>vs_value = VScores ?z, vs_expires = Some (now + of_int ttl)\<rparr> else None)"
    if "now \<le> t" for t
    using assms(1) that by (simp add: zadd_def live_slot_expire live_slot_put)
  have z: "zmembers now k ?st = ?z" using e [of now] assms(1) by (simp add: zmembers_def)
  have "(m, now) \<in> set ?z" by (metis map_of_SomeD update_conv' fun_upd_same)
  then have "filter (\<lambda>(x, s). now - of_int ttl < s) ?z \<noteq> []" using assms(1) by (auto simp: filter_empty_conv intro!: bexI [of _ "(m, now)"])
  then show ?thesis using e [of now] assms
    by (simp add: zremrangebyscore_def zfilter_def Let_def z zmembers_def [of t] put_value_def live_slot_def [of t])
qed

end
