(* ===== verification/Checkpoint.thy ===== *)
theory Checkpoint
  imports Valkey Blobs Documents
begin

section \<open>The checkpointer\<close>

text \<open>
  \<open>doci/workflows/checkpoint.py\<close>.  The serializer of LangGraph and msgpack are the fields of
  \<open>codec\<close>; \<open>special\<close> is LangGraph's table of the reserved write indices.  Replies of the database
  are text, so decoding them is the identity.  \<open>Inl ()\<close> is an exception: a hash without the fields
  of a checkpoint, or a write field that does not end in a number.
\<close>

record saver =
  sv_ttl :: int
  sv_prefix :: ustr

record checkpoint_config =
  cc_url :: ustr
  cc_ttl :: int
  cc_prefix :: ustr

definition default_checkpoint_ttl :: int where
  "default_checkpoint_ttl = 3 * 24 * 60 * 60"

definition checkpoint_config_from_env :: "unicode \<Rightarrow> (ustr \<Rightarrow> ustr option) \<Rightarrow> checkpoint_config option" where
  "checkpoint_config_from_env U env =
     (case (case env (lit ''DOCI_CHECKPOINT_TTL'') of None \<Rightarrow> Some default_checkpoint_ttl | Some s \<Rightarrow> py_int U s) of
        None \<Rightarrow> None
      | Some ttl \<Rightarrow> Some \<lparr>cc_url = (case env (lit ''DOCI_CHECKPOINT_REDIS_URL'') of None \<Rightarrow> lit ''redis://localhost:6379/2'' | Some u \<Rightarrow> u),
                          cc_ttl = ttl,
                          cc_prefix = (case env (lit ''DOCI_CHECKPOINT_PREFIX'') of None \<Rightarrow> lit ''doci:ckpt:'' | Some p \<Rightarrow> p)\<rparr>)"

definition build_saver :: "checkpoint_config \<Rightarrow> saver" where
  "build_saver cfg = \<lparr>sv_ttl = cc_ttl cfg, sv_prefix = cc_prefix cfg\<rparr>"

record 'v codec =
  dumps :: "'v \<Rightarrow> ustr \<times> ustr"
  loads :: "ustr \<times> ustr \<Rightarrow> 'v"
  pack :: "ustr \<times> ustr \<times> ustr \<times> ustr \<times> ustr \<Rightarrow> ustr"
  unpack :: "ustr \<Rightarrow> ustr \<times> ustr \<times> ustr \<times> ustr \<times> ustr"

subsection \<open>Keys\<close>

definition cp_key :: "saver \<Rightarrow> ustr \<Rightarrow> ustr \<Rightarrow> ustr \<Rightarrow> ustr" where
  "cp_key S thread ns cid = sv_prefix S @ lit ''cp:'' @ thread @ [58] @ ns @ [58] @ cid"

definition idx_key :: "saver \<Rightarrow> ustr \<Rightarrow> ustr \<Rightarrow> ustr" where
  "idx_key S thread ns = sv_prefix S @ lit ''idx:'' @ thread @ [58] @ ns"

definition w_key :: "saver \<Rightarrow> ustr \<Rightarrow> ustr \<Rightarrow> ustr \<Rightarrow> ustr" where
  "w_key S thread ns cid = sv_prefix S @ lit ''w:'' @ thread @ [58] @ ns @ [58] @ cid"

subsection \<open>Writing\<close>

definition cp_fields :: "'v codec \<Rightarrow> ustr option \<Rightarrow> 'v \<Rightarrow> 'v \<Rightarrow> (ustr \<times> ustr) list" where
  "cp_fields C parent cp md =
     [(lit ''cp_t'', fst (dumps C cp)), (lit ''cp'', snd (dumps C cp)), (lit ''md_t'', fst (dumps C md)), (lit ''md'', snd (dumps C md)),
      (lit ''parent'', case parent of None \<Rightarrow> [] | Some p \<Rightarrow> p)]"

definition aput ::
  "rat \<Rightarrow> saver \<Rightarrow> 'v codec \<Rightarrow> ustr \<Rightarrow> ustr \<Rightarrow> ustr \<Rightarrow> ustr option \<Rightarrow> 'v \<Rightarrow> 'v \<Rightarrow> valkey \<Rightarrow> (ustr \<times> ustr \<times> ustr) \<times> valkey" where
  "aput now S C thread ns cid parent cp md st =
     (let k = cp_key S thread ns cid; i = idx_key S thread ns;
          st1 = hset now k (cp_fields C parent cp md) st;
          st2 = expire now k (sv_ttl S) st1;
          st3 = sadd now i cid st2
      in ((thread, ns, cid), expire now i (sv_ttl S) st3))"

definition show_int :: "int \<Rightarrow> ustr" where
  "show_int i = (if i < 0 then 45 # show_nat (nat (- i)) else show_nat (nat i))"

definition write_index :: "(ustr \<Rightarrow> int option) \<Rightarrow> nat \<Rightarrow> ustr \<Rightarrow> int" where
  "write_index special idx channel = (case special channel of Some i \<Rightarrow> i | None \<Rightarrow> int idx)"

definition write_field :: "ustr \<Rightarrow> int \<Rightarrow> ustr" where
  "write_field task widx = task @ [58] @ show_int widx"

text \<open>The loop over \<open>enumerate(writes)\<close>; the first component tells whether anything was written.\<close>

fun put_each ::
  "rat \<Rightarrow> 'v codec \<Rightarrow> (ustr \<Rightarrow> int option) \<Rightarrow> ustr \<Rightarrow> ustr list \<Rightarrow> ustr \<Rightarrow> ustr \<Rightarrow> nat \<Rightarrow> (ustr \<times> 'v) list \<Rightarrow> bool \<times> valkey \<Rightarrow> bool \<times> valkey" where
  "put_each now C special k existing task path idx [] r = r"
| "put_each now C special k existing task path idx ((channel, v) # ws) r =
     (let widx = write_index special idx channel; f = write_field task widx
      in put_each now C special k existing task path (Suc idx) ws
           (if 0 \<le> widx \<and> f \<in> set existing then r
            else (True, hset now k [(f, pack C (task, channel, fst (dumps C v), snd (dumps C v), path))] (snd r))))"

definition aput_writes ::
  "rat \<Rightarrow> saver \<Rightarrow> 'v codec \<Rightarrow> (ustr \<Rightarrow> int option) \<Rightarrow> ustr \<Rightarrow> ustr \<Rightarrow> ustr \<Rightarrow> (ustr \<times> 'v) list \<Rightarrow> ustr \<Rightarrow> ustr \<Rightarrow> valkey \<Rightarrow> valkey" where
  "aput_writes now S C special thread ns cid writes task path st =
     (let k = w_key S thread ns cid; existing = map fst (hgetall now k st);
          (wrote, st1) = put_each now C special k existing task path 0 writes (False, st)
      in if wrote then expire now k (sv_ttl S) st1 else st)"

subsection \<open>Reading\<close>

definition after_last :: "nat \<Rightarrow> ustr \<Rightarrow> ustr" where
  "after_last c s = rev (takeWhile (\<lambda>x. x \<noteq> c) (rev s))"

fun parse_writes :: "unicode \<Rightarrow> 'v codec \<Rightarrow> (ustr \<times> ustr) list \<Rightarrow> (ustr \<times> int \<times> ustr \<times> 'v) list option" where
  "parse_writes U C [] = Some []"
| "parse_writes U C ((f, packed) # rows) =
     (case (unpack C packed, py_int U (after_last 58 f), parse_writes U C rows) of
        ((task, channel, vt, vb, path), Some i, Some rs) \<Rightarrow> Some ((task, i, channel, loads C (vt, vb)) # rs)
      | _ \<Rightarrow> None)"

definition pending_writes :: "rat \<Rightarrow> saver \<Rightarrow> unicode \<Rightarrow> 'v codec \<Rightarrow> ustr \<Rightarrow> ustr \<Rightarrow> ustr \<Rightarrow> valkey \<Rightarrow> unit + (ustr \<times> ustr \<times> 'v) list" where
  "pending_writes now S U C thread ns cid st =
     (case parse_writes U C (hgetall now (w_key S thread ns cid) st) of
        None \<Rightarrow> Inl ()
      | Some rows \<Rightarrow> Inr (map (\<lambda>(task, i, channel, v). (task, channel, v)) (sort_key (\<lambda>(task, i, channel, v). (task, i)) rows)))"

definition latest_id :: "rat \<Rightarrow> saver \<Rightarrow> ustr \<Rightarrow> ustr \<Rightarrow> valkey \<Rightarrow> ustr option" where
  "latest_id now S thread ns st =
     (let ids = smembers now (idx_key S thread ns) st in if ids = [] then None else Some (Max (set ids)))"

record 'v checkpoint_tuple =
  ct_thread :: ustr
  ct_ns :: ustr
  ct_id :: ustr
  ct_checkpoint :: 'v
  ct_metadata :: 'v
  ct_parent :: "(ustr \<times> ustr \<times> ustr) option"
  ct_writes :: "(ustr \<times> ustr \<times> 'v) list"

definition read_tuple ::
  "rat \<Rightarrow> saver \<Rightarrow> unicode \<Rightarrow> 'v codec \<Rightarrow> ustr \<Rightarrow> ustr \<Rightarrow> ustr \<Rightarrow> valkey \<Rightarrow> unit + 'v checkpoint_tuple option" where
  "read_tuple now S U C thread ns cid st =
     (let data = hgetall now (cp_key S thread ns cid) st in
      if data = [] then Inr None
      else case (map_of data (lit ''cp_t''), map_of data (lit ''cp''), map_of data (lit ''md_t''), map_of data (lit ''md'')) of
        (Some ct, Some c, Some mt, Some m) \<Rightarrow>
          (let parent = (case map_of data (lit ''parent'') of None \<Rightarrow> [] | Some p \<Rightarrow> p)
           in bindE (pending_writes now S U C thread ns cid st) (\<lambda>ws.
              Inr (Some \<lparr>ct_thread = thread, ct_ns = ns, ct_id = cid, ct_checkpoint = loads C (ct, c), ct_metadata = loads C (mt, m),
                ct_parent = (if parent = [] then None else Some (thread, ns, parent)), ct_writes = ws\<rparr>)))
      | _ \<Rightarrow> Inl ())"

definition aget_tuple ::
  "rat \<Rightarrow> saver \<Rightarrow> unicode \<Rightarrow> 'v codec \<Rightarrow> ustr \<Rightarrow> ustr \<Rightarrow> ustr option \<Rightarrow> valkey \<Rightarrow> unit + 'v checkpoint_tuple option" where
  "aget_tuple now S U C thread ns cid st =
     (case (if cid = None \<or> cid = Some [] then latest_id now S thread ns st else cid) of
        None \<Rightarrow> Inr None
      | Some c \<Rightarrow> read_tuple now S U C thread ns c st)"

text \<open>\<open>keep\<close> is the metadata filter; \<open>limit\<close> counts down as checkpoints are yielded.\<close>

fun list_ids ::
  "rat \<Rightarrow> saver \<Rightarrow> unicode \<Rightarrow> 'v codec \<Rightarrow> ustr \<Rightarrow> ustr \<Rightarrow> ustr option \<Rightarrow> ustr option \<Rightarrow> ('v \<Rightarrow> bool) \<Rightarrow> int option \<Rightarrow> valkey \<Rightarrow> ustr list
   \<Rightarrow> unit + 'v checkpoint_tuple list" where
  "list_ids now S U C thread ns only before keep limit st [] = Inr []"
| "list_ids now S U C thread ns only before keep limit st (cid # ids) =
     (let skip = list_ids now S U C thread ns only before keep limit st ids in
      if (case only of None \<Rightarrow> False | Some o' \<Rightarrow> o' \<noteq> [] \<and> cid \<noteq> o') then skip
      else if (case before of None \<Rightarrow> False | Some b \<Rightarrow> b \<noteq> [] \<and> b \<le> cid) then skip
      else case aget_tuple now S U C thread ns (Some cid) st of
        Inl e \<Rightarrow> Inl e
      | Inr None \<Rightarrow> skip
      | Inr (Some tup) \<Rightarrow>
          (if \<not> keep (ct_metadata tup) then skip
           else case limit of
             None \<Rightarrow> bindE skip (\<lambda>ts. Inr (tup # ts))
           | Some n \<Rightarrow> if n \<le> 0 then Inr []
                       else bindE (list_ids now S U C thread ns only before keep (Some (n - 1)) st ids) (\<lambda>ts. Inr (tup # ts))))"

definition alist ::
  "rat \<Rightarrow> saver \<Rightarrow> unicode \<Rightarrow> 'v codec \<Rightarrow> ustr \<Rightarrow> ustr \<Rightarrow> ustr option \<Rightarrow> ustr option \<Rightarrow> ('v \<Rightarrow> bool) \<Rightarrow> int option \<Rightarrow> valkey
   \<Rightarrow> unit + 'v checkpoint_tuple list" where
  "alist now S U C thread ns only before keep limit st =
     list_ids now S U C thread ns only before keep limit st (rev (sort (remdups (smembers now (idx_key S thread ns) st))))"

text \<open>
  The keys the pattern \<open>prefix*:thread:*\<close> matches, for a prefix and a thread without the characters
  a pattern gives a meaning to.
\<close>

definition of_thread :: "saver \<Rightarrow> ustr \<Rightarrow> ustr \<Rightarrow> bool" where
  "of_thread S thread k \<longleftrightarrow> starts_with (sv_prefix S) k \<and> contains ([58] @ thread @ [58]) (drop (length (sv_prefix S)) k)"

definition adelete_thread :: "saver \<Rightarrow> ustr \<Rightarrow> valkey \<Rightarrow> valkey" where
  "adelete_thread S thread st = (\<lambda>k. if of_thread S thread k \<or> k = idx_key S thread [] then None else st k)"

text \<open>The next channel version, for the random suffix \<open>rnd\<close>.\<close>

definition get_next_version :: "unicode \<Rightarrow> ustr option \<Rightarrow> ustr \<Rightarrow> ustr option" where
  "get_next_version U current rnd =
     (case (case current of None \<Rightarrow> Some 0 | Some v \<Rightarrow> py_int U (hd (split_on 46 v))) of
        None \<Rightarrow> None
      | Some cur \<Rightarrow>
          (let n = cur + 1; d = show_nat (nat \<bar>n\<bar>); w = (if n < 0 then 31 else 32)
           in Some ((if n < 0 then [45] else []) @ replicate (w - length d) 48 @ d @ [46] @ rnd)))"

subsection \<open>Lemmas\<close>

lemma key_spaces [simp]:
  "cp_key S a b c \<noteq> idx_key S d e" "idx_key S d e \<noteq> cp_key S a b c" "cp_key S a b c \<noteq> w_key S d e f"
  "w_key S d e f \<noteq> cp_key S a b c" "idx_key S d e \<noteq> w_key S a b c" "w_key S a b c \<noteq> idx_key S d e"
  by (simp_all add: cp_key_def idx_key_def w_key_def lit_def)

lemma first_colon: "\<lbrakk>58 \<notin> set a; 58 \<notin> set b; a @ 58 # x = b @ 58 # y\<rbrakk> \<Longrightarrow> a = b"
proof (induction a arbitrary: b)
  case Nil
  then show ?case by (cases b) auto
next
  case (Cons c a)
  then show ?case by (cases b) auto
qed

lemma other_thread:
  assumes "58 \<notin> set a" "58 \<notin> set b" "a \<noteq> b"
  shows "cp_key S a x y \<noteq> cp_key S b v w" "idx_key S a x \<noteq> idx_key S b v" "w_key S a x y \<noteq> w_key S b v w"
  using first_colon [OF assms(1,2)] assms(3) by (auto simp: cp_key_def idx_key_def w_key_def)

lemma cp_fields_distinct: "distinct (map fst (cp_fields C parent cp md))"
  by (simp add: cp_fields_def)

lemma aput_hash:
  assumes "0 < sv_ttl S" "now \<le> t" "t < now + of_int (sv_ttl S)"
  shows "map_of (hgetall t (cp_key S thread ns cid) (snd (aput now S C thread ns cid parent cp md st)))
    = map_of (hgetall now (cp_key S thread ns cid) st) ++ map_of (cp_fields C parent cp md)"
  using assms by (simp add: aput_def Let_def valkey_simps hset_expire map_of_fields cp_fields_distinct)

lemma aput_expired:
  assumes "0 < sv_ttl S" "now + of_int (sv_ttl S) \<le> t"
  shows "hgetall t (cp_key S thread ns cid) (snd (aput now S C thread ns cid parent cp md st)) = []"
proof -
  have "now \<le> t" using assms by (smt (verit) of_int_0_less_iff less_eq_rat_def le_add_same_cancel1 order_trans)
  then show ?thesis using assms by (simp add: aput_def Let_def valkey_simps hset_expire)
qed

lemma aput_members:
  assumes "0 < sv_ttl S" "now \<le> t" "t < now + of_int (sv_ttl S)"
  shows "smembers t (idx_key S thread ns) (snd (aput now S C thread ns cid parent cp md st))
    = List.insert cid (smembers now (idx_key S thread ns) st)"
  using assms by (simp add: aput_def Let_def valkey_simps sadd_expire)

lemma aput_writes_read [simp]:
  "pending_writes t S U C a b c (snd (aput now S C' thread ns cid parent cp md st)) = pending_writes t S U C a b c st"
  by (simp add: pending_writes_def aput_def Let_def valkey_simps)

lemma aput_other_thread:
  assumes "58 \<notin> set thread" "58 \<notin> set a" "a \<noteq> thread"
  shows "aget_tuple t S U C a b c (snd (aput now S C' thread ns cid parent cp md st)) = aget_tuple t S U C a b c st"
proof -
  note k = other_thread [OF assms(1,2) assms(3) [symmetric]]
  have "hgetall t (cp_key S a b x) (snd (aput now S C' thread ns cid parent cp md st)) = hgetall t (cp_key S a b x) st" for x
    using k(1) by (simp add: aput_def Let_def valkey_simps)
  then have "read_tuple t S U C a b x (snd (aput now S C' thread ns cid parent cp md st)) = read_tuple t S U C a b x st" for x
    unfolding read_tuple_def by (simp only: aput_writes_read)
  moreover have "smembers t (idx_key S a b) (snd (aput now S C' thread ns cid parent cp md st)) = smembers t (idx_key S a b) st"
    using k(2) by (simp add: aput_def Let_def valkey_simps)
  ultimately show ?thesis unfolding aget_tuple_def latest_id_def by (simp only:)
qed


subsection \<open>Pending writes\<close>

lemma hgetall_expire:
  "\<lbrakk>0 < ttl; now \<le> t\<rbrakk> \<Longrightarrow> hgetall t k (expire now k ttl st) = (if t < now + of_int ttl then hgetall now k st else [])"
  by (auto simp: hgetall_def live_slot_expire split: option.split)

lemma hgetall_hset: "hgetall now k (hset now k kvs st) = fold (\<lambda>(f, v). AList.update f v) kvs (hgetall now k st)"
  by (simp add: hgetall_def hset_def valkey_simps)

lemma put_each_fields:
  assumes "\<And>c v. (c, v) \<in> set ws \<Longrightarrow> special c = None"
  shows "fst ` set (hgetall now k (snd r)) \<union> (\<lambda>i. write_field task (int i)) ` {idx..<idx + length ws}
      \<subseteq> fst ` set (hgetall now k (snd (put_each now C special k [] task path idx ws r)))
    \<and> fst (put_each now C special k [] task path idx ws r) = (fst r \<or> ws \<noteq> [])"
  using assms
proof (induction ws arbitrary: idx r)
  case (Cons w ws)
  obtain c v where w: "w = (c, v)" by (cases w)
  have sp: "special c = None" using Cons.prems w by auto
  let ?r = "(True, hset now k [(write_field task (int idx), pack C (task, c, fst (dumps C v), snd (dumps C v), path))] (snd r))"
  have step: "put_each now C special k [] task path idx (w # ws) r = put_each now C special k [] task path (Suc idx) ws ?r"
    by (simp add: w write_index_def sp)
  have keys: "fst ` set (hgetall now k (snd ?r)) = insert (write_field task (int idx)) (fst ` set (hgetall now k (snd r)))"
    by (simp add: hgetall_hset dom_update)
  have range: "{idx..<idx + length (w # ws)} = insert idx {Suc idx..<Suc idx + length ws}" by auto
  show ?case using Cons.IH [of ?r "Suc idx"] Cons.prems unfolding step keys range by auto
qed simp

lemma put_each_existing:
  assumes "\<And>c v. (c, v) \<in> set ws \<Longrightarrow> special c = None"
    and "(\<lambda>i. write_field task (int i)) ` {idx..<idx + length ws} \<subseteq> set existing"
  shows "put_each now C special k existing task path idx ws r = r"
  using assms
proof (induction ws arbitrary: idx)
  case (Cons w ws)
  obtain c v where w: "w = (c, v)" by (cases w)
  have "put_each now C special k existing task path (Suc idx) ws r = r"
    by (rule Cons.IH) (use Cons.prems in auto)
  moreover have "write_field task (int idx) \<in> set existing" using Cons.prems(2) by auto
  moreover have "special c = None" using Cons.prems(1) w by auto
  ultimately show ?case by (simp add: w write_index_def)
qed simp

text \<open>
  The first writes of a task win.  Once the writes of a task are stored, storing other writes of the
  same task for the same slots, as a resumed graph does, changes nothing while they live.
\<close>

theorem writes_first_win:
  assumes "0 < sv_ttl S" and "hgetall now (w_key S thread ns cid) st = []" and "ws \<noteq> []"
    and "\<And>c v. (c, v) \<in> set ws \<union> set ws' \<Longrightarrow> special c = None" and "length ws' \<le> length ws"
    and "now \<le> later" and "later < now + of_int (sv_ttl S)"
  shows "aput_writes later S C special thread ns cid ws' task path' (aput_writes now S C special thread ns cid ws task path st)
    = aput_writes now S C special thread ns cid ws task path st"
proof -
  let ?k = "w_key S thread ns cid"
  obtain b st1 where p: "put_each now C special ?k [] task path 0 ws (False, st) = (b, st1)" by fastforce
  have f: "(\<lambda>i. write_field task (int i)) ` {0..<length ws} \<subseteq> fst ` set (hgetall now ?k st1)" "b"
    using put_each_fields [of ws special now ?k "(False, st)" task 0 C path] assms(3,4) p by auto
  have w: "aput_writes now S C special thread ns cid ws task path st = expire now ?k (sv_ttl S) st1"
    using f(2) by (simp add: aput_writes_def Let_def assms(2) p)
  have e: "hgetall later ?k (expire now ?k (sv_ttl S) st1) = hgetall now ?k st1"
    using assms(1,6,7) by (simp add: hgetall_expire)
  have "put_each later C special ?k (map fst (hgetall now ?k st1)) task path' 0 ws' (False, expire now ?k (sv_ttl S) st1)
      = (False, expire now ?k (sv_ttl S) st1)"
  proof (rule put_each_existing)
    have "{0..<0 + length ws'} \<subseteq> {0..<length ws}" using assms(5) by auto
    with f(1) show "(\<lambda>i. write_field task (int i)) ` {0..<0 + length ws'} \<subseteq> set (map fst (hgetall now ?k st1))" by fastforce
  qed (use assms(4) in blast)
  then show ?thesis unfolding w by (simp add: aput_writes_def Let_def e)
qed

subsection \<open>Versions\<close>

lemma foldl_padded: "foldl (\<lambda>a c. 10 * a + (c - 48)) acc (padded w n) = acc * 10 ^ w + n mod 10 ^ w"
proof (induction w arbitrary: n)
  case (Suc w)
  have "n mod (10 * 10 ^ w) = 10 * (n div 10 mod 10 ^ w) + n mod 10" by (rule mod_mult2_eq)
  with Suc show ?case by (simp add: algebra_simps)
qed simp

lemma py_int_padded:
  assumes "unicode_ok U" "0 < w" "n < 10 ^ w"
  shows "py_int U (padded w n) = Some (int n)"
proof -
  have "length (padded w n) = w" by simp
  with assms(2) obtain c cs where p: "padded w n = c # cs" by (cases "padded w n") auto
  have d: "\<forall>x \<in> set (padded w n). is_digit x" using padded_digit by blast
  then have "py_strip (padded w n) = padded w n" by (intro py_strip_trim) (auto simp: p digit_visible)
  moreover have "int_digits U False 0 (padded w n) = Some n"
  proof -
    have "padded w n \<noteq> []" by (simp add: p)
    moreover have "foldl (\<lambda>a c. 10 * a + (c - 48)) 0 (padded w n) = n" using assms(3) by (simp add: foldl_padded)
    ultimately show ?thesis using int_digits_append [OF assms(1) d, of False 0 "[]"] by simp
  qed
  moreover have "is_digit c" using d p by simp
  ultimately show ?thesis using p by (auto simp: py_int_def is_digit_def)
qed

lemma split_version: "split_on 46 (padded w n @ 46 # r) = padded w n # split_on 46 r"
proof -
  have "46 \<notin> set (padded w n)" using padded_digit [of 46 w n] by (auto simp: is_digit_def)
  then show ?thesis by (rule split_on_append)
qed

lemma version_text:
  assumes "0 \<le> c" "c + 1 < 10 ^ 32" "(case v of None \<Rightarrow> Some 0 | Some x \<Rightarrow> py_int U (hd (split_on 46 x))) = Some c"
  shows "get_next_version U v r = Some (padded 32 (nat (c + 1)) @ 46 # r)"
proof -
  have "nat (c + 1) < 10 ^ 32" using assms(1,2) by (simp add: nat_less_iff)
  then have "replicate (32 - length (show_nat (nat (c + 1)))) 48 @ show_nat (nat (c + 1)) = padded 32 (nat (c + 1))"
    using show_nat_padded [of _ 32] by simp
  moreover have "nat \<bar>c + 1\<bar> = nat (c + 1)" using assms(1) by simp
  ultimately show ?thesis using assms(1,3) by (simp add: get_next_version_def Let_def)
qed

text \<open>
  Channel versions count up and sort by their count.  The first version of a channel is 1,
  the successor of version \<open>n\<close> is version \<open>n + 1\<close> for every \<open>n\<close> below \<open>10 ^ 32 - 1\<close>, and it is the
  larger string whatever the random suffixes are.
\<close>

theorem next_version_increases:
  assumes "unicode_ok U" and "Suc n < 10 ^ 32"
  shows "get_next_version U None r = Some (padded 32 1 @ 46 # r)
    \<and> get_next_version U (Some (padded 32 n @ 46 # r)) r' = Some (padded 32 (Suc n) @ 46 # r')
    \<and> padded 32 n @ 46 # r < padded 32 (Suc n) @ 46 # r'"
proof (intro conjI)
  have "get_next_version U None r = Some (padded 32 (nat (0 + 1)) @ 46 # r)" by (rule version_text) simp_all
  then show "get_next_version U None r = Some (padded 32 1 @ 46 # r)" by (simp only: add_0 nat_one_as_int)
  have "n < 10 ^ 32" using assms(2) by (rule Suc_lessD)
  then have parse: "py_int U (hd (split_on 46 (padded 32 n @ 46 # r))) = Some (int n)"
    unfolding split_version list.sel by (intro py_int_padded assms(1)) simp_all
  have small: "int n + 1 < 10 ^ 32" using assms(2) by (metis of_nat_Suc of_nat_less_iff of_nat_numeral of_nat_power add.commute)
  have "get_next_version U (Some (padded 32 n @ 46 # r)) r' = Some (padded 32 (nat (int n + 1)) @ 46 # r')"
    by (rule version_text) (use parse small in \<open>simp_all only: option.case of_nat_0_le_iff\<close>)
  moreover have "nat (int n + 1) = Suc n" by simp
  ultimately show "get_next_version U (Some (padded 32 n @ 46 # r)) r' = Some (padded 32 (Suc n) @ 46 # r')" by (simp only:)
  have "str_less (padded 32 n) (padded 32 (Suc n))" using padded_less [of n 32 "Suc n"] assms(2) by simp
  then show "padded 32 n @ 46 # r < padded 32 (Suc n) @ 46 # r'"
    unfolding str_less_lex [symmetric] by (simp add: str_less_append_eq)
qed

subsection \<open>Witnesses\<close>

definition demo_saver :: saver where
  "demo_saver = build_saver \<lparr>cc_url = [], cc_ttl = default_checkpoint_ttl, cc_prefix = lit ''doci:ckpt:''\<rparr>"

text \<open>Values are texts, stored as they are; a packed write joins its pieces with spaces.\<close>

definition demo_codec :: "ustr codec" where
  "demo_codec = \<lparr>dumps = (\<lambda>v. ([], v)), loads = snd, pack = (\<lambda>(a, b, c, d, e). join [32] [a, b, c, d, e]), unpack = (\<lambda>s. ([], [], [], s, []))\<rparr>"


theorem writes_first_win_witness:
  "aput_writes 5 demo_saver demo_codec (\<lambda>_. None) [116] [] [99] [([97], [50])] [107] [] (aput_writes 0 demo_saver demo_codec (\<lambda>_. None) [116] [] [99] [([97], [49])] [107] [] (\<lambda>_. None))
   = aput_writes 0 demo_saver demo_codec (\<lambda>_. None) [116] [] [99] [([97], [49])] [107] [] (\<lambda>_. None)"
  by (rule writes_first_win) (simp_all add: demo_saver_def build_saver_def default_checkpoint_ttl_def hgetall_def live_slot_def)

theorem next_version_increases_witness:
  "padded 32 9 @ 46 # [102] < padded 32 10 @ 46 # [97] \<and> get_next_version ascii_unicode None [] = Some (padded 32 1 @ [46])"
  using next_version_increases [OF unicode_ok_ascii, of 9 "[102]" "[97]"] next_version_increases [OF unicode_ok_ascii, of 9 "[]" "[97]"] by simp

end
