(* ===== verification/Kv.thy ===== *)
theory Kv
  imports Valkey
begin

section \<open>The key-value client\<close>

text \<open>
  \<open>doci/kvstore/config.py\<close> and \<open>client.py\<close>.  A command is a function on the database; what the
  connection does with it is a \<open>fault\<close>: the server answers, is not reached, or executes the
  command and its reply is lost.  JSON texts are those of the \<open>js_codec\<close> argument, in which
  \<open>Some None\<close> is what \<open>null\<close> reads as.
\<close>

subsection \<open>Configuration\<close>

definition env_bool :: "unicode \<Rightarrow> environ \<Rightarrow> ustr \<Rightarrow> bool \<Rightarrow> bool" where
  "env_bool U env name dflt = (case env name of None \<Rightarrow> dflt
     | Some raw \<Rightarrow> ulower U (py_strip raw) \<in> set (map lit [''1'', ''true'', ''yes'', ''on'']))"

record kv_config =
  kc_url :: "ustr option"
  kc_host :: ustr
  kc_port :: int
  kc_db :: int
  kc_password :: "ustr option"
  kc_ssl :: bool
  kc_key_prefix :: ustr
  kc_default_ttl :: "int option"
  kc_max_connections :: int

definition env_text :: "environ \<Rightarrow> string \<Rightarrow> string \<Rightarrow> ustr" where
  "env_text env name dflt = (case env (lit name) of None \<Rightarrow> lit dflt | Some s \<Rightarrow> s)"

definition env_number :: "unicode \<Rightarrow> environ \<Rightarrow> string \<Rightarrow> int \<Rightarrow> int option" where
  "env_number U env name dflt = (case env (lit name) of None \<Rightarrow> Some dflt | Some s \<Rightarrow> py_int U s)"

definition env_opt_number :: "unicode \<Rightarrow> environ \<Rightarrow> string \<Rightarrow> int option option" where
  "env_opt_number U env name = (case truthy (env (lit name)) of None \<Rightarrow> Some None | Some s \<Rightarrow> map_option Some (py_int U s))"

definition kv_config_from_env :: "unicode \<Rightarrow> environ \<Rightarrow> kv_config option" where
  "kv_config_from_env U env =
     (case (env_number U env ''REDIS_PORT'' 6379, env_number U env ''REDIS_DB'' 0,
            env_opt_number U env ''REDIS_DEFAULT_TTL'', env_number U env ''REDIS_MAX_CONNECTIONS'' 10) of
        (Some port, Some db, Some ttl, Some n) \<Rightarrow>
          Some \<lparr>kc_url = env (lit ''REDIS_URL''), kc_host = env_text env ''REDIS_HOST'' ''localhost'', kc_port = port, kc_db = db,
                kc_password = env (lit ''REDIS_PASSWORD''), kc_ssl = env_bool U env (lit ''REDIS_SSL'') False,
                kc_key_prefix = env_text env ''REDIS_KEY_PREFIX'' '''', kc_default_ttl = ttl, kc_max_connections = n\<rparr>
      | _ \<Rightarrow> None)"

datatype kwarg = KwStr ustr | KwInt int | KwBool bool | KwNone

definition kw_opt :: "ustr option \<Rightarrow> kwarg" where
  "kw_opt v = (case v of None \<Rightarrow> KwNone | Some s \<Rightarrow> KwStr s)"

definition client_kwargs :: "kv_config \<Rightarrow> (string \<times> kwarg) list" where
  "client_kwargs c =
     (let common = [(''decode_responses'', KwBool True), (''max_connections'', KwInt (kc_max_connections c))]
      in case truthy (kc_url c) of
           Some u \<Rightarrow> (''url'', KwStr u) # common
         | None \<Rightarrow> [(''host'', KwStr (kc_host c)), (''port'', KwInt (kc_port c)), (''db'', KwInt (kc_db c)),
                    (''password'', kw_opt (kc_password c)), (''ssl'', KwBool (kc_ssl c))] @ common)"

datatype connection = FromUrl kwarg "(string \<times> kwarg) list" | Discrete "(string \<times> kwarg) list"

definition build_kv_client :: "kv_config \<Rightarrow> connection" where
  "build_kv_client c =
     (let kw = client_kwargs c in
      case map_of kw ''url'' of
        Some u \<Rightarrow> FromUrl u (filter (\<lambda>(k, v). k \<noteq> ''url'') kw)
      | None \<Rightarrow> Discrete kw)"

text \<open>The prefix \<open>build_clients\<close> gives the shared client when the environment gives none.\<close>

definition shared_kv_config :: "kv_config \<Rightarrow> kv_config" where
  "shared_kv_config c = (if kc_key_prefix c = [] then c\<lparr>kc_key_prefix := lit ''doci:''\<rparr> else c)"

subsection \<open>Commands\<close>

datatype kv_error = RedisError | JsonError

datatype fault = Answers | Unreachable | ReplyLost

record kv =
  kv_prefix :: ustr
  kv_default_ttl :: "int option"

definition mk_kv :: "kv_config \<Rightarrow> kv" where
  "mk_kv c = \<lparr>kv_prefix = kc_key_prefix c, kv_default_ttl = kc_default_ttl c\<rparr>"

record 'v js_codec =
  js_dumps :: "'v \<Rightarrow> ustr option"
  js_loads :: "ustr \<Rightarrow> 'v option option"

definition kv_key :: "kv \<Rightarrow> ustr \<Rightarrow> ustr" where
  "kv_key K key = kv_prefix K @ key"

definition kv_ttl :: "kv \<Rightarrow> int option \<Rightarrow> int option" where
  "kv_ttl K ttl = (case ttl of Some t \<Rightarrow> Some t | None \<Rightarrow> kv_default_ttl K)"

fun command :: "fault \<Rightarrow> (valkey \<Rightarrow> (kv_error + 'r) \<times> valkey) \<Rightarrow> valkey \<Rightarrow> (kv_error + 'r) \<times> valkey" where
  "command Answers c st = c st"
| "command Unreachable c st = (Inl RedisError, st)"
| "command ReplyLost c st = (Inl RedisError, snd (c st))"

definition kv_ping :: "fault \<Rightarrow> valkey \<Rightarrow> (kv_error + unit) \<times> valkey" where
  "kv_ping flt = command flt (\<lambda>st. (Inr (), st))"

definition kv_get :: "fault \<Rightarrow> rat \<Rightarrow> kv \<Rightarrow> ustr \<Rightarrow> valkey \<Rightarrow> (kv_error + ustr option) \<times> valkey" where
  "kv_get flt now K key = command flt (\<lambda>st. (Inr (text_get now (kv_key K key) st), st))"

text \<open>The server refuses an expiry that is not positive.\<close>

definition set_command :: "rat \<Rightarrow> kv \<Rightarrow> ustr \<Rightarrow> ustr \<Rightarrow> int option \<Rightarrow> valkey \<Rightarrow> (kv_error + unit) \<times> valkey" where
  "set_command now K key s ttl st =
     (case kv_ttl K ttl of
        Some t \<Rightarrow> if t \<le> 0 then (Inl RedisError, st) else (Inr (), text_set now (kv_key K key) s (Some t) st)
      | None \<Rightarrow> (Inr (), text_set now (kv_key K key) s None st))"

definition kv_set :: "fault \<Rightarrow> rat \<Rightarrow> kv \<Rightarrow> ustr \<Rightarrow> ustr \<Rightarrow> int option \<Rightarrow> valkey \<Rightarrow> (kv_error + unit) \<times> valkey" where
  "kv_set flt now K key s ttl = command flt (set_command now K key s ttl)"

definition kv_delete :: "fault \<Rightarrow> rat \<Rightarrow> kv \<Rightarrow> ustr list \<Rightarrow> valkey \<Rightarrow> (kv_error + nat) \<times> valkey" where
  "kv_delete flt now K keys = command flt (\<lambda>st. let ks = map (kv_key K) keys in
     if ks = [] then (Inl RedisError, st) else (Inr (count_live now (remdups ks) st), del_keys ks st))"

definition kv_exists :: "fault \<Rightarrow> rat \<Rightarrow> kv \<Rightarrow> ustr list \<Rightarrow> valkey \<Rightarrow> (kv_error + nat) \<times> valkey" where
  "kv_exists flt now K keys = command flt (\<lambda>st. let ks = map (kv_key K) keys in
     if ks = [] then (Inl RedisError, st) else (Inr (count_live now ks st), st))"

definition kv_expire :: "fault \<Rightarrow> rat \<Rightarrow> kv \<Rightarrow> ustr \<Rightarrow> int \<Rightarrow> valkey \<Rightarrow> (kv_error + bool) \<times> valkey" where
  "kv_expire flt now K key ttl = command flt (\<lambda>st. let k = kv_key K key in
     (Inr (live_slot now k st \<noteq> None), expire now k ttl st))"

text \<open>Seconds to live, rounded to the nearest; -1 without expiry, -2 when the key is absent.\<close>

definition kv_time_to_live :: "fault \<Rightarrow> rat \<Rightarrow> kv \<Rightarrow> ustr \<Rightarrow> valkey \<Rightarrow> (kv_error + int) \<times> valkey" where
  "kv_time_to_live flt now K key = command flt (\<lambda>st.
     (Inr (case live_slot now (kv_key K key) st of None \<Rightarrow> -2
           | Some e \<Rightarrow> (case vs_expires e of None \<Rightarrow> -1 | Some t \<Rightarrow> \<lfloor>t - now + 1 / 2\<rfloor>)), st))"

text \<open>
  \<open>INCRBY\<close> keeps the expiry of the key.  \<open>num\<close> reads the stored text as a 64-bit integer and
  \<open>txt\<close> prints one; a text that is not a number, or a result out of range, is refused.
\<close>

definition incr_command ::
  "(ustr \<Rightarrow> int option) \<Rightarrow> (int \<Rightarrow> ustr) \<Rightarrow> rat \<Rightarrow> kv \<Rightarrow> ustr \<Rightarrow> int \<Rightarrow> valkey \<Rightarrow> (kv_error + int) \<times> valkey" where
  "incr_command num txt now K key amount st =
     (let k = kv_key K key in
      case (case text_get now k st of None \<Rightarrow> if live_slot now k st = None then Some 0 else None | Some s \<Rightarrow> num s) of
        None \<Rightarrow> (Inl RedisError, st)
      | Some n \<Rightarrow> if - (2 ^ 63) \<le> n + amount \<and> n + amount < 2 ^ 63
                  then (Inr (n + amount), put_value now k (VText (txt (n + amount))) st)
                  else (Inl RedisError, st))"

definition kv_incr where
  "kv_incr flt num txt now K key amount = command flt (incr_command num txt now K key amount)"

definition kv_decr where
  "kv_decr flt num txt now K key amount = command flt (incr_command num txt now K key (- amount))"

definition kv_get_json :: "fault \<Rightarrow> rat \<Rightarrow> kv \<Rightarrow> 'v js_codec \<Rightarrow> ustr \<Rightarrow> valkey \<Rightarrow> (kv_error + 'v option) \<times> valkey" where
  "kv_get_json flt now K J key st =
     (case kv_get flt now K key st of
        (Inl e, st1) \<Rightarrow> (Inl e, st1)
      | (Inr None, st1) \<Rightarrow> (Inr None, st1)
      | (Inr (Some raw), st1) \<Rightarrow> ((case js_loads J raw of None \<Rightarrow> Inl JsonError | Some v \<Rightarrow> Inr v), st1))"

text \<open>\<open>json.dumps\<close> runs, and may raise, before the command is sent.\<close>

definition kv_set_json :: "fault \<Rightarrow> rat \<Rightarrow> kv \<Rightarrow> 'v js_codec \<Rightarrow> ustr \<Rightarrow> 'v \<Rightarrow> int option \<Rightarrow> valkey \<Rightarrow> (kv_error + unit) \<times> valkey" where
  "kv_set_json flt now K J key v ttl st =
     (case js_dumps J v of None \<Rightarrow> (Inl JsonError, st) | Some s \<Rightarrow> kv_set flt now K key s ttl st)"

text \<open>A registered script sees prefixed keys only.\<close>

definition kv_script ::
  "(ustr list \<Rightarrow> ustr list \<Rightarrow> valkey \<Rightarrow> (kv_error + 'r) \<times> valkey) \<Rightarrow> fault \<Rightarrow> kv \<Rightarrow> ustr list \<Rightarrow> ustr list
   \<Rightarrow> valkey \<Rightarrow> (kv_error + 'r) \<times> valkey" where
  "kv_script lua flt K keys args = command flt (lua (map (kv_key K) keys) args)"

subsection \<open>Lemmas\<close>

lemma kv_key_eq [simp]: "kv_key K a = kv_key K b \<longleftrightarrow> a = b"
  by (simp add: kv_key_def)

lemma command_cases:
  obtains "command flt c st = (Inl RedisError, st)" | "command flt c st = (Inl RedisError, snd (c st))" | "command flt c st = c st"
  by (cases flt) auto

lemma kv_get_state [simp]: "snd (kv_get flt now K key st) = st"
  by (cases flt) (simp_all add: kv_get_def)

lemma kv_get_json_state [simp]: "snd (kv_get_json flt now K J key st) = st"
  using kv_get_state [of flt now K key st]
  by (cases "kv_get flt now K key st") (auto simp: kv_get_json_def split: sum.split option.split)

end
