(* ===== verification/Caching.thy ===== *)
theory Caching
  imports Kv Media
begin

section \<open>The cache\<close>

text \<open>
  \<open>doci/cache/cache.py\<close> and \<open>decorators.py\<close>, and the cache \<open>bootstrap.py\<close> gives the media
  service.  A \<open>tick\<close> is what one operation meets: the time it starts, the time a failed command
  returns, the fault of the command and the keys the in-memory store drops to stay within its
  size.  That store is the map of its entries with their times of expiry; which of them it
  drops is not constrained.
\<close>

subsection \<open>Operations\<close>

datatype cache_mode = KvThenMem | MemOnly

record 'v cache =
  ca_mode :: cache_mode
  ca_kv :: kv
  ca_namespace :: ustr
  ca_default_ttl :: "int option"
  ca_cooldown :: rat
  ca_codec :: "'v js_codec"

record 'v cache_state =
  kv_down_until :: rat
  mem :: "ustr \<Rightarrow> ('v \<times> rat) option"

record tick =
  tk_at :: rat
  tk_failed_at :: rat
  tk_fault :: fault
  tk_drop :: "ustr set"

datatype cache_error = CacheJson | CacheTtl

definition mk_cache ::
  "cache_mode \<Rightarrow> kv option \<Rightarrow> ustr \<Rightarrow> int option \<Rightarrow> rat \<Rightarrow> 'v js_codec \<Rightarrow> ('v cache \<times> 'v cache_state) option" where
  "mk_cache mode K ns dttl cooldown J =
     (if mode = KvThenMem \<and> K = None then None
      else Some (\<lparr>ca_mode = mode, ca_kv = (case K of Some k \<Rightarrow> k | None \<Rightarrow> \<lparr>kv_prefix = [], kv_default_ttl = None\<rparr>),
                  ca_namespace = ns, ca_default_ttl = dttl, ca_cooldown = cooldown, ca_codec = J\<rparr>,
                 \<lparr>kv_down_until = 0, mem = (\<lambda>_. None)\<rparr>))"

definition cache_key :: "'v cache \<Rightarrow> ustr \<Rightarrow> ustr" where
  "cache_key C key = (if ca_namespace C = [] then key else ca_namespace C @ [58] @ key)"

definition cache_ttl :: "'v cache \<Rightarrow> int option \<Rightarrow> int option" where
  "cache_ttl C ttl = (case (case ttl of Some t \<Rightarrow> Some t | None \<Rightarrow> ca_default_ttl C) of
     None \<Rightarrow> None | Some t \<Rightarrow> if t \<le> 0 then None else Some t)"

definition kv_up :: "tick \<Rightarrow> 'v cache_state \<Rightarrow> bool" where
  "kv_up t s \<longleftrightarrow> kv_down_until s \<le> tk_at t"

definition trip :: "tick \<Rightarrow> 'v cache \<Rightarrow> 'v cache_state \<Rightarrow> 'v cache_state" where
  "trip t C s = s\<lparr>kv_down_until := tk_failed_at t + ca_cooldown C\<rparr>"

definition mem_get :: "rat \<Rightarrow> ustr \<Rightarrow> 'v cache_state \<Rightarrow> 'v option" where
  "mem_get now k s = (case mem s k of None \<Rightarrow> None | Some (v, e) \<Rightarrow> if now < e then Some v else None)"

definition mem_put :: "rat \<Rightarrow> ustr set \<Rightarrow> ustr \<Rightarrow> 'v \<Rightarrow> int \<Rightarrow> 'v cache_state \<Rightarrow> 'v cache_state" where
  "mem_put now out k v ttl s =
     s\<lparr>mem := (\<lambda>j. if j \<in> out then None else ((mem s)(k \<mapsto> (v, now + of_int ttl))) j)\<rparr>"

text \<open>Whether an operation sends a command, and when the fallback runs if it fails.\<close>

definition uses_kv :: "tick \<Rightarrow> 'v cache \<Rightarrow> 'v cache_state \<Rightarrow> bool" where
  "uses_kv t C s \<longleftrightarrow> ca_mode C = KvThenMem \<and> kv_up t s"

definition cache_get ::
  "tick \<Rightarrow> 'v cache \<Rightarrow> ustr \<Rightarrow> 'v cache_state \<times> valkey \<Rightarrow> (cache_error + 'v option) \<times> 'v cache_state \<times> valkey" where
  "cache_get t C key = (\<lambda>(s, st).
     let k = cache_key C key in
     if uses_kv t C s then
       (case kv_get_json (tk_fault t) (tk_at t) (ca_kv C) (ca_codec C) k st of
          (Inr v, st1) \<Rightarrow> (Inr v, s, st1)
        | (Inl JsonError, st1) \<Rightarrow> (Inl CacheJson, s, st1)
        | (Inl RedisError, st1) \<Rightarrow> (let s1 = trip t C s in (Inr (mem_get (tk_failed_at t) k s1), s1, st1)))
     else (Inr (mem_get (tk_at t) k s), s, st))"

text \<open>\<open>v\<close> is the value, \<open>None\<close> for Python's \<open>None\<close>, which is never stored.\<close>

definition cache_set ::
  "tick \<Rightarrow> 'v cache \<Rightarrow> ustr \<Rightarrow> 'v option \<Rightarrow> int option \<Rightarrow> 'v cache_state \<times> valkey
   \<Rightarrow> (cache_error + unit) \<times> 'v cache_state \<times> valkey" where
  "cache_set t C key v ttl = (\<lambda>(s, st).
     case v of None \<Rightarrow> (Inr (), s, st)
     | Some x \<Rightarrow>
       (case cache_ttl C ttl of
          None \<Rightarrow> (Inl CacheTtl, s, st)
        | Some eff \<Rightarrow>
            (let k = cache_key C key in
             if uses_kv t C s then
               (case kv_set_json (tk_fault t) (tk_at t) (ca_kv C) (ca_codec C) k x (Some eff) st of
                  (Inr _, st1) \<Rightarrow> (Inr (), s, st1)
                | (Inl JsonError, st1) \<Rightarrow> (Inl CacheJson, s, st1)
                | (Inl RedisError, st1) \<Rightarrow> (Inr (), mem_put (tk_failed_at t) (tk_drop t) k x eff (trip t C s), st1))
             else (Inr (), mem_put (tk_at t) (tk_drop t) k x eff s, st))))"

definition cache_delete :: "tick \<Rightarrow> 'v cache \<Rightarrow> ustr \<Rightarrow> 'v cache_state \<times> valkey \<Rightarrow> 'v cache_state \<times> valkey" where
  "cache_delete t C key = (\<lambda>(s, st).
     let k = cache_key C key; s1 = s\<lparr>mem := (mem s)(k := None)\<rparr> in
     if uses_kv t C s1 then
       (case kv_delete (tk_fault t) (tk_at t) (ca_kv C) [k] st of
          (Inr _, st1) \<Rightarrow> (s1, st1)
        | (Inl _, st1) \<Rightarrow> (trip t C s1, st1))
     else (s1, st))"

subsection \<open>The decorator\<close>

text \<open>
  A decorated function of arguments \<open>'a\<close>.  \<open>KeyFun\<close> is a callable key, \<open>KeyTemplate\<close> a format
  string, filled by the \<open>fill\<close> argument, and \<open>KeyDefault\<close> the qualified name with the JSON text
  of the arguments.
\<close>

datatype 'a key_spec = KeyFun "'a \<Rightarrow> ustr" | KeyTemplate ustr | KeyDefault

record ('a, 'v) decorated =
  de_qualname :: ustr
  de_key :: "'a key_spec"
  de_mode :: cache_mode
  de_ttl :: int
  de_fill :: "ustr \<Rightarrow> 'a \<Rightarrow> ustr"
  de_args_json :: "'a \<Rightarrow> ustr"
  de_fun :: "'a \<Rightarrow> 'v option"
  de_codec :: "'v js_codec"

definition resolve_key :: "('a, 'v) decorated \<Rightarrow> 'a \<Rightarrow> ustr" where
  "resolve_key D a = (case de_key D of
     KeyFun f \<Rightarrow> f a
   | KeyTemplate tpl \<Rightarrow> de_fill D tpl a
   | KeyDefault \<Rightarrow> de_qualname D @ [58] @ de_args_json D a)"

text \<open>The store is built on the first call, with the client \<open>configure\<close> registered by then.\<close>

definition build_store :: "kv option \<Rightarrow> ('a, 'v) decorated \<Rightarrow> ('v cache \<times> 'v cache_state) option" where
  "build_store default_kv D = mk_cache (de_mode D) default_kv (de_qualname D) None 5 (de_codec D)"

datatype 'v memo = MemoValue "'v option" | MemoNoKv | MemoError cache_error

text \<open>
  The wrapper after the store exists: the lookup at \<open>t1\<close>, and on a miss the call and the store at
  \<open>t2\<close>; \<open>between\<close> is what other calls do to the store meanwhile.
\<close>

definition memo_call ::
  "tick \<Rightarrow> tick \<Rightarrow> ('v cache_state \<times> valkey \<Rightarrow> 'v cache_state \<times> valkey) \<Rightarrow> ('a, 'v) decorated \<Rightarrow> 'v cache \<Rightarrow> 'a
   \<Rightarrow> 'v cache_state \<times> valkey \<Rightarrow> 'v memo \<times> 'v cache_state \<times> valkey" where
  "memo_call t1 t2 between D C a w =
     (let k = resolve_key D a in
      case cache_get t1 C k w of
        (Inl e, w1) \<Rightarrow> (MemoError e, w1)
      | (Inr (Some v), w1) \<Rightarrow> (MemoValue (Some v), w1)
      | (Inr None, w1) \<Rightarrow>
          (let r = de_fun D a; w2 = between w1 in
           case r of None \<Rightarrow> (MemoValue None, w2)
           | Some v \<Rightarrow> (case cache_set t2 C k (Some v) (Some (de_ttl D)) w2 of
                (Inl e, w3) \<Rightarrow> (MemoError e, w3)
              | (Inr _, w3) \<Rightarrow> (MemoValue (Some v), w3))))"

definition memo_wrapper ::
  "tick \<Rightarrow> tick \<Rightarrow> ('v cache_state \<times> valkey \<Rightarrow> 'v cache_state \<times> valkey) \<Rightarrow> kv option \<Rightarrow> ('a, 'v) decorated \<Rightarrow> 'a
   \<Rightarrow> ('v cache \<times> 'v cache_state) option \<Rightarrow> valkey \<Rightarrow> 'v memo \<times> ('v cache \<times> 'v cache_state) option \<times> valkey" where
  "memo_wrapper t1 t2 between default_kv D a store st =
     (case (case store of None \<Rightarrow> build_store default_kv D | Some c \<Rightarrow> Some c) of
        None \<Rightarrow> (MemoNoKv, None, st)
      | Some (C, s) \<Rightarrow> (let (r, s1, st1) = memo_call t1 t2 between D C a (s, st) in (r, Some (C, s1), st1)))"

subsection \<open>The media view cache\<close>

definition media_cache :: "kv_config \<Rightarrow> media_config \<Rightarrow> ustr js_codec \<Rightarrow> ustr cache \<times> ustr cache_state" where
  "media_cache kvcfg cfg J =
     (\<lparr>ca_mode = KvThenMem, ca_kv = mk_kv (shared_kv_config kvcfg), ca_namespace = lit ''media:view'',
       ca_default_ttl = Some (view_cache_ttl cfg), ca_cooldown = 5, ca_codec = J\<rparr>,
      \<lparr>kv_down_until = 0, mem = (\<lambda>_. None)\<rparr>)"

definition cache_urls :: "tick \<Rightarrow> tick \<Rightarrow> ustr cache \<Rightarrow> (ustr cache_state \<times> valkey, cache_error) url_cache" where
  "cache_urls t1 t2 C = \<lparr>uc_get = cache_get t1 C, uc_set = (\<lambda>key url ttl. cache_set t2 C key (Some url) (Some ttl))\<rparr>"

subsection \<open>What a cache promises\<close>

text \<open>
  A store that may lose entries at any time but never invents one: \<open>holds P\<close> says that every entry
  of key \<open>k\<close>, value \<open>v\<close> and expiry \<open>e\<close> satisfies \<open>P k v e\<close>; \<open>moments\<close> are the times at which an
  operation may take effect.
\<close>

locale ephemeral_store =
  fixes look :: "'t \<Rightarrow> 'k \<Rightarrow> 'w \<Rightarrow> ('e + 'v option) \<times> 'w"
    and keep :: "'t \<Rightarrow> 'k \<Rightarrow> 'v \<Rightarrow> int \<Rightarrow> 'w \<Rightarrow> ('e + unit) \<times> 'w"
    and holds :: "('k \<Rightarrow> 'v \<Rightarrow> rat \<Rightarrow> bool) \<Rightarrow> 'w \<Rightarrow> bool"
    and moments :: "'t \<Rightarrow> rat set"
  assumes look_holds: "holds P w \<Longrightarrow> holds P (snd (look t k w))"
    and look_value: "holds P w \<Longrightarrow> fst (look t k w) = Inr (Some v) \<Longrightarrow> \<exists>u \<in> moments t. \<exists>e. P k v e \<and> u < e"
    and keep_holds: "holds P w \<Longrightarrow> (\<And>u. u \<in> moments t \<Longrightarrow> 0 < ttl \<Longrightarrow> P k v (u + of_int ttl)) \<Longrightarrow> holds P (snd (keep t k v ttl w))"
begin

text \<open>
  A client that looks up, computes \<open>r\<close> on a miss and keeps it: what it returns was kept under that
  key and is alive, or is \<open>r\<close>.
\<close>

lemma read_through:
  assumes "holds P w" and "\<And>w. holds P w \<Longrightarrow> holds P (between w)"
    and "\<And>v u. r = Some v \<Longrightarrow> u \<in> moments t2 \<Longrightarrow> 0 < ttl \<Longrightarrow> P k v (u + of_int ttl)"
  shows "case look t1 k w of
      (Inl e, w1) \<Rightarrow> holds P w1
    | (Inr (Some v), w1) \<Rightarrow> holds P w1 \<and> (\<exists>u \<in> moments t1. \<exists>e. P k v e \<and> u < e)
    | (Inr None, w1) \<Rightarrow> holds P (between w1) \<and> (\<forall>v. r = Some v \<longrightarrow> holds P (snd (keep t2 k v ttl (between w1))))"
proof -
  obtain x w1 where l: "look t1 k w = (x, w1)" by fastforce
  have h: "holds P w1" using look_holds [OF assms(1), of t1 k] l by simp
  have "holds P (snd (keep t2 k v ttl (between w1)))" if "r = Some v" for v
    by (rule keep_holds [OF assms(2) [OF h]]) (rule assms(3) [OF that])
  then show ?thesis using h look_value [OF assms(1), of t1 k] assms(2) l by (auto split: sum.split option.split)
qed

end

definition codec_ok :: "'v js_codec \<Rightarrow> bool" where
  "codec_ok J \<longleftrightarrow> (\<forall>v s. js_dumps J v = Some s \<longrightarrow> js_loads J s = Some (Some v))"

definition slot_key :: "'v cache \<Rightarrow> ustr \<Rightarrow> ustr" where
  "slot_key C key = kv_key (ca_kv C) (cache_key C key)"

definition kv_holds :: "'v cache \<Rightarrow> (ustr \<Rightarrow> 'v \<Rightarrow> rat \<Rightarrow> bool) \<Rightarrow> valkey \<Rightarrow> bool" where
  "kv_holds C P st \<longleftrightarrow> (\<forall>key e. st (slot_key C key) = Some e \<longrightarrow>
     (\<exists>raw t v. e = \<lparr>vs_value = VText raw, vs_expires = Some t\<rparr> \<and> js_loads (ca_codec C) raw = Some (Some v) \<and> P key v t))"

definition mem_holds :: "'v cache \<Rightarrow> (ustr \<Rightarrow> 'v \<Rightarrow> rat \<Rightarrow> bool) \<Rightarrow> 'v cache_state \<Rightarrow> bool" where
  "mem_holds C P s \<longleftrightarrow> (\<forall>key v e. mem s (cache_key C key) = Some (v, e) \<longrightarrow> P key v e)"

definition cache_holds :: "'v cache \<Rightarrow> (ustr \<Rightarrow> 'v \<Rightarrow> rat \<Rightarrow> bool) \<Rightarrow> 'v cache_state \<times> valkey \<Rightarrow> bool" where
  "cache_holds C P w \<longleftrightarrow> codec_ok (ca_codec C) \<and> mem_holds C P (fst w) \<and> kv_holds C P (snd w)"

definition tick_moments :: "tick \<Rightarrow> rat set" where
  "tick_moments t = {tk_at t, tk_failed_at t}"

lemma cache_key_eq [simp]: "cache_key C a = cache_key C b \<longleftrightarrow> a = b"
  by (simp add: cache_key_def)

lemma slot_key_eq [simp]: "slot_key C a = slot_key C b \<longleftrightarrow> a = b"
  by (simp add: slot_key_def)

lemma mem_holds_trip [simp]: "mem_holds C P (trip t C s) = mem_holds C P s"
  by (simp add: mem_holds_def trip_def)

lemma mem_get_trip [simp]: "mem_get now k (trip t C s) = mem_get now k s"
  by (simp add: mem_get_def trip_def)

lemma mem_get_holds: "\<lbrakk>mem_holds C P s; mem_get now (cache_key C key) s = Some v\<rbrakk> \<Longrightarrow> \<exists>e. P key v e \<and> now < e"
proof -
  assume h: "mem_holds C P s" and g: "mem_get now (cache_key C key) s = Some v"
  then obtain e where "mem s (cache_key C key) = Some (v, e)" "now < e" by (auto simp: mem_get_def split: option.splits if_splits)
  with h show ?thesis by (meson mem_holds_def)
qed

lemma mem_put_holds: "\<lbrakk>mem_holds C P s; P key v (now + of_int ttl)\<rbrakk> \<Longrightarrow> mem_holds C P (mem_put now out (cache_key C key) v ttl s)"
  by (auto simp: mem_holds_def mem_put_def)

lemma kv_holds_text_get:
  assumes "kv_holds C P st" "text_get now (slot_key C key) st = Some raw"
  shows "\<exists>v e. js_loads (ca_codec C) raw = Some (Some v) \<and> P key v e \<and> now < e"
proof -
  obtain e where e: "st (slot_key C key) = Some e" "live_slot now (slot_key C key) st = Some e"
    using assms(2) by (auto simp: text_get_def live_slot_def split: option.splits if_splits)
  then obtain r t v where "e = \<lparr>vs_value = VText r, vs_expires = Some t\<rparr>" "js_loads (ca_codec C) r = Some (Some v)" "P key v t"
    using assms(1) unfolding kv_holds_def by blast
  then show ?thesis using e assms(2) by (auto simp: text_get_def live_slot_def split: if_splits)
qed

lemma kv_holds_get_json:
  assumes "kv_holds C P st"
  obtains "kv_get_json flt now (ca_kv C) (ca_codec C) (cache_key C key) st = (Inl RedisError, st)"
  | "kv_get_json flt now (ca_kv C) (ca_codec C) (cache_key C key) st = (Inr None, st)"
  | v e where "kv_get_json flt now (ca_kv C) (ca_codec C) (cache_key C key) st = (Inr (Some v), st)" "P key v e" "now < e"
proof (cases flt)
  case Answers
  show thesis
  proof (cases "text_get now (slot_key C key) st")
    case None
    then show thesis using that(2) Answers by (simp add: kv_get_json_def kv_get_def slot_key_def)
  next
    case (Some raw)
    with kv_holds_text_get [OF assms Some] show thesis
      using that(3) Answers by (auto simp: kv_get_json_def kv_get_def slot_key_def)
  qed
qed (use that(1) in \<open>simp_all add: kv_get_json_def kv_get_def\<close>)

lemma kv_holds_set_json:
  assumes "codec_ok (ca_codec C)" "kv_holds C P st" "0 < ttl" "P key v (now + of_int ttl)"
  shows "kv_holds C P (snd (kv_set_json flt now (ca_kv C) (ca_codec C) (cache_key C key) v (Some ttl) st))"
proof (cases "js_dumps (ca_codec C) v")
  case None
  then show ?thesis using assms(2) by (simp add: kv_set_json_def)
next
  case (Some raw)
  then have "js_loads (ca_codec C) raw = Some (Some v)" using assms(1) by (simp add: codec_ok_def)
  then have w: "kv_holds C P (text_set now (slot_key C key) raw (Some ttl) st)"
    using assms(2,4) by (auto simp: kv_holds_def text_set_def)
  show ?thesis
    using w assms(2,3) Some by (cases flt) (simp_all add: kv_set_json_def kv_set_def set_command_def kv_ttl_def slot_key_def)
qed

lemma kv_holds_delete:
  assumes "kv_holds C P st"
  shows "kv_holds C P (snd (kv_delete flt now K ks st))"
proof -
  have "kv_holds C P (del_keys js st)" for js using assms by (auto simp: kv_holds_def del_keys_def)
  then show ?thesis using assms by (cases flt) (simp_all add: kv_delete_def Let_def)
qed

lemma cache_get_cases:
  assumes "cache_holds C P w"
  obtains (miss) s where "cache_get t C key w = (Inr None, s, snd w)" "mem_holds C P s"
  | (hit) v s u e where "cache_get t C key w = (Inr (Some v), s, snd w)" "mem_holds C P s" "u \<in> tick_moments t" "P key v e" "u < e"
proof -
  obtain s st where w: "w = (s, st)" by fastforce
  have m: "mem_holds C P s" and k: "kv_holds C P st" using assms by (simp_all add: cache_holds_def w)
  have fallback: thesis
    if "cache_get t C key w = (Inr (mem_get u (cache_key C key) s), s', st)" "mem_holds C P s'" "u \<in> tick_moments t" for u s'
    using that mem_get_holds [OF m, of u key] hit miss
    by (cases "mem_get u (cache_key C key) s") (auto simp: w)
  show thesis
  proof (cases "uses_kv t C s")
    case False
    then show thesis using fallback [of "tk_at t" s] m by (simp add: cache_get_def w tick_moments_def)
  next
    case True
    from k show thesis
    proof (cases rule: kv_holds_get_json [where flt = "tk_fault t" and now = "tk_at t" and key = key])
      case 1
      then show thesis using fallback [of "tk_failed_at t" "trip t C s"] m True by (simp add: cache_get_def w tick_moments_def Let_def)
    next
      case 2
      then show thesis using miss [of s] m True by (simp add: cache_get_def w)
    next
      case (3 v e)
      then show thesis using hit [of v s "tk_at t" e] m True by (simp add: cache_get_def w tick_moments_def)
    qed
  qed
qed

lemma cache_set_holds:
  assumes "cache_holds C P w"
    and "\<And>v eff u. v' = Some v \<Longrightarrow> cache_ttl C ttl = Some eff \<Longrightarrow> u \<in> tick_moments t \<Longrightarrow> 0 < eff \<Longrightarrow> P key v (u + of_int eff)"
  shows "cache_holds C P (snd (cache_set t C key v' ttl w))"
proof -
  obtain s st where w: "w = (s, st)" by fastforce
  show ?thesis
  proof (cases v')
    case None
    then show ?thesis using assms(1) by (simp add: cache_set_def w)
  next
    case (Some v)
    show ?thesis
    proof (cases "cache_ttl C ttl")
      case None
      then show ?thesis using assms(1) Some by (simp add: cache_set_def w)
    next
      case eff: (Some eff)
      have pos: "0 < eff" using eff by (auto simp: cache_ttl_def split: option.splits if_splits)
      have P: "P key v (tk_at t + of_int eff)" "P key v (tk_failed_at t + of_int eff)"
        using assms(2) [OF Some eff _ pos] by (simp_all add: tick_moments_def)
      have c: "codec_ok (ca_codec C)" "mem_holds C P s" "kv_holds C P st" using assms(1) by (simp_all add: cache_holds_def w)
      obtain r st1 where j: "kv_set_json (tk_fault t) (tk_at t) (ca_kv C) (ca_codec C) (cache_key C key) v (Some eff) st = (r, st1)"
        by fastforce
      have "kv_holds C P st1" using kv_holds_set_json [OF c(1,3) pos P(1), of "tk_fault t"] j by simp
      then show ?thesis using c P Some eff j
        by (auto simp: cache_set_def w cache_holds_def Let_def mem_put_holds split: sum.split kv_error.split)
    qed
  qed
qed

lemma cache_delete_holds:
  assumes "cache_holds C P w"
  shows "cache_holds C P (cache_delete t C key w)"
proof -
  obtain s st where w: "w = (s, st)" by fastforce
  have m: "mem_holds C P (s\<lparr>mem := (mem s)(k := None)\<rparr>)" for k
    using assms by (auto simp: cache_holds_def mem_holds_def w)
  obtain r st1 where d: "kv_delete (tk_fault t) (tk_at t) (ca_kv C) [cache_key C key] st = (r, st1)" by fastforce
  have "kv_holds C P st1" using kv_holds_delete [of C P st "tk_fault t" "tk_at t" "ca_kv C" "[cache_key C key]"] assms d
    by (simp add: cache_holds_def w)
  then show ?thesis using assms m d by (auto simp: cache_delete_def w cache_holds_def Let_def split: sum.split)
qed

interpretation entry: ephemeral_store "\<lambda>t. cache_get t C" "\<lambda>t key v ttl. cache_set t C key (Some v) (Some ttl)" "cache_holds C" tick_moments
  for C :: "'v cache"
proof
  fix P w t key v ttl
  assume h: "cache_holds C P w"
  show "cache_holds C P (snd (cache_get t C key w))"
    by (rule cache_get_cases [OF h, of t key]) (use h in \<open>simp_all add: cache_holds_def\<close>)
  show "\<exists>u \<in> tick_moments t. \<exists>e. P key v e \<and> u < e" if "fst (cache_get t C key w) = Inr (Some v)"
    by (rule cache_get_cases [OF h, of t key]) (use that in auto)
  show "cache_holds C P (snd (cache_set t C key (Some v) (Some ttl) w))"
    if "\<And>u. u \<in> tick_moments t \<Longrightarrow> 0 < ttl \<Longrightarrow> P key v (u + of_int ttl)"
    by (rule cache_set_holds [OF h]) (use that in \<open>auto simp: cache_ttl_def split: if_splits\<close>)
qed

subsection \<open>Processes sharing one database\<close>

text \<open>
  \<open>F i\<close> is the cache object of process \<open>i\<close>; the database is shared.  \<open>allowed\<close> says what the
  processes may store.  Other clients may do anything to keys that are not the cache's.
\<close>

inductive fleet :: "'v cache \<Rightarrow> (ustr \<Rightarrow> 'v \<Rightarrow> int \<Rightarrow> tick \<Rightarrow> bool) \<Rightarrow> (nat \<Rightarrow> 'v cache_state) \<Rightarrow> valkey \<Rightarrow> bool"
  for C allowed where
  fleet_start: "\<lbrakk>\<forall>i k. mem (F i) k = None; \<forall>key. st (slot_key C key) = None\<rbrakk> \<Longrightarrow> fleet C allowed F st"
| fleet_get: "\<lbrakk>fleet C allowed F st; cache_get t C key (F i, st) = (r, s, st')\<rbrakk> \<Longrightarrow> fleet C allowed (F(i := s)) st'"
| fleet_set: "\<lbrakk>fleet C allowed F st; \<forall>x eff. v = Some x \<longrightarrow> cache_ttl C ttl = Some eff \<longrightarrow> allowed key x eff t;
    cache_set t C key v ttl (F i, st) = (r, s, st')\<rbrakk> \<Longrightarrow> fleet C allowed (F(i := s)) st'"
| fleet_delete: "\<lbrakk>fleet C allowed F st; cache_delete t C key (F i, st) = (s, st')\<rbrakk> \<Longrightarrow> fleet C allowed (F(i := s)) st'"
| fleet_other: "\<lbrakk>fleet C allowed F st; \<forall>key. st' (slot_key C key) = st (slot_key C key)\<rbrakk> \<Longrightarrow> fleet C allowed F st'"

definition kept_by :: "(ustr \<Rightarrow> 'v \<Rightarrow> int \<Rightarrow> tick \<Rightarrow> bool) \<Rightarrow> ustr \<Rightarrow> 'v \<Rightarrow> rat \<Rightarrow> bool" where
  "kept_by allowed key v e \<longleftrightarrow> (\<exists>ttl t. allowed key v ttl t \<and> (\<exists>u \<in> tick_moments t. e = u + of_int ttl))"

lemma holds_step:
  assumes "\<And>j. cache_holds C P (F j, st)" "cache_holds C P (s, st')"
  shows "cache_holds C P ((F(i := s)) j, st')"
  using assms(1) [of j] assms(2) by (cases "j = i") (auto simp: cache_holds_def)

lemma fleet_holds:
  assumes "fleet C allowed F st" "codec_ok (ca_codec C)"
  shows "cache_holds C (kept_by allowed) (F j, st)"
  using assms
proof (induction arbitrary: j rule: fleet.induct)
  case (fleet_start F st)
  then show ?case by (simp add: cache_holds_def mem_holds_def kv_holds_def)
next
  case (fleet_get F st t key i r s st')
  then have h: "cache_holds C (kept_by allowed) (F j, st)" for j by blast
  then have "cache_holds C (kept_by allowed) (s, st')" using entry.look_holds [OF h, of t key i] fleet_get(2) by simp
  with h show ?case by (rule holds_step)
next
  case (fleet_set F st v ttl key t i r s st')
  then have h: "cache_holds C (kept_by allowed) (F j, st)" for j by blast
  have "cache_holds C (kept_by allowed) (snd (cache_set t C key v ttl (F i, st)))"
    by (rule cache_set_holds [OF h]) (use fleet_set(2) in \<open>auto simp: kept_by_def\<close>)
  with h show ?case using fleet_set(3) by (intro holds_step) auto
next
  case (fleet_delete F st t key i s st')
  then have h: "cache_holds C (kept_by allowed) (F j, st)" for j by blast
  then have "cache_holds C (kept_by allowed) (s, st')" using cache_delete_holds [OF h, of t key i] fleet_delete(2) by simp
  with h show ?case by (rule holds_step)
next
  case (fleet_other F st st')
  then have "cache_holds C (kept_by allowed) (F j, st)" by blast
  then show ?case using fleet_other(2) by (simp add: cache_holds_def kv_holds_def)
qed

lemma fleet_lookup:
  assumes "fleet C allowed F st" "codec_ok (ca_codec C)"
  obtains (miss) s where "cache_get t C key (F i, st) = (Inr None, s, st)" "fleet C allowed (F(i := s)) st"
  | (hit) v s ttl t0 u u0 where "cache_get t C key (F i, st) = (Inr (Some v), s, st)" "fleet C allowed (F(i := s)) st"
      "allowed key v ttl t0" "u \<in> tick_moments t" "u0 \<in> tick_moments t0" "u < u0 + of_int ttl"
proof (cases rule: cache_get_cases [OF fleet_holds [OF assms, of i], of t key])
  case (1 s)
  then show thesis using miss [of s] fleet_get [OF assms(1), of t key i] by simp
next
  case (2 v s u e)
  then show thesis using hit [of v s] fleet_get [OF assms(1), of t key i] by (fastforce simp: kept_by_def)
qed

text \<open>
  C25.  What a cache returns is fresh.  Whatever processes share the database, whatever commands
  fail, time out after being executed or are skipped by the breaker, a lookup never fails, and a
  value it returns was stored under that key by an operation whose time to live is not over.
\<close>

theorem cache_fresh:
  assumes "fleet C stored F st" and "codec_ok (ca_codec C)"
  shows "\<exists>r w. cache_get t C key (F i, st) = (Inr r, w)
    \<and> (\<forall>v. r = Some v \<longrightarrow> (\<exists>ttl t0. stored key v ttl t0
         \<and> (\<exists>u \<in> {tk_at t, tk_failed_at t}. \<exists>u0 \<in> {tk_at t0, tk_failed_at t0}. u < u0 + of_int ttl)))"
proof (cases rule: fleet_lookup [OF assms, of t key i])
  case (1 s)
  then show ?thesis by auto
next
  case (2 v s ttl t0 u u0)
  then show ?thesis unfolding tick_moments_def by auto
qed

subsection \<open>Memoization\<close>

lemma cache_set_returns:
  assumes "cache_ttl C ttl = Some eff" "js_dumps (ca_codec C) x \<noteq> None"
  shows "\<exists>w'. cache_set t C key (Some x) ttl w = (Inr (), w')"
proof -
  obtain s st where w: "w = (s, st)" by fastforce
  obtain raw where raw: "js_dumps (ca_codec C) x = Some raw" using assms(2) by auto
  obtain r st1 where j: "kv_set_json (tk_fault t) (tk_at t) (ca_kv C) (ca_codec C) (cache_key C key) x (Some eff) st = (r, st1)"
    by fastforce
  have "r \<noteq> Inl JsonError"
    using j raw by (cases "tk_fault t") (auto simp: kv_set_json_def kv_set_def set_command_def split: option.splits if_splits)
  then show ?thesis using assms(1) j by (auto simp: cache_set_def w Let_def split: sum.split kv_error.split)
qed

text \<open>The results a decorated function may leave in its store.\<close>

definition results_of :: "('a, 'v) decorated \<Rightarrow> ustr \<Rightarrow> 'v \<Rightarrow> int \<Rightarrow> tick \<Rightarrow> bool" where
  "results_of D key v ttl t \<longleftrightarrow> (\<exists>a. key = resolve_key D a \<and> de_fun D a = Some v)"

text \<open>
  The decorated functions \<open>Ds j\<close> of a program, each with a store per process \<open>p\<close>, made at its first call there, and
  one database for all.  A step is a first call, a lookup, or the storing of a result; other clients may do
  anything to keys that are no function's.
\<close>

type_synonym 'v stores = "nat \<Rightarrow> nat \<Rightarrow> ('v cache \<times> 'v cache_state) option"

definition set_store :: "nat \<Rightarrow> nat \<Rightarrow> 'v cache \<times> 'v cache_state \<Rightarrow> 'v stores \<Rightarrow> 'v stores" where
  "set_store p j c M = M(p := (M p)(j \<mapsto> c))"

definition same_slots :: "kv option \<Rightarrow> (nat \<Rightarrow> ('a, 'v) decorated) \<Rightarrow> valkey \<Rightarrow> valkey \<Rightarrow> bool" where
  "same_slots K Ds st st' \<longleftrightarrow> (\<forall>j C s key. build_store K (Ds j) = Some (C, s) \<longrightarrow> st' (slot_key C key) = st (slot_key C key))"

inductive memo_world :: "kv option \<Rightarrow> (nat \<Rightarrow> ('a, 'v) decorated) \<Rightarrow> 'v stores \<Rightarrow> valkey \<Rightarrow> bool" for K Ds where
  world_start: "same_slots K Ds (\<lambda>_. None) st \<Longrightarrow> memo_world K Ds (\<lambda>_ _. None) st"
| world_build: "\<lbrakk>memo_world K Ds M st; M p j = None; build_store K (Ds j) = Some c\<rbrakk> \<Longrightarrow> memo_world K Ds (set_store p j c M) st"
| world_get: "\<lbrakk>memo_world K Ds M st; M p j = Some (C, s); cache_get t C (resolve_key (Ds j) a) (s, st) = (r, s', st')\<rbrakk>
    \<Longrightarrow> memo_world K Ds (set_store p j (C, s') M) st'"
| world_set: "\<lbrakk>memo_world K Ds M st; M p j = Some (C, s); de_fun (Ds j) a = Some v;
    cache_set t C (resolve_key (Ds j) a) (Some v) (Some (de_ttl (Ds j))) (s, st) = (r, s', st')\<rbrakk>
    \<Longrightarrow> memo_world K Ds (set_store p j (C, s') M) st'"
| world_other: "\<lbrakk>memo_world K Ds M st; same_slots K Ds st st'\<rbrakk> \<Longrightarrow> memo_world K Ds M st'"

text \<open>
  What a programmer owes: a qualified name, which has no colon; a key function, template or JSON text of the arguments
  that tells calls with different results apart; results that come back from their JSON text as they were; a positive
  time to live.
\<close>

definition key_determines :: "('a, 'v) decorated \<Rightarrow> bool" where
  "key_determines D \<longleftrightarrow> (\<forall>a b. (case de_key D of
       KeyFun f \<Rightarrow> f a = f b
     | KeyTemplate tpl \<Rightarrow> de_fill D tpl a = de_fill D tpl b
     | KeyDefault \<Rightarrow> de_args_json D a = de_args_json D b) \<longrightarrow> de_fun D a = de_fun D b)"

definition decorated_ok :: "('a, 'v) decorated \<Rightarrow> bool" where
  "decorated_ok D \<longleftrightarrow> de_qualname D \<noteq> [] \<and> 58 \<notin> set (de_qualname D) \<and> key_determines D \<and> codec_ok (de_codec D)
     \<and> (\<forall>a v. de_fun D a = Some v \<longrightarrow> js_dumps (de_codec D) v \<noteq> None) \<and> 0 < de_ttl D"

definition named_apart :: "(nat \<Rightarrow> ('a, 'v) decorated) \<Rightarrow> bool" where
  "named_apart Ds \<longleftrightarrow> (\<forall>i. decorated_ok (Ds i)) \<and> inj (\<lambda>i. de_qualname (Ds i))"

lemma resolve_key_fun:
  assumes "decorated_ok D" "resolve_key D a = resolve_key D b"
  shows "de_fun D a = de_fun D b"
proof -
  have "case de_key D of
       KeyFun f \<Rightarrow> f a = f b
     | KeyTemplate tpl \<Rightarrow> de_fill D tpl a = de_fill D tpl b
     | KeyDefault \<Rightarrow> de_args_json D a = de_args_json D b"
    using assms(2) by (simp add: resolve_key_def split: key_spec.splits)
  then show ?thesis using assms(1) unfolding decorated_ok_def key_determines_def by blast
qed

lemma build_store_parts:
  "build_store K D = Some (C, s) \<Longrightarrow> ca_codec C = de_codec D \<and> ca_default_ttl C = None \<and> ca_namespace C = de_qualname D
     \<and> ca_kv C = (case K of Some k \<Rightarrow> k | None \<Rightarrow> \<lparr>kv_prefix = [], kv_default_ttl = None\<rparr>) \<and> (\<forall>k. mem s k = None)"
  by (auto simp: build_store_def mk_cache_def split: if_splits)

lemma split_colon: "\<lbrakk>q @ 58 # k = q' @ 58 # k'; 58 \<notin> set q; 58 \<notin> set q'\<rbrakk> \<Longrightarrow> q = q' \<and> k = (k' :: ustr)"
  by (induction q arbitrary: q') (auto simp: Cons_eq_append_conv append_eq_Cons_conv)

lemma slots_apart:
  assumes "named_apart Ds" "build_store K (Ds i) = Some (C, s)" "build_store K (Ds j) = Some (C', s')" "slot_key C k = slot_key C' k'"
  shows "i = j"
proof -
  note p = build_store_parts [OF assms(2)] build_store_parts [OF assms(3)]
  have ok: "decorated_ok (Ds i)" "decorated_ok (Ds j)" "inj (\<lambda>i. de_qualname (Ds i))" using assms(1) by (auto simp: named_apart_def)
  have "de_qualname (Ds i) @ 58 # k = de_qualname (Ds j) @ 58 # k'"
    using assms(4) p ok(1,2) by (simp add: slot_key_def kv_key_def cache_key_def decorated_ok_def)
  from split_colon [OF this] have "de_qualname (Ds i) = de_qualname (Ds j)" using ok(1,2) by (simp add: decorated_ok_def)
  then show ?thesis using ok(3) by (simp add: inj_def)
qed

lemma kv_set_json_frame:
  "k \<noteq> slot_key C key \<Longrightarrow> snd (kv_set_json f now (ca_kv C) J (cache_key C key) x (Some eff) st) k = st k"
  by (cases f) (auto simp: kv_set_json_def kv_set_def set_command_def text_set_def slot_key_def split: option.split)

lemma cache_set_frame:
  assumes "k \<noteq> slot_key C key"
  shows "snd (snd (cache_set t C key v ttl (s, st))) k = st k"
proof (cases "v = None \<or> cache_ttl C ttl = None \<or> \<not> uses_kv t C s")
  case True
  then show ?thesis by (auto simp: cache_set_def Let_def split: option.split)
next
  case False
  then obtain x eff where "v = Some x" "cache_ttl C ttl = Some eff" "uses_kv t C s" by auto
  moreover obtain r st1 where "kv_set_json (tk_fault t) (tk_at t) (ca_kv C) (ca_codec C) (cache_key C key) x (Some eff) st = (r, st1)" by fastforce
  moreover from this have "st1 k = st k"
    using kv_set_json_frame [OF assms, of "tk_fault t" "tk_at t" "ca_codec C" x eff st] by simp
  ultimately show ?thesis by (simp add: cache_set_def Let_def split: sum.split kv_error.split)
qed

text \<open>What the steps keep: every slot and every entry of a function's store is a result of that function.\<close>

definition memo_inv :: "kv option \<Rightarrow> (nat \<Rightarrow> ('a, 'v) decorated) \<Rightarrow> 'v stores \<Rightarrow> valkey \<Rightarrow> bool" where
  "memo_inv K Ds M st \<longleftrightarrow>
     (\<forall>j C s. build_store K (Ds j) = Some (C, s) \<longrightarrow> kv_holds C (kept_by (results_of (Ds j))) st)
   \<and> (\<forall>p j C s. M p j = Some (C, s) \<longrightarrow> (\<exists>s0. build_store K (Ds j) = Some (C, s0)) \<and> mem_holds C (kept_by (results_of (Ds j))) s)"

lemma memo_inv_holds:
  assumes "memo_inv K Ds M st" "named_apart Ds" "M p j = Some (C, s)"
  shows "cache_holds C (kept_by (results_of (Ds j))) (s, st)"
proof -
  obtain s0 where b: "build_store K (Ds j) = Some (C, s0)" and m: "mem_holds C (kept_by (results_of (Ds j))) s"
    using assms(1,3) unfolding memo_inv_def by blast
  have "kv_holds C (kept_by (results_of (Ds j))) st" using assms(1) b unfolding memo_inv_def by blast
  moreover have "codec_ok (ca_codec C)" using build_store_parts [OF b] assms(2) by (simp add: named_apart_def decorated_ok_def)
  ultimately show ?thesis using m by (simp add: cache_holds_def)
qed

lemma memo_inv_step:
  assumes "memo_inv K Ds M st" "build_store K (Ds j) = Some (C, s0)" "cache_holds C (kept_by (results_of (Ds j))) (s', st')"
    and "\<And>i C' s key. build_store K (Ds i) = Some (C', s) \<Longrightarrow> i \<noteq> j \<Longrightarrow> st' (slot_key C' key) = st (slot_key C' key)"
  shows "memo_inv K Ds (set_store p j (C, s') M) st'"
proof -
  have "kv_holds C' (kept_by (results_of (Ds i))) st'" if b: "build_store K (Ds i) = Some (C', s)" for i C' s
  proof (cases "i = j")
    case True
    then show ?thesis using that assms(2,3) by (simp add: cache_holds_def)
  next
    case False
    have "kv_holds C' (kept_by (results_of (Ds i))) st" using assms(1) b unfolding memo_inv_def by blast
    then show ?thesis using assms(4) [OF b False] by (simp add: kv_holds_def)
  qed
  then show ?thesis using assms(1-3) by (auto simp: memo_inv_def set_store_def cache_holds_def)
qed

lemma memo_world_inv:
  assumes "memo_world K Ds M st" "named_apart Ds"
  shows "memo_inv K Ds M st"
  using assms
proof (induction rule: memo_world.induct)
  case (world_start st)
  then show ?case by (simp add: memo_inv_def same_slots_def kv_holds_def)
next
  case (world_build M st p j c)
  then have i: "memo_inv K Ds M st" by simp
  obtain C s where c: "c = (C, s)" by fastforce
  have "mem_holds C (kept_by (results_of (Ds j))) s"
    using build_store_parts [of K "Ds j" C s] world_build(3) by (simp add: c mem_holds_def)
  then show ?case using i world_build(3) by (auto simp: memo_inv_def set_store_def c)
next
  case (world_get M st p j C s t a r s' st')
  then have i: "memo_inv K Ds M st" by simp
  obtain s0 where b: "build_store K (Ds j) = Some (C, s0)" using i world_get(2) unfolding memo_inv_def by blast
  note h = memo_inv_holds [OF i world_get.prems world_get(2)]
  have "st' = st" by (rule cache_get_cases [OF h, of t "resolve_key (Ds j) a"]) (use world_get(3) in simp_all)
  then show ?case using entry.look_holds [OF h, of t "resolve_key (Ds j) a"] world_get(3) by (intro memo_inv_step [OF i b]) simp_all
next
  case (world_set M st p j C s a v t r s' st')
  then have i: "memo_inv K Ds M st" by simp
  obtain s0 where b: "build_store K (Ds j) = Some (C, s0)" using i world_set(2) unfolding memo_inv_def by blast
  note h = memo_inv_holds [OF i world_set.prems world_set(2)]
  have set: "cache_holds C (kept_by (results_of (Ds j))) (snd (cache_set t C (resolve_key (Ds j) a) (Some v) (Some (de_ttl (Ds j))) (s, st)))"
    by (rule cache_set_holds [OF h]) (use world_set(3) in \<open>auto simp: kept_by_def results_of_def\<close>)
  show ?case
  proof (intro memo_inv_step [OF i b])
    show "cache_holds C (kept_by (results_of (Ds j))) (s', st')" using set world_set(4) by simp
    show "st' (slot_key C' key) = st (slot_key C' key)" if "build_store K (Ds l) = Some (C', u)" "l \<noteq> j" for l C' u key
      using slots_apart [OF world_set.prems that(1) b] that(2) cache_set_frame [of "slot_key C' key" C] world_set(4) by (metis snd_conv)
  qed
next
  case (world_other M st st')
  then show ?case by (fastforce simp: memo_inv_def same_slots_def kv_holds_def)
qed

text \<open>
  C9.  The decorated function is the function.  Take any functions of their arguments alone, with distinct qualified
  names, whose keys tell calls with different results apart (for the default key: whose arguments have different JSON
  texts) and whose results JSON gives back as they were.  Whatever calls of them all processes have made against the
  shared database, whatever commands failed and whatever other calls do between lookup and store, a call of the
  wrapper returns exactly what the function returns, and never another function's result; only without a client,
  in the mode that needs one, it raises.  It leaves a state from which this holds again.
\<close>

theorem memo_transparent:
  assumes "memo_world K Ds M st" and "named_apart Ds"
    and "\<And>N C s s' u u'. \<lbrakk>memo_world K Ds N u; N p j = Some (C, s); between (s, u) = (s', u')\<rbrakk>
      \<Longrightarrow> \<exists>N'. memo_world K Ds N' u' \<and> N' p j = Some (C, s')"
  shows "if de_mode (Ds j) = KvThenMem \<and> K = None
     then memo_wrapper t1 t2 between K (Ds j) a (M p j) st = (MemoNoKv, None, st)
     else \<exists>c N st'. memo_wrapper t1 t2 between K (Ds j) a (M p j) st = (MemoValue (de_fun (Ds j) a), Some c, st')
       \<and> memo_world K Ds N st' \<and> N p j = Some c"
proof (cases "de_mode (Ds j) = KvThenMem \<and> K = None")
  case True
  then have "build_store K (Ds j) = None" by (simp add: build_store_def mk_cache_def)
  moreover have "M p j = None"
  proof (rule ccontr)
    assume "M p j \<noteq> None"
    then obtain C s where "M p j = Some (C, s)" by fastforce
    then show False using memo_world_inv [OF assms(1,2)] \<open>build_store K (Ds j) = None\<close> unfolding memo_inv_def by fastforce
  qed
  ultimately show ?thesis using True by (simp add: memo_wrapper_def)
next
  case False
  then obtain c where b: "build_store K (Ds j) = Some c" by (auto simp: build_store_def mk_cache_def)
  obtain N0 C s where N0: "memo_world K Ds N0 st" "N0 p j = Some (C, s)"
    and wrap: "memo_wrapper t1 t2 between K (Ds j) a (M p j) st = (let (r, s1, st1) = memo_call t1 t2 between (Ds j) C a (s, st) in (r, Some (C, s1), st1))"
  proof (cases "M p j")
    case None
    obtain C s where c: "c = (C, s)" by fastforce
    show thesis using that [of "set_store p j c M" C s] world_build [OF assms(1) None b] None b by (simp add: set_store_def memo_wrapper_def c)
  next
    case (Some d)
    then show thesis using that [of M "fst d" "snd d"] assms(1) by (simp add: memo_wrapper_def split_beta)
  qed
  have ok: "decorated_ok (Ds j)" using assms(2) by (simp add: named_apart_def)
  note inv = memo_world_inv [OF N0(1) assms(2)]
  obtain s0 where C: "build_store K (Ds j) = Some (C, s0)" using inv N0(2) unfolding memo_inv_def by blast
  let ?k = "resolve_key (Ds j) a"
  have "\<exists>s' st' N. memo_call t1 t2 between (Ds j) C a (s, st) = (MemoValue (de_fun (Ds j) a), s', st') \<and> memo_world K Ds N st' \<and> N p j = Some (C, s')"
  proof (cases rule: cache_get_cases [OF memo_inv_holds [OF inv assms(2) N0(2)], of t1 ?k])
    case (2 v s1 u e)
    then obtain b where "?k = resolve_key (Ds j) b" "de_fun (Ds j) b = Some v" by (auto simp: kept_by_def results_of_def)
    then have "de_fun (Ds j) a = Some v" using resolve_key_fun [OF ok] by metis
    then show ?thesis using 2(1) world_get [OF N0, of t1 a] by (auto simp: memo_call_def set_store_def)
  next
    case (1 s1)
    then have N1: "memo_world K Ds (set_store p j (C, s1) N0) st" using world_get [OF N0, of t1 a] by simp
    obtain s2 st2 where bt: "between (s1, st) = (s2, st2)" by fastforce
    obtain N2 where N2: "memo_world K Ds N2 st2" "N2 p j = Some (C, s2)" using assms(3) [OF N1 _ bt] by (auto simp: set_store_def)
    show ?thesis
    proof (cases "de_fun (Ds j) a")
      case None
      then show ?thesis using 1 bt N2 by (auto simp: memo_call_def Let_def)
    next
      case (Some v)
      have ttl: "cache_ttl C (Some (de_ttl (Ds j))) = Some (de_ttl (Ds j))" using ok by (simp add: cache_ttl_def decorated_ok_def)
      have "js_dumps (ca_codec C) v \<noteq> None" using ok Some build_store_parts [OF C] by (simp add: decorated_ok_def)
      then obtain s3 st3 where w: "cache_set t2 C ?k (Some v) (Some (de_ttl (Ds j))) (s2, st2) = (Inr (), s3, st3)"
        using cache_set_returns [OF ttl] by (metis surj_pair)
      then show ?thesis using 1 bt Some world_set [OF N2 Some w] by (auto simp: memo_call_def Let_def set_store_def)
    qed
  qed
  then obtain s' st' N where m: "memo_call t1 t2 between (Ds j) C a (s, st) = (MemoValue (de_fun (Ds j) a), s', st')"
    and N: "memo_world K Ds N st'" "N p j = Some (C, s')" by blast
  have "memo_wrapper t1 t2 between K (Ds j) a (M p j) st = (MemoValue (de_fun (Ds j) a), Some (C, s'), st')" by (simp add: wrap m)
  then show ?thesis using False N by (simp only: if_False) blast
qed

subsection \<open>Presigned views\<close>

text \<open>
  What the media service stores: URLs signed at most \<open>d\<close> seconds before the store is over.
\<close>

definition signed_views :: "media_config \<Rightarrow> (rat \<Rightarrow> ustr \<Rightarrow> int \<Rightarrow> ustr) \<Rightarrow> rat \<Rightarrow> ustr \<Rightarrow> ustr \<Rightarrow> int \<Rightarrow> tick \<Rightarrow> bool" where
  "signed_views cfg sign d key url ttl t \<longleftrightarrow> ttl = view_cache_ttl cfg
     \<and> (\<exists>p. url = sign p key (view_expiry cfg) \<and> (\<forall>u \<in> tick_moments t. u \<le> p + d))"

text \<open>
  C16.  A view URL never comes out of the cache too old.  Among any processes serving views through
  the shared cache, a call at time \<open>now\<close> returns a URL that was signed for that key at some time \<open>q\<close>
  and stays valid for at least \<open>view_expiry - view_cache_ttl - d\<close> seconds from \<open>now\<close>, also when the
  database is down; and the call never fails.
\<close>

theorem view_url_valid:
  assumes "C = fst (media_cache kvcfg cfg J)" and "fleet C (signed_views cfg sign d) F st"
    and "codec_ok J" and "\<And>url. js_dumps J url \<noteq> None" and "0 < view_cache_ttl cfg"
    and "tk_at t1 \<le> tk_failed_at t1" and "tk_at t1 \<le> p" and "tk_at t2 \<le> p + d" and "tk_failed_at t2 \<le> p + d"
  shows "\<exists>q s' st'. view_url cfg (cache_urls t1 t2 C) (sign p) key (F i, st) = (Inr (sign q key (view_expiry cfg)), s', st')
    \<and> (q = p \<or> tk_at t1 + of_int (view_expiry cfg - view_cache_ttl cfg) - d < q + of_int (view_expiry cfg))
    \<and> fleet C (signed_views cfg sign d) (F(i := s')) st'"
proof -
  have ok: "codec_ok (ca_codec C)" "ca_codec C = J" using assms(1,3) by (simp_all add: media_cache_def)
  show ?thesis
  proof (cases rule: fleet_lookup [OF assms(2) ok(1), of t1 key i])
    case (2 v s ttl t0 u u0)
    then obtain q where q: "v = sign q key (view_expiry cfg)" "ttl = view_cache_ttl cfg" "u0 \<le> q + d"
      by (auto simp: signed_views_def)
    have "tk_at t1 \<le> u" using 2(4) assms(6) by (auto simp: tick_moments_def)
    then have "tk_at t1 + of_int (view_expiry cfg - view_cache_ttl cfg) - d < q + of_int (view_expiry cfg)"
      using 2(6) q(2,3) by simp
    then show ?thesis using 2(1,2) q(1) by (auto simp: view_url_def cache_urls_def)
  next
    case (1 s)
    have ttl: "cache_ttl C (Some (view_cache_ttl cfg)) = Some (view_cache_ttl cfg)" using assms(5) by (simp add: cache_ttl_def)
    let ?url = "sign p key (view_expiry cfg)"
    have "js_dumps (ca_codec C) ?url \<noteq> None" using assms(4) ok(2) by simp
    then obtain s3 st3 where w: "cache_set t2 C key (Some ?url) (Some (view_cache_ttl cfg)) (s, st) = (Inr (), s3, st3)"
      using cache_set_returns [OF ttl] by (metis surj_pair)
    have "fleet C (signed_views cfg sign d) ((F(i := s))(i := s3)) st3"
      by (rule fleet_set [OF 1(2), where v = "Some ?url" and ttl = "Some (view_cache_ttl cfg)" and key = key and t = t2 and i = i])
        (use w assms(8,9) in \<open>auto simp: signed_views_def tick_moments_def cache_ttl_def split: if_splits\<close>)
    then show ?thesis using 1(1) w by (auto simp: view_url_def cache_urls_def Let_def)
  qed
qed

subsection \<open>The breaker\<close>

datatype 'v cache_op = OpGet tick ustr | OpSet tick ustr "'v option" "int option" | OpDelete tick ustr

fun op_tick :: "'v cache_op \<Rightarrow> tick" where
  "op_tick (OpGet t key) = t"
| "op_tick (OpSet t key v ttl) = t"
| "op_tick (OpDelete t key) = t"

fun run_op :: "'v cache \<Rightarrow> 'v cache_op \<Rightarrow> 'v cache_state \<times> valkey \<Rightarrow> 'v cache_state \<times> valkey" where
  "run_op C (OpGet t key) w = snd (cache_get t C key w)"
| "run_op C (OpSet t key v ttl) w = snd (cache_set t C key v ttl w)"
| "run_op C (OpDelete t key) w = cache_delete t C key w"

text \<open>Whether an operation sends a command.\<close>

fun sends :: "'v cache \<Rightarrow> 'v cache_op \<Rightarrow> 'v cache_state \<Rightarrow> bool" where
  "sends C (OpSet t key v ttl) s = (uses_kv t C s \<and> cache_ttl C ttl \<noteq> None
     \<and> (case v of None \<Rightarrow> False | Some x \<Rightarrow> js_dumps (ca_codec C) x \<noteq> None))"
| "sends C (OpGet t key) s = uses_kv t C s"
| "sends C (OpDelete t key) s = uses_kv t C s"

text \<open>
  An operation that sends a command is suspended until the reply; the process runs its other operations meanwhile.
  \<open>begin_op\<close> is what it does until then, and whether it is suspended; \<open>end_op\<close> is what it does at the reply: after a
  failure, the trip and the fallback.
\<close>

fun begin_op :: "'v cache \<Rightarrow> 'v cache_op \<Rightarrow> 'v cache_state \<times> valkey \<Rightarrow> bool \<times> 'v cache_state \<times> valkey" where
  "begin_op C (OpGet t key) (s, st) =
     (if sends C (OpGet t key) s then (True, s, st) else (False, run_op C (OpGet t key) (s, st)))"
| "begin_op C (OpSet t key v ttl) (s, st) =
     (if sends C (OpSet t key v ttl) s
      then (True, s, snd (kv_set_json (tk_fault t) (tk_at t) (ca_kv C) (ca_codec C) (cache_key C key) (the v) (cache_ttl C ttl) st))
      else (False, run_op C (OpSet t key v ttl) (s, st)))"
| "begin_op C (OpDelete t key) (s, st) =
     (if sends C (OpDelete t key) s
      then (True, s\<lparr>mem := (mem s)(cache_key C key := None)\<rparr>, snd (kv_delete (tk_fault t) (tk_at t) (ca_kv C) [cache_key C key] st))
      else (False, run_op C (OpDelete t key) (s, st)))"

fun end_op :: "'v cache \<Rightarrow> 'v cache_op \<Rightarrow> 'v cache_state \<Rightarrow> 'v cache_state" where
  "end_op C (OpGet t key) s = (if tk_fault t = Answers then s else trip t C s)"
| "end_op C (OpSet t key v ttl) s = (if tk_fault t = Answers then s
     else mem_put (tk_failed_at t) (tk_drop t) (cache_key C key) (the v) (the (cache_ttl C ttl)) (trip t C s))"
| "end_op C (OpDelete t key) s = (if tk_fault t = Answers then s else trip t C s)"

text \<open>
  A process: its cache object, the operations that have sent a command, in order, and which of them are suspended.
  \<open>outage C W P st now\<close>: a process can be in state \<open>P\<close> at time \<open>now\<close> of a time in which every command fails and at most
  \<open>W\<close> of its operations are suspended at once.
\<close>

record 'v process =
  pr_cache :: "'v cache_state"
  pr_sent :: "'v cache_op list"
  pr_open :: "nat list"

definition begin_step :: "'v cache \<Rightarrow> 'v cache_op \<Rightarrow> 'v process \<times> valkey \<Rightarrow> 'v process \<times> valkey" where
  "begin_step C p = (\<lambda>(P, st). case begin_op C p (pr_cache P, st) of (suspended, s, st') \<Rightarrow>
     (if suspended then \<lparr>pr_cache = s, pr_sent = pr_sent P @ [p], pr_open = pr_open P @ [length (pr_sent P)]\<rparr>
      else P\<lparr>pr_cache := s\<rparr>, st'))"

definition end_step :: "'v cache \<Rightarrow> nat \<Rightarrow> 'v process \<Rightarrow> 'v process" where
  "end_step C i P = P\<lparr>pr_cache := end_op C (pr_sent P ! i) (pr_cache P), pr_open := remove1 i (pr_open P)\<rparr>"

definition failing :: "'v cache_op \<Rightarrow> bool" where
  "failing p \<longleftrightarrow> tk_fault (op_tick p) \<noteq> Answers \<and> tk_at (op_tick p) \<le> tk_failed_at (op_tick p)"

inductive outage :: "'v cache \<Rightarrow> nat \<Rightarrow> 'v process \<Rightarrow> valkey \<Rightarrow> rat \<Rightarrow> bool" for C W where
  outage_start: "outage C W \<lparr>pr_cache = s, pr_sent = [], pr_open = []\<rparr> st now"
| outage_begin: "\<lbrakk>outage C W P st now; now \<le> tk_at (op_tick p); failing p; begin_step C p (P, st) = (P', st'); length (pr_open P') \<le> W\<rbrakk>
    \<Longrightarrow> outage C W P' st' (tk_at (op_tick p))"
| outage_end: "\<lbrakk>outage C W P st now; i \<in> set (pr_open P); now \<le> tk_failed_at (op_tick (pr_sent P ! i))\<rbrakk>
    \<Longrightarrow> outage C W (end_step C i P) st (tk_failed_at (op_tick (pr_sent P ! i)))"
| outage_other: "outage C W P st now \<Longrightarrow> outage C W P st' now"

text \<open>An operation of which nothing else runs meanwhile is its two halves.\<close>

lemma run_op_halves:
  assumes "begin_op C p w = (suspended, s, st)"
  shows "run_op C p w = (if suspended then (end_op C p s, st) else (s, st))"
proof -
  obtain s0 st0 where w: "w = (s0, st0)" by fastforce
  show ?thesis
  proof (cases "sends C p s0")
    case False
    then have "begin_op C p (s0, st0) = (False, run_op C p (s0, st0))" by (cases p) (simp_all del: sends.simps)
    then show ?thesis using assms(1) by (simp add: w)
  next
    case True
    show ?thesis
    proof (cases p)
      case (OpGet t key)
      then show ?thesis using True assms(1)
        by (cases "tk_fault t") (auto simp: w cache_get_def kv_get_json_def kv_get_def Let_def trip_def split: option.splits)
    next
      case (OpSet t key v ttl)
      then obtain x raw eff where v: "v = Some x" "js_dumps (ca_codec C) x = Some raw" "cache_ttl C ttl = Some eff" "uses_kv t C s0"
        using True by (auto split: option.splits)
      have "0 < eff" using v(3) by (auto simp: cache_ttl_def split: option.splits if_splits)
      then show ?thesis using OpSet True assms(1) v
        by (cases "tk_fault t") (auto simp: w cache_set_def kv_set_json_def kv_set_def set_command_def kv_ttl_def Let_def trip_def mem_put_def)
    next
      case (OpDelete t key)
      then show ?thesis using True assms(1)
        by (cases "tk_fault t") (auto simp: w cache_delete_def kv_delete_def Let_def trip_def uses_kv_def kv_up_def)
    qed
  qed
qed

lemma begin_op_outage:
  assumes "begin_op C p (s, st) = (suspended, s', st')"
  shows "suspended = sends C p s \<and> kv_down_until s' = kv_down_until s"
proof (cases p)
  case (OpGet t key)
  then show ?thesis using assms by (auto simp: cache_get_def Let_def split: if_splits)
next
  case (OpSet t key v ttl)
  show ?thesis
  proof (cases "sends C p s")
    case True
    then show ?thesis using assms OpSet by auto
  next
    case False
    then have "(suspended, s', st') = (False, snd (cache_set t C key v ttl (s, st)))"
      using assms OpSet by (simp del: sends.simps)
    then have "cache_set t C key v ttl (s, st) = (fst (cache_set t C key v ttl (s, st)), s', st')" "\<not> suspended"
      by (simp_all add: prod_eq_iff)
    moreover have "kv_set_json f n K (ca_codec C) k x e u = (Inl JsonError, u)" if "js_dumps (ca_codec C) x = None" for f n K k x e u
      by (simp add: kv_set_json_def that)
    ultimately show ?thesis using False OpSet
      by (cases v; cases "cache_ttl C ttl"; cases "uses_kv t C s") (auto simp: cache_set_def Let_def mem_put_def)
  qed
next
  case (OpDelete t key)
  then show ?thesis using assms by (auto simp: cache_delete_def Let_def uses_kv_def kv_up_def split: if_splits)
qed

lemma end_op_outage: "failing p \<Longrightarrow> kv_down_until (end_op C p s) = tk_failed_at (op_tick p) + ca_cooldown C"
  by (cases p) (simp_all add: failing_def trip_def mem_put_def)

lemma sends_up: "sends C p s \<Longrightarrow> kv_down_until s \<le> tk_at (op_tick p)"
  by (cases p) (simp_all add: uses_kv_def kv_up_def)

text \<open>The commands that have failed keep the breaker open until a cooldown after each of them.\<close>

definition outage_inv :: "'v cache \<Rightarrow> nat \<Rightarrow> 'v process \<Rightarrow> rat \<Rightarrow> bool" where
  "outage_inv C W P now \<longleftrightarrow> distinct (pr_open P) \<and> set (pr_open P) \<subseteq> {..< length (pr_sent P)} \<and> length (pr_open P) \<le> W
   \<and> (\<forall>p \<in> set (pr_sent P). failing p)
   \<and> (\<forall>i < length (pr_sent P). i \<notin> set (pr_open P) \<longrightarrow> tk_failed_at (op_tick (pr_sent P ! i)) \<le> now
        \<and> tk_failed_at (op_tick (pr_sent P ! i)) + ca_cooldown C \<le> kv_down_until (pr_cache P))
   \<and> (\<forall>i. i + W < length (pr_sent P) \<longrightarrow> tk_at (op_tick (pr_sent P ! i)) + ca_cooldown C \<le> tk_at (op_tick (pr_sent P ! (i + W))))
   \<and> sorted (map (\<lambda>p. tk_at (op_tick p)) (pr_sent P)) \<and> (\<forall>p \<in> set (pr_sent P). tk_at (op_tick p) \<le> now)
   \<and> ((\<exists>i < length (pr_sent P). i \<notin> set (pr_open P)) \<longrightarrow>
        (\<exists>i < length (pr_sent P). i \<notin> set (pr_open P) \<and> kv_down_until (pr_cache P) = tk_failed_at (op_tick (pr_sent P ! i)) + ca_cooldown C))"

text \<open>Of any \<open>W\<close> commands one has failed when the next is sent.\<close>

lemma one_has_failed:
  assumes "outage_inv C W P now" "length (pr_open P) < W" "i + W \<le> length (pr_sent P)"
  obtains j where "i \<le> j" "j < length (pr_sent P)" "j \<notin> set (pr_open P)"
proof -
  have "\<not> {i ..< i + W} \<subseteq> set (pr_open P)"
  proof
    assume "{i ..< i + W} \<subseteq> set (pr_open P)"
    then have "card {i ..< i + W} \<le> card (set (pr_open P))" by (intro card_mono) simp_all
    then show False using assms(2) card_length [of "pr_open P"] by simp
  qed
  then obtain x where x: "i \<le> x" "x < i + W" "x \<notin> set (pr_open P)" by (auto simp: subset_iff)
  then show thesis using that [of x] assms(3) by simp
qed

lemma outage_invariant: "outage C W P st now \<Longrightarrow> outage_inv C W P now"
proof (induction rule: outage.induct)
  case (outage_start s st now)
  then show ?case by (simp add: outage_inv_def)
next
  case (outage_begin P st now p P' st')
  note inv = outage_begin.IH
  let ?t = "tk_at (op_tick p)"
  obtain b s s' where b: "begin_op C p (pr_cache P, st) = (b, s, s')" by (cases "begin_op C p (pr_cache P, st)") auto
  note bo = begin_op_outage [OF b]
  show ?case
  proof (cases b)
    case False
    then have "P' = P\<lparr>pr_cache := s\<rparr>" using outage_begin(4) by (simp add: begin_step_def b)
    then show ?thesis using inv bo outage_begin(2) by (fastforce simp: outage_inv_def)
  next
    case True
    then have P': "P' = \<lparr>pr_cache = s, pr_sent = pr_sent P @ [p], pr_open = pr_open P @ [length (pr_sent P)]\<rparr>"
      using outage_begin(4) by (simp add: begin_step_def b)
    have W: "length (pr_open P) < W" using outage_begin(5) by (simp add: P')
    have up: "kv_down_until (pr_cache P) \<le> ?t" using bo True sends_up [of C p "pr_cache P"] by simp
    have gap: "tk_at (op_tick (pr_sent P ! i)) + ca_cooldown C \<le> ?t" if i: "i + W = length (pr_sent P)" for i
    proof -
      obtain j where j: "i \<le> j" "j < length (pr_sent P)" "j \<notin> set (pr_open P)" using one_has_failed [OF inv W, of i] i by (metis order_refl)
      have "tk_at (op_tick (pr_sent P ! i)) \<le> tk_at (op_tick (pr_sent P ! j))"
        using inv j(1,2) by (auto simp: outage_inv_def sorted_iff_nth_mono)
      also have "\<dots> \<le> tk_failed_at (op_tick (pr_sent P ! j))" using inv j(2) by (auto simp: outage_inv_def failing_def)
      finally show ?thesis using inv j(2,3) up by (fastforce simp: outage_inv_def)
    qed
    have spaced: "tk_at (op_tick ((pr_sent P @ [p]) ! i)) + ca_cooldown C \<le> tk_at (op_tick ((pr_sent P @ [p]) ! (i + W)))"
      if "i + W < length (pr_sent P @ [p])" for i
      using that gap [of i] inv W by (cases "i + W = length (pr_sent P)") (auto simp: outage_inv_def nth_append)
    have old: "\<forall>q \<in> set (pr_sent P). tk_at (op_tick q) \<le> ?t" using inv outage_begin(2) by (fastforce simp: outage_inv_def)
    have ids: "distinct (pr_open P @ [length (pr_sent P)])" "set (pr_open P @ [length (pr_sent P)]) \<subseteq> {..< length (pr_sent P @ [p])}"
      using inv by (auto simp: outage_inv_def)
    have closed: "i < length (pr_sent P) \<and> i \<notin> set (pr_open P) \<and> (pr_sent P @ [p]) ! i = pr_sent P ! i"
      if "i < length (pr_sent P @ [p])" "i \<notin> set (pr_open P @ [length (pr_sent P)])" for i
      using that by (auto simp: nth_append less_Suc_eq)
    have failed: "\<forall>i < length (pr_sent P @ [p]). i \<notin> set (pr_open P @ [length (pr_sent P)]) \<longrightarrow>
        tk_failed_at (op_tick ((pr_sent P @ [p]) ! i)) \<le> ?t
        \<and> tk_failed_at (op_tick ((pr_sent P @ [p]) ! i)) + ca_cooldown C \<le> kv_down_until s"
    proof (intro allI impI)
      fix i
      assume "i < length (pr_sent P @ [p])" "i \<notin> set (pr_open P @ [length (pr_sent P)])"
      note i = closed [OF this]
      then have "tk_failed_at (op_tick (pr_sent P ! i)) \<le> now"
        "tk_failed_at (op_tick (pr_sent P ! i)) + ca_cooldown C \<le> kv_down_until (pr_cache P)"
        using inv by (simp_all add: outage_inv_def)
      then show "tk_failed_at (op_tick ((pr_sent P @ [p]) ! i)) \<le> ?t
        \<and> tk_failed_at (op_tick ((pr_sent P @ [p]) ! i)) + ca_cooldown C \<le> kv_down_until s"
        using i bo outage_begin(2) by simp
    qed
    have last: "(\<exists>i < length (pr_sent P @ [p]). i \<notin> set (pr_open P @ [length (pr_sent P)])) \<longrightarrow>
        (\<exists>i < length (pr_sent P @ [p]). i \<notin> set (pr_open P @ [length (pr_sent P)])
          \<and> kv_down_until s = tk_failed_at (op_tick ((pr_sent P @ [p]) ! i)) + ca_cooldown C)"
    proof
      assume "\<exists>i < length (pr_sent P @ [p]). i \<notin> set (pr_open P @ [length (pr_sent P)])"
      then have "\<exists>i < length (pr_sent P). i \<notin> set (pr_open P)" using closed by blast
      then obtain i where "i < length (pr_sent P)" "i \<notin> set (pr_open P)"
        "kv_down_until (pr_cache P) = tk_failed_at (op_tick (pr_sent P ! i)) + ca_cooldown C"
        using inv unfolding outage_inv_def by blast
      then show "\<exists>i < length (pr_sent P @ [p]). i \<notin> set (pr_open P @ [length (pr_sent P)])
          \<and> kv_down_until s = tk_failed_at (op_tick ((pr_sent P @ [p]) ! i)) + ca_cooldown C"
        using bo by (intro exI [of _ i]) (simp add: nth_append)
    qed
    have sort: "sorted (map (\<lambda>q. tk_at (op_tick q)) (pr_sent P @ [p]))"
      using inv old by (simp add: outage_inv_def sorted_append)
    have fields: "pr_cache P' = s" "pr_sent P' = pr_sent P @ [p]" "pr_open P' = pr_open P @ [length (pr_sent P)]" by (simp_all add: P')
    have bound: "length (pr_open P @ [length (pr_sent P)]) \<le> W" using outage_begin(5) fields by simp
    have fails: "\<forall>q \<in> set (pr_sent P @ [p]). failing q" using inv outage_begin(3) by (simp add: outage_inv_def)
    have olds: "\<forall>q \<in> set (pr_sent P @ [p]). tk_at (op_tick q) \<le> ?t" using old by simp
    show ?thesis
      unfolding outage_inv_def fields
      using ids bound fails failed spaced sort olds last by blast
  qed
next
  case (outage_end P st now i)
  note inv = outage_end.IH
  let ?f = "tk_failed_at (op_tick (pr_sent P ! i))"
  have i: "i < length (pr_sent P)" "failing (pr_sent P ! i)" using inv outage_end(2) by (auto simp: outage_inv_def)
  have d: "kv_down_until (pr_cache (end_step C i P)) = ?f + ca_cooldown C" using end_op_outage [OF i(2)] by (simp add: end_step_def)
  have old: "tk_failed_at (op_tick (pr_sent P ! j)) \<le> ?f" if "j < length (pr_sent P)" "j \<notin> set (pr_open P)" for j
    using inv that outage_end(3) by (fastforce simp: outage_inv_def)
  have ids: "set (remove1 i (pr_open P)) = set (pr_open P) - {i}" using inv by (simp add: outage_inv_def set_remove1_eq)
  have fields: "pr_sent (end_step C i P) = pr_sent P" "pr_open (end_step C i P) = remove1 i (pr_open P)" by (simp_all add: end_step_def)
  have "tk_at (op_tick q) \<le> ?f" if "q \<in> set (pr_sent P)" for q using inv that outage_end(3) by (fastforce simp: outage_inv_def)
  moreover have "length (pr_open P) \<le> W" using inv by (simp add: outage_inv_def)
  then have "length (remove1 i (pr_open P)) \<le> W" by (auto simp: length_remove1)
  ultimately show ?case
    using inv i old unfolding outage_inv_def fields ids d by (auto simp: distinct_remove1)
next
  case (outage_other P st now st')
  then show ?case by simp
qed

text \<open>
  C24.  The breaker spares a database that is down, and lets go when it is back.  While every command of a process
  fails and at most \<open>W\<close> of its cache operations wait for a reply at once, however they overlap, the process
  sends at most \<open>W\<close> commands per cooldown: between a command and the \<open>W\<close>-th after it a whole cooldown passes (for
  operations one after another, one command per cooldown).  And an operation is sent again as soon as a cooldown has
  passed since each of the failures.
\<close>

theorem outage_attempts:
  assumes "outage C W P st now"
  shows "(\<forall>i. i + W < length (pr_sent P) \<longrightarrow>
        tk_at (op_tick (pr_sent P ! i)) + ca_cooldown C \<le> tk_at (op_tick (pr_sent P ! (i + W))))
    \<and> (ca_mode C = KvThenMem \<and> length (pr_open P) < length (pr_sent P)
        \<and> (\<forall>i < length (pr_sent P). i \<notin> set (pr_open P) \<longrightarrow> tk_failed_at (op_tick (pr_sent P ! i)) + ca_cooldown C \<le> tk_at t)
        \<longrightarrow> uses_kv t C (pr_cache P))"
proof -
  have inv: "outage_inv C W P now" using outage_invariant assms by blast
  have "\<exists>i < length (pr_sent P). i \<notin> set (pr_open P)" if "length (pr_open P) < length (pr_sent P)"
  proof (rule ccontr)
    assume "\<not> ?thesis"
    then have "{..< length (pr_sent P)} \<subseteq> set (pr_open P)" by auto
    then have "card {..< length (pr_sent P)} \<le> card (set (pr_open P))" by (intro card_mono) simp_all
    then show False using that card_length [of "pr_open P"] by simp
  qed
  then show ?thesis using inv by (fastforce simp: outage_inv_def uses_kv_def kv_up_def)
qed

subsection \<open>Witnesses\<close>

text \<open>Texts are stored as they are.\<close>

definition text_codec :: "ustr js_codec" where
  "text_codec = \<lparr>js_dumps = (\<lambda>v. Some v), js_loads = (\<lambda>s. Some (Some s))\<rparr>"

definition demo_tick :: "rat \<Rightarrow> fault \<Rightarrow> tick" where
  "demo_tick now flt = \<lparr>tk_at = now, tk_failed_at = now, tk_fault = flt, tk_drop = {}\<rparr>"

definition demo_kv_config :: kv_config where
  "demo_kv_config = \<lparr>kc_url = None, kc_host = lit ''localhost'', kc_port = 6379, kc_db = 0, kc_password = None, kc_ssl = False,
     kc_key_prefix = [], kc_default_ttl = None, kc_max_connections = 10\<rparr>"

abbreviation demo_cache :: "ustr cache" where
  "demo_cache \<equiv> fst (media_cache demo_kv_config media_config_default text_codec)"

abbreviation demo_fresh :: "nat \<Rightarrow> ustr cache_state" where
  "demo_fresh \<equiv> (\<lambda>_. \<lparr>kv_down_until = 0, mem = (\<lambda>_. None)\<rparr>)"

lemma codec_ok_text: "codec_ok text_codec" "js_dumps text_codec v = Some v"
  by (simp_all add: codec_ok_def text_codec_def)

theorem cache_fresh_witness:
  "\<exists>F st. cache_get (demo_tick 7 Answers) demo_cache [107] (F, st) = (Inr (Some [118]), F, st)
    \<and> (7::rat) < 1 + 10"
proof -
  let ?stored = "\<lambda>key v ttl t. key = [107] \<and> v = [118] \<and> ttl = 10 \<and> t = demo_tick 1 Answers"
  obtain s st where w: "cache_set (demo_tick 1 Answers) demo_cache [107] (Some [118]) (Some 10) (demo_fresh 0, \<lambda>_. None) = (Inr (), s, st)"
    and g: "cache_get (demo_tick 7 Answers) demo_cache [107] (s, st) = (Inr (Some [118]), s, st)"
    by (simp add: cache_set_def cache_get_def demo_tick_def media_cache_def cache_ttl_def uses_kv_def kv_up_def kv_set_json_def
        text_codec_def kv_set_def set_command_def kv_ttl_def kv_get_json_def kv_get_def valkey_simps Let_def)
  have "fleet demo_cache ?stored demo_fresh (\<lambda>_. None)" by (rule fleet_start) simp_all
  from fleet_set [OF this, where v = "Some [118]" and ttl = "Some 10" and key = "[107]" and t = "demo_tick 1 Answers" and i = 0, OF _ w]
  have "fleet demo_cache ?stored (demo_fresh(0 := s)) st" by (simp add: cache_ttl_def)
  from cache_fresh [OF this, of "demo_tick 7 Answers" "[107]" 0]
  have "(7::rat) < 1 + 10" using g by (auto simp: media_cache_def codec_ok_text(1) demo_tick_def)
  then show ?thesis using g by blast
qed

text \<open>Functions \<open>f\<close>, \<open>ff\<close>, \<open>fff\<close>, \<open>...\<close> that reverse a list, the first \<open>n\<close> letters away, under the default key.\<close>

definition demo_decorated :: "nat \<Rightarrow> (ustr, ustr) decorated" where
  "demo_decorated n = \<lparr>de_qualname = replicate (Suc n) 102, de_key = KeyDefault, de_mode = KvThenMem, de_ttl = 10, de_fill = (\<lambda>_ a. a),
     de_args_json = (\<lambda>a. a), de_fun = (\<lambda>a. if a = [] then None else Some (rev (drop n a))), de_codec = text_codec\<rparr>"

lemma demo_named_apart: "named_apart demo_decorated"
proof -
  have "inj (\<lambda>i. replicate (Suc i) (102 :: nat))" by (rule injI) (metis length_replicate nat.inject)
  then show ?thesis
    by (simp add: named_apart_def decorated_ok_def demo_decorated_def key_determines_def codec_ok_text)
qed

text \<open>A first call with an unreachable database.\<close>

theorem memo_transparent_witness:
  "fst (memo_wrapper (demo_tick 1 Unreachable) (demo_tick 2 Answers) (\<lambda>w. w) (Some \<lparr>kv_prefix = [], kv_default_ttl = None\<rparr>) (demo_decorated 1) [1, 2, 3]
      None (\<lambda>_. None)) = MemoValue (Some [3, 2])
   \<and> memo_wrapper (demo_tick 1 Unreachable) (demo_tick 2 Answers) (\<lambda>w. w) None (demo_decorated 1) [1, 2, 3] None (\<lambda>_. None) = (MemoNoKv, None, \<lambda>_. None)"
proof -
  have w: "memo_world K demo_decorated (\<lambda>_ _. None) (\<lambda>_. None)" for K by (rule world_start) (simp add: same_slots_def)
  have fields: "de_mode (demo_decorated 1) = KvThenMem" "de_fun (demo_decorated 1) [1, 2, 3] = Some [3, 2]" by (simp_all add: demo_decorated_def)
  have memo: "if de_mode (demo_decorated 1) = KvThenMem \<and> K = None
     then memo_wrapper (demo_tick 1 Unreachable) (demo_tick 2 Answers) (\<lambda>w. w) K (demo_decorated 1) [1, 2, 3] None (\<lambda>_. None) = (MemoNoKv, None, \<lambda>_. None)
     else \<exists>c N st'. memo_wrapper (demo_tick 1 Unreachable) (demo_tick 2 Answers) (\<lambda>w. w) K (demo_decorated 1) [1, 2, 3] None (\<lambda>_. None)
         = (MemoValue (de_fun (demo_decorated 1) [1, 2, 3]), Some c, st') \<and> memo_world K demo_decorated N st' \<and> N 0 1 = Some c" for K
    by (rule memo_transparent [OF w demo_named_apart]) auto
  show ?thesis using memo [of "Some \<lparr>kv_prefix = [], kv_default_ttl = None\<rparr>"] memo [of None] unfolding fields by auto
qed

theorem view_url_valid_witness:
  "fst (view_url media_config_default (cache_urls (demo_tick 1 Unreachable) (demo_tick 2 Answers) demo_cache) (\<lambda>key e. key) [107]
     (demo_fresh 0, \<lambda>_. None)) = Inr [107]"
proof -
  have "fleet demo_cache (signed_views media_config_default (\<lambda>p key e. key) 1) demo_fresh (\<lambda>_. None)" by (rule fleet_start) simp_all
  from view_url_valid [OF refl this codec_ok_text(1), where ?t1.0 = "demo_tick 1 Unreachable" and ?t2.0 = "demo_tick 2 Answers" and p = 1 and key = "[107]" and i = 0]
  show ?thesis by (auto simp: codec_ok_text media_config_default_def demo_tick_def)
qed

text \<open>
  Two lookups at once, both sent at time 1 and failing at 2 and 3; one at time 4 is not sent, one at time 9 is.
\<close>

theorem outage_attempts_witness:
  "\<exists>P st. outage demo_cache 2 P st 9 \<and> map (\<lambda>p. tk_at (op_tick p)) (pr_sent P) = [1, 1, 9] \<and> (1 + 5 :: rat) \<le> 9"
proof -
  let ?get = "\<lambda>a f. OpGet \<lparr>tk_at = a, tk_failed_at = f, tk_fault = Unreachable, tk_drop = {}\<rparr> [107] :: ustr cache_op"
  define P where "P n q = \<lparr>pr_cache = \<lparr>kv_down_until = n, mem = \<lambda>_. None :: (ustr \<times> rat) option\<rparr>, pr_sent = fst q, pr_open = snd q\<rparr>" for n q
  note ev = begin_step_def end_step_def cache_get_def uses_kv_def kv_up_def trip_def mem_get_def media_cache_def Let_def failing_def P_def numeral_2_eq_2
  have 0: "outage demo_cache 2 (P 0 ([], [])) (\<lambda>_. None) 0" unfolding P_def fst_conv snd_conv by (rule outage_start)
  have 1: "outage demo_cache 2 (P 0 ([?get 1 2], [0])) (\<lambda>_. None) 1"
    using outage_begin [OF 0, of "?get 1 2"] by (simp add: ev)
  have 2: "outage demo_cache 2 (P 0 ([?get 1 2, ?get 1 3], [0, 1])) (\<lambda>_. None) 1"
    using outage_begin [OF 1, of "?get 1 3"] by (simp add: ev)
  have 3: "outage demo_cache 2 (P 7 ([?get 1 2, ?get 1 3], [1])) (\<lambda>_. None) 2"
    using outage_end [OF 2, of 0] by (simp add: ev)
  have 4: "outage demo_cache 2 (P 8 ([?get 1 2, ?get 1 3], [])) (\<lambda>_. None) 3"
    using outage_end [OF 3, of 1] by (simp add: ev)
  have 5: "outage demo_cache 2 (P 8 ([?get 1 2, ?get 1 3], [])) (\<lambda>_. None) 4"
    using outage_begin [OF 4, of "?get 4 5"] by (simp add: ev)
  have 6: "outage demo_cache 2 (P 8 ([?get 1 2, ?get 1 3, ?get 9 9], [2])) (\<lambda>_. None) 9"
    using outage_begin [OF 5, of "?get 9 9"] by (simp add: ev)
  show ?thesis
    using 6 outage_attempts [OF 6, THEN conjunct1, rule_format, of 0] by (intro exI [of _ "P 8 ([?get 1 2, ?get 1 3, ?get 9 9], [2])"] exI [of _ "\<lambda>_. None"])
      (simp add: P_def media_cache_def)
qed

end
