(* ===== verification/Monitor.thy ===== *)
theory Monitor
  imports Valkey Blobs
begin

section \<open>The task queue: configuration, retries, monitor\<close>

text \<open>
  \<open>doci/taskiq/config.py\<close>, \<open>retry.py\<close> and \<open>monitor.py\<close>.  What taskiq does around the hooks of a
  middleware is an argument: the order in which it runs \<open>on_error\<close> hooks, and whether its retry
  middleware sends a message again.  \<open>iso\<close> prints a time, \<open>dump\<close> and \<open>load\<close> are \<open>json.dumps\<close> and
  \<open>json.loads\<close>; \<open>float\<close> of a text is the argument \<open>flt\<close>.
\<close>

subsection \<open>Configuration\<close>

record taskiq_config =
  tq_broker_url :: ustr
  tq_queue_name :: ustr
  tq_consumer_group :: ustr
  tq_idle_timeout_ms :: int
  tq_stream_maxlen :: int
  tq_unack_lock_timeout :: rat
  tq_result_prefix :: ustr
  tq_result_ttl_s :: int
  tq_monitor_prefix :: ustr
  tq_monitor_ttl_s :: int
  tq_workers :: int
  tq_max_async_tasks :: int
  tq_max_threadpool_threads :: "int option"

definition taskiq_text :: "environ \<Rightarrow> string \<Rightarrow> string \<Rightarrow> ustr" where
  "taskiq_text env name dflt = (case env (lit name) of None \<Rightarrow> lit dflt | Some s \<Rightarrow> s)"

definition taskiq_int :: "unicode \<Rightarrow> environ \<Rightarrow> string \<Rightarrow> int \<Rightarrow> int option" where
  "taskiq_int U env name dflt = (case env (lit name) of None \<Rightarrow> Some dflt | Some s \<Rightarrow> py_int U s)"

definition taskiq_config_from_env :: "unicode \<Rightarrow> (ustr \<Rightarrow> rat option) \<Rightarrow> environ \<Rightarrow> taskiq_config option" where
  "taskiq_config_from_env U flt env =
     (case (map (\<lambda>(n, d). taskiq_int U env n d)
              [(''TASKIQ_IDLE_TIMEOUT_MS'', 30 * 60 * 1000), (''TASKIQ_STREAM_MAXLEN'', 10000), (''TASKIQ_RESULT_TTL_S'', 3 * 24 * 3600),
               (''TASKIQ_MONITOR_TTL_S'', 3 * 24 * 3600), (''TASKIQ_WORKERS'', 1), (''TASKIQ_MAX_ASYNC_TASKS'', 1)],
            (case env (lit ''TASKIQ_UNACK_LOCK_TIMEOUT'') of None \<Rightarrow> Some 60 | Some s \<Rightarrow> flt s),
            (case truthy (env (lit ''TASKIQ_MAX_THREADPOOL_THREADS'')) of None \<Rightarrow> Some None | Some s \<Rightarrow> map_option Some (py_int U s))) of
        ([Some idle, Some maxlen, Some rttl, Some mttl, Some w, Some a], Some lock, Some threads) \<Rightarrow>
          Some \<lparr>tq_broker_url = taskiq_text env ''TASKIQ_BROKER_URL'' ''redis://localhost:6379/1'',
                tq_queue_name = taskiq_text env ''TASKIQ_QUEUE_NAME'' ''taskiq'',
                tq_consumer_group = taskiq_text env ''TASKIQ_CONSUMER_GROUP'' ''taskiq'',
                tq_idle_timeout_ms = idle, tq_stream_maxlen = maxlen, tq_unack_lock_timeout = lock,
                tq_result_prefix = taskiq_text env ''TASKIQ_RESULT_PREFIX'' ''taskiq:result'', tq_result_ttl_s = rttl,
                tq_monitor_prefix = taskiq_text env ''TASKIQ_MONITOR_PREFIX'' ''taskmon'', tq_monitor_ttl_s = mttl,
                tq_workers = w, tq_max_async_tasks = a, tq_max_threadpool_threads = threads\<rparr>
      | _ \<Rightarrow> None)"

definition total_concurrency :: "taskiq_config \<Rightarrow> int" where
  "total_concurrency c = tq_workers c * tq_max_async_tasks c"

subsection \<open>Records in Valkey\<close>

record monitor =
  tm_prefix :: ustr
  tm_ttl :: int

definition task_key :: "monitor \<Rightarrow> ustr \<Rightarrow> ustr" where
  "task_key M tid = tm_prefix M @ lit '':task:'' @ tid"

definition index_key :: "monitor \<Rightarrow> ustr" where
  "index_key M = tm_prefix M @ lit '':index''"

definition runtime_fields :: "ustr list" where
  "runtime_fields = map lit [''started_at'', ''finished_at'', ''error'', ''error_type'', ''execution_time'']"

text \<open>The commands of one pipeline, all at the time \<open>now\<close>.\<close>

definition touch :: "rat \<Rightarrow> monitor \<Rightarrow> ustr \<Rightarrow> (ustr \<times> ustr) list \<Rightarrow> ustr list \<Rightarrow> valkey \<Rightarrow> valkey" where
  "touch now M tid mapping clear st =
     (let k = task_key M tid; i = index_key M;
          st1 = (if clear = [] then st else hdel now k clear st);
          st2 = hset now k mapping st1;
          st3 = expire now k (tm_ttl M) st2;
          st4 = zadd now i tid now st3;
          st5 = expire now i (tm_ttl M) st4
      in zremrangebyscore now i (now - of_int (tm_ttl M)) st5)"

record message =
  ms_task_id :: ustr
  ms_task_name :: ustr
  ms_args :: json
  ms_kwargs :: json
  ms_labels :: json

record texts =
  tx_iso :: "rat \<Rightarrow> ustr"
  tx_dump :: "json \<Rightarrow> ustr"
  tx_load :: "ustr \<Rightarrow> json option"

definition queued_fields :: "texts \<Rightarrow> rat \<Rightarrow> message \<Rightarrow> (ustr \<times> ustr) list" where
  "queued_fields X now m =
     [(lit ''task_id'', ms_task_id m), (lit ''task_name'', ms_task_name m), (lit ''state'', lit ''queued''),
      (lit ''args'', tx_dump X (ms_args m)), (lit ''kwargs'', tx_dump X (ms_kwargs m)), (lit ''labels'', tx_dump X (ms_labels m)),
      (lit ''queued_at'', tx_iso X now)]"

definition record_queued :: "texts \<Rightarrow> rat \<Rightarrow> monitor \<Rightarrow> message \<Rightarrow> valkey \<Rightarrow> valkey" where
  "record_queued X now M m = touch now M (ms_task_id m) (queued_fields X now m) runtime_fields"

definition running_fields :: "texts \<Rightarrow> rat \<Rightarrow> (ustr \<times> ustr) list" where
  "running_fields X now = [(lit ''state'', lit ''running''), (lit ''started_at'', tx_iso X now)]"

definition record_running :: "texts \<Rightarrow> rat \<Rightarrow> monitor \<Rightarrow> ustr \<Rightarrow> valkey \<Rightarrow> valkey" where
  "record_running X now M tid = touch now M tid (running_fields X now) []"

text \<open>\<open>took\<close> is the execution time, \<open>JReal\<close> or \<open>JNull\<close>.\<close>

definition success_fields :: "texts \<Rightarrow> rat \<Rightarrow> json \<Rightarrow> (ustr \<times> ustr) list" where
  "success_fields X now took = [(lit ''state'', lit ''success''), (lit ''finished_at'', tx_iso X now), (lit ''execution_time'', tx_dump X took)]"

definition record_success :: "texts \<Rightarrow> rat \<Rightarrow> monitor \<Rightarrow> ustr \<Rightarrow> json \<Rightarrow> valkey \<Rightarrow> valkey" where
  "record_success X now M tid took = touch now M tid (success_fields X now took) []"

text \<open>An exception: its text, the name of its type, and whether it is a \<open>TaskTimeout\<close>.\<close>

record task_exception =
  ex_text :: ustr
  ex_type :: ustr
  ex_timeout :: bool

definition failed_fields :: "texts \<Rightarrow> rat \<Rightarrow> task_exception \<Rightarrow> (ustr \<times> ustr) list" where
  "failed_fields X now e =
     [(lit ''state'', lit ''failed''), (lit ''finished_at'', tx_iso X now), (lit ''error'', ex_text e), (lit ''error_type'', ex_type e)]"

definition record_failed :: "texts \<Rightarrow> rat \<Rightarrow> monitor \<Rightarrow> ustr \<Rightarrow> task_exception \<Rightarrow> valkey \<Rightarrow> valkey" where
  "record_failed X now M tid e = touch now M tid (failed_fields X now e) []"

subsection \<open>Reading\<close>

datatype rec_value = RawText ustr | Decoded json

definition json_fields :: "ustr list" where
  "json_fields = map lit [''args'', ''kwargs'', ''labels'', ''execution_time'']"

definition parse_field :: "texts \<Rightarrow> ustr \<Rightarrow> ustr \<Rightarrow> rec_value" where
  "parse_field X f s = (if f \<in> set json_fields then (case tx_load X s of None \<Rightarrow> RawText s | Some j \<Rightarrow> Decoded j) else RawText s)"

definition parse_row :: "texts \<Rightarrow> (ustr \<times> ustr) list \<Rightarrow> (ustr \<times> rec_value) list" where
  "parse_row X row = map (\<lambda>(f, s). (f, parse_field X f s)) row"

text \<open>The loop over the index; a task whose hash has expired leaves the index.\<close>

fun list_rows ::
  "texts \<Rightarrow> rat \<Rightarrow> monitor \<Rightarrow> ustr option \<Rightarrow> (ustr \<times> (ustr \<times> ustr) list) list \<Rightarrow> valkey \<Rightarrow> (ustr \<times> rec_value) list list \<times> valkey" where
  "list_rows X now M state [] st = ([], st)"
| "list_rows X now M state ((tid, row) # rows) st =
     (if row = [] then list_rows X now M state rows (zrem now (index_key M) tid st)
      else let (out, st') = list_rows X now M state rows st
           in (if state \<noteq> None \<and> map_of row (lit ''state'') \<noteq> state then out else parse_row X row # out, st'))"

definition monitor_list ::
  "texts \<Rightarrow> rat \<Rightarrow> monitor \<Rightarrow> ustr option \<Rightarrow> nat \<Rightarrow> nat \<Rightarrow> valkey \<Rightarrow> (ustr \<times> rec_value) list list \<times> valkey" where
  "monitor_list X now M state limit offset st =
     (let ids = zrevrange now (index_key M) 999 st in
      if ids = [] then ([], st)
      else let (out, st') = list_rows X now M state (map (\<lambda>tid. (tid, hgetall now (task_key M tid) st)) ids) st
           in (take limit (drop offset out), st'))"

definition monitor_get :: "texts \<Rightarrow> rat \<Rightarrow> monitor \<Rightarrow> ustr \<Rightarrow> valkey \<Rightarrow> (ustr \<times> rec_value) list option" where
  "monitor_get X now M tid st = (let row = hgetall now (task_key M tid) st in if row = [] then None else Some (parse_row X row))"

subsection \<open>Hooks\<close>

definition post_send :: "texts \<Rightarrow> rat \<Rightarrow> monitor \<Rightarrow> message \<Rightarrow> valkey \<Rightarrow> valkey" where
  "post_send X now M m = record_queued X now M m"

definition pre_execute :: "texts \<Rightarrow> rat \<Rightarrow> monitor \<Rightarrow> message \<Rightarrow> valkey \<Rightarrow> valkey" where
  "pre_execute X now M m = record_running X now M (ms_task_id m)"

definition post_execute :: "texts \<Rightarrow> rat \<Rightarrow> monitor \<Rightarrow> message \<Rightarrow> bool \<Rightarrow> json \<Rightarrow> valkey \<Rightarrow> valkey" where
  "post_execute X now M m is_err took st = (if is_err then st else record_success X now M (ms_task_id m) took st)"

definition monitor_on_error :: "texts \<Rightarrow> rat \<Rightarrow> monitor \<Rightarrow> message \<Rightarrow> task_exception \<Rightarrow> valkey \<Rightarrow> valkey" where
  "monitor_on_error X now M m e = record_failed X now M (ms_task_id m) e"

text \<open>
  \<open>resend\<close> is what taskiq's retry middleware does with the failed message: the message it sends
  again, if any; sending runs \<open>post_send\<close>.
\<close>

definition retry_on_error ::
  "(message \<Rightarrow> message option) \<Rightarrow> texts \<Rightarrow> rat \<Rightarrow> monitor \<Rightarrow> message \<Rightarrow> task_exception \<Rightarrow> valkey \<Rightarrow> valkey" where
  "retry_on_error resend X now M m e st =
     (if ex_timeout e then st
      else case resend m of None \<Rightarrow> st | Some m' \<Rightarrow> post_send X now M m' st)"

datatype middleware = MonitorMiddleware | RetryMiddleware

fun on_errors ::
  "(message \<Rightarrow> message option) \<Rightarrow> texts \<Rightarrow> rat \<Rightarrow> monitor \<Rightarrow> message \<Rightarrow> task_exception \<Rightarrow> middleware list \<Rightarrow> valkey \<Rightarrow> valkey" where
  "on_errors resend X now M m e [] st = st"
| "on_errors resend X now M m e (MonitorMiddleware # ws) st = on_errors resend X now M m e ws (monitor_on_error X now M m e st)"
| "on_errors resend X now M m e (RetryMiddleware # ws) st = on_errors resend X now M m e ws (retry_on_error resend X now M m e st)"

text \<open>The order of \<open>broker.add_middlewares\<close>.\<close>

definition broker_middlewares :: "middleware list" where
  "broker_middlewares = [MonitorMiddleware, RetryMiddleware]"

subsection \<open>Routes\<close>

definition task_states :: "ustr list" where
  "task_states = map lit [''queued'', ''running'', ''success'', ''failed'']"

definition list_tasks ::
  "texts \<Rightarrow> rat \<Rightarrow> monitor \<Rightarrow> ustr option \<Rightarrow> int \<Rightarrow> int \<Rightarrow> valkey \<Rightarrow> (ustr \<times> rec_value) list list http \<times> valkey" where
  "list_tasks X now M state limit offset st =
     (if (case state of None \<Rightarrow> False | Some s \<Rightarrow> s \<notin> set task_states) \<or> limit < 1 \<or> 500 < limit \<or> offset < 0 then (HttpError 422, st)
      else let (items, st') = monitor_list X now M state (nat limit) (nat offset) st in (Response 200 items, st'))"

text \<open>\<open>payload\<close> is the stored result, \<open>None\<close> when the backend has none or fails.\<close>

definition get_task ::
  "texts \<Rightarrow> rat \<Rightarrow> monitor \<Rightarrow> (ustr \<Rightarrow> 'p option) \<Rightarrow> ustr \<Rightarrow> valkey \<Rightarrow> ((ustr \<times> rec_value) list \<times> 'p option option) http" where
  "get_task X now M payload tid st =
     (case monitor_get X now M tid st of
        None \<Rightarrow> HttpError 404
      | Some r \<Rightarrow> Response 200 (r, if map_of r (lit ''state'') \<in> {Some (RawText (lit ''success'')), Some (RawText (lit ''failed''))}
                                  then Some (payload tid) else None))"

text \<open>\<open>rec.get(f) or dflt\<close>.\<close>

definition rec_or :: "(ustr \<times> rec_value) list \<Rightarrow> string \<Rightarrow> json \<Rightarrow> json" where
  "rec_or r f dflt = (case map_of r (lit f) of
     None \<Rightarrow> dflt
   | Some (RawText s) \<Rightarrow> if s = [] then dflt else JStr s
   | Some (Decoded j) \<Rightarrow> if j \<in> {JNull, JBool False, JInt 0, JReal 0, JStr [], JList [], JObj []} then dflt else j)"

text \<open>A record without a \<open>task_name\<close> raises, a 500.\<close>

definition retry_task :: "texts \<Rightarrow> rat \<Rightarrow> monitor \<Rightarrow> ustr \<Rightarrow> valkey \<Rightarrow> message option http \<times> valkey" where
  "retry_task X now M tid st =
     (case monitor_get X now M tid st of
        None \<Rightarrow> (HttpError 404, st)
      | Some r \<Rightarrow>
          if map_of r (lit ''state'') \<noteq> Some (RawText (lit ''failed'')) then (HttpError 409, st)
          else case map_of r (lit ''task_name'') of
            Some (RawText name) \<Rightarrow>
              (let m = \<lparr>ms_task_id = tid, ms_task_name = name, ms_args = rec_or r ''args'' (JList []),
                        ms_kwargs = rec_or r ''kwargs'' (JObj []), ms_labels = rec_or r ''labels'' (JObj [])\<rparr>
               in (Response 200 (Some m), post_send X now M m st))
          | _ \<Rightarrow> (HttpError 500, st))"

subsection \<open>The board\<close>

text \<open>
  What the monitor promises: for every task the fields of its lifecycle and the time of its last
  change, forgotten after the time to live.
\<close>

record entry =
  en_fields :: "ustr \<Rightarrow> ustr option"
  en_last :: rat

type_synonym board = "ustr \<Rightarrow> entry option"

datatype lifecycle = Sent message | Started message | Ended message bool json | Errored message task_exception

fun hook :: "texts \<Rightarrow> monitor \<Rightarrow> rat \<times> lifecycle \<Rightarrow> valkey \<Rightarrow> valkey" where
  "hook X M (now, Sent m) st = post_send X now M m st"
| "hook X M (now, Started m) st = pre_execute X now M m st"
| "hook X M (now, Ended m is_err took) st = post_execute X now M m is_err took st"
| "hook X M (now, Errored m e) st = monitor_on_error X now M m e st"

fun change_of :: "texts \<Rightarrow> rat \<times> lifecycle \<Rightarrow> (ustr \<times> (ustr \<times> ustr) list \<times> ustr list) option" where
  "change_of X (now, Sent m) = Some (ms_task_id m, queued_fields X now m, runtime_fields)"
| "change_of X (now, Started m) = Some (ms_task_id m, running_fields X now, [])"
| "change_of X (now, Ended m is_err took) = (if is_err then None else Some (ms_task_id m, success_fields X now took, []))"
| "change_of X (now, Errored m e) = Some (ms_task_id m, failed_fields X now e, [])"

definition alive :: "int \<Rightarrow> rat \<Rightarrow> entry \<Rightarrow> bool" where
  "alive ttl t e \<longleftrightarrow> t < en_last e + of_int ttl"

definition fields_at :: "int \<Rightarrow> rat \<Rightarrow> board \<Rightarrow> ustr \<Rightarrow> ustr \<Rightarrow> ustr option" where
  "fields_at ttl t b tid = (case b tid of None \<Rightarrow> (\<lambda>_. None) | Some e \<Rightarrow> if alive ttl t e then en_fields e else (\<lambda>_. None))"

definition board_step :: "texts \<Rightarrow> int \<Rightarrow> rat \<times> lifecycle \<Rightarrow> board \<Rightarrow> board" where
  "board_step X ttl ev b = (case change_of X ev of
     None \<Rightarrow> b
   | Some (tid, mapping, clear) \<Rightarrow>
       b(tid \<mapsto> \<lparr>en_fields = (\<lambda>f. if f \<in> set clear then None else fields_at ttl (fst ev) b tid f) ++ map_of mapping, en_last = fst ev\<rparr>))"

definition board_get :: "texts \<Rightarrow> int \<Rightarrow> rat \<Rightarrow> board \<Rightarrow> ustr \<Rightarrow> (ustr \<Rightarrow> rec_value option) option" where
  "board_get X ttl t b tid = (case b tid of
     None \<Rightarrow> None
   | Some e \<Rightarrow> if alive ttl t e then Some (\<lambda>f. map_option (parse_field X f) (en_fields e f)) else None)"

subsection \<open>Lemmas\<close>

lemma monitor_keys [simp]: "task_key M a = task_key M b \<longleftrightarrow> a = b" "task_key M a \<noteq> index_key M" "index_key M \<noteq> task_key M a"
  by (simp_all add: task_key_def index_key_def lit_def)

lemma hgetall_live: "live_slot t k st = live_slot t' k' st' \<Longrightarrow> hgetall t k st = hgetall t' k' st'"
  by (simp add: hgetall_def)

lemma zmembers_live: "live_slot t k st = live_slot t' k' st' \<Longrightarrow> zmembers t k st = zmembers t' k' st'"
  by (simp add: zmembers_def)

lemma touch_hash:
  assumes "0 < tm_ttl M" "now \<le> t"
  shows "hgetall t (task_key M tid) (touch now M tid mapping clear st) = (if t < now + of_int (tm_ttl M)
    then fold (\<lambda>(f, v). AList.update f v) mapping (filter (\<lambda>(f, v). f \<notin> set clear) (hgetall now (task_key M tid) st)) else [])"
proof -
  let ?k = "task_key M tid" and ?st1 = "if clear = [] then st else hdel now (task_key M tid) clear st"
  have "hgetall t ?k (touch now M tid mapping clear st) = hgetall t ?k (expire now ?k (tm_ttl M) (hset now ?k mapping ?st1))"
    by (rule hgetall_live) (simp add: touch_def Let_def zremrangebyscore_def valkey_simps)
  then show ?thesis using assms by (simp add: hset_expire hgetall_hdel)
qed

lemma touch_other: "a \<noteq> tid \<Longrightarrow> hgetall t (task_key M a) (touch now M tid mapping clear st) = hgetall t (task_key M a) st"
  by (rule hgetall_live) (simp add: touch_def Let_def zremrangebyscore_def valkey_simps)

lemma touch_index:
  assumes "0 < tm_ttl M" "now \<le> t"
  shows "zmembers t (index_key M) (touch now M tid mapping clear st) = (if t < now + of_int (tm_ttl M)
    then filter (\<lambda>(x, s). now - of_int (tm_ttl M) < s) (AList.update tid now (zmembers now (index_key M) st)) else [])"
proof -
  have "zmembers now (index_key M) (expire now (task_key M tid) (tm_ttl M)
      (hset now (task_key M tid) mapping (if clear = [] then st else hdel now (task_key M tid) clear st))) = zmembers now (index_key M) st"
    by (rule zmembers_live) (simp add: valkey_simps)
  then show ?thesis using zadd_trimmed [OF assms] by (simp add: touch_def Let_def)
qed

lemma hook_touch:
  "hook X M ev st = (case change_of X ev of None \<Rightarrow> st | Some (tid, mapping, clear) \<Rightarrow> touch (fst ev) M tid mapping clear st)"
  by (cases "(X, ev)" rule: change_of.cases)
    (simp_all add: post_send_def pre_execute_def post_execute_def monitor_on_error_def record_queued_def record_running_def record_success_def record_failed_def)

lemma change_fields:
  "change_of X ev = Some (tid, mapping, clear) \<Longrightarrow> distinct (map fst mapping) \<and> mapping \<noteq> []"
  by (cases "(X, ev)" rule: change_of.cases)
    (auto simp: queued_fields_def running_fields_def success_fields_def failed_fields_def lit_eq split: if_splits)

lemma fields_distinct [simp]:
  "distinct (map fst (queued_fields X now m))" "distinct (map fst (running_fields X now))"
  "distinct (map fst (success_fields X now took))" "distinct (map fst (failed_fields X now e))"
  by (simp_all add: queued_fields_def running_fields_def success_fields_def failed_fields_def lit_eq)

lemma map_of_filter_keys: "map_of (filter (\<lambda>(f, v). f \<notin> A) h) = (\<lambda>f. if f \<in> A then None else map_of h f)"
  by (induction h) (auto simp: fun_eq_iff)

lemma map_of_filter_values:
  "distinct (map fst h) \<Longrightarrow> map_of (filter (\<lambda>(f, v). Q v) h) = (\<lambda>f. case map_of h f of None \<Rightarrow> None | Some v \<Rightarrow> if Q v then Some v else None)"
proof (induction h)
  case (Cons a h)
  obtain f v where a: "a = (f, v)" by fastforce
  have "map_of h f = None" using Cons.prems by (simp add: a map_of_eq_None_iff)
  then show ?case using Cons by (auto simp: a fun_eq_iff)
qed simp

text \<open>How the database represents a board at every time from \<open>T\<close> on; \<open>zs\<close> is the index, last written at \<open>u\<close>.\<close>

definition hashes_rep :: "monitor \<Rightarrow> rat \<Rightarrow> valkey \<Rightarrow> board \<Rightarrow> bool" where
  "hashes_rep M T st b \<longleftrightarrow> (\<forall>tid t. T \<le> t \<longrightarrow> map_of (hgetall t (task_key M tid) st) = fields_at (tm_ttl M) t b tid
     \<and> (hgetall t (task_key M tid) st = [] \<longleftrightarrow> (\<forall>e. b tid = Some e \<longrightarrow> \<not> alive (tm_ttl M) t e)))"

definition index_rep :: "monitor \<Rightarrow> rat \<Rightarrow> valkey \<Rightarrow> board \<Rightarrow> rat \<Rightarrow> (ustr \<times> rat) list \<Rightarrow> bool" where
  "index_rep M T st b u zs \<longleftrightarrow> u \<le> T \<and> (\<forall>t \<ge> T. zmembers t (index_key M) st = (if t < u + of_int (tm_ttl M) then zs else []))
     \<and> distinct (map fst zs) \<and> (\<forall>tid e. b tid = Some e \<longrightarrow> en_last e \<le> u)
     \<and> map_of zs = (\<lambda>tid. case b tid of None \<Rightarrow> None | Some e \<Rightarrow> if u - of_int (tm_ttl M) < en_last e then Some (en_last e) else None)"

lemma hashes_step:
  assumes "0 < tm_ttl M" "hashes_rep M T st b" "T \<le> fst ev"
  shows "hashes_rep M (fst ev) (hook X M ev st) (board_step X (tm_ttl M) ev b)"
proof (cases "change_of X ev")
  case None
  then show ?thesis using assms(2,3) by (auto simp: hook_touch board_step_def hashes_rep_def)
next
  case (Some c)
  obtain tid mapping clear where c: "c = (tid, mapping, clear)" by (cases c)
  note m = change_fields [OF Some [unfolded c]]
  let ?now = "fst ev" and ?h = "hgetall (fst ev) (task_key M tid) st"
  let ?new = "fold (\<lambda>(f, v). AList.update f v) mapping (filter (\<lambda>(f, v). f \<notin> set clear) ?h)"
  have old: "map_of ?h = fields_at (tm_ttl M) ?now b tid" using assms(2,3) by (simp add: hashes_rep_def)
  have new: "map_of ?new = (\<lambda>f. if f \<in> set clear then None else fields_at (tm_ttl M) ?now b tid f) ++ map_of mapping"
    using m by (simp add: map_of_fields map_of_filter_keys old cong: if_cong)
  have "map_of mapping (fst (hd mapping)) \<noteq> None" using m by (cases mapping) (auto simp: map_of_eq_None_iff)
  then obtain f v where "map_of mapping f = Some v" by blast
  then have "map_of ?new f = Some v" by (simp add: new map_add_Some_iff)
  then have ne: "?new \<noteq> []" by auto
  show ?thesis unfolding hashes_rep_def
  proof (intro allI impI)
    fix a t
    assume t: "?now \<le> t"
    show "map_of (hgetall t (task_key M a) (hook X M ev st)) = fields_at (tm_ttl M) t (board_step X (tm_ttl M) ev b) a
      \<and> (hgetall t (task_key M a) (hook X M ev st) = [] \<longleftrightarrow> (\<forall>e. board_step X (tm_ttl M) ev b a = Some e \<longrightarrow> \<not> alive (tm_ttl M) t e))"
    proof (cases "a = tid")
      case True
      then show ?thesis using ne new t
        by (simp add: hook_touch Some c touch_hash [OF assms(1) t] board_step_def fields_at_def [of _ t] alive_def)
    next
      case False
      then show ?thesis using assms(2,3) t
        by (simp add: hook_touch Some c touch_other board_step_def hashes_rep_def fields_at_def)
    qed
  qed
qed

lemma index_step:
  assumes "0 < tm_ttl M" "index_rep M T st b u zs" "T \<le> fst ev"
  shows "\<exists>u' zs'. index_rep M (fst ev) (hook X M ev st) (board_step X (tm_ttl M) ev b) u' zs'"
proof (cases "change_of X ev")
  case None
  then have "index_rep M (fst ev) (hook X M ev st) (board_step X (tm_ttl M) ev b) u zs"
    using assms(2,3) by (auto simp: hook_touch board_step_def index_rep_def)
  then show ?thesis by blast
next
  case (Some c)
  obtain tid mapping clear where c: "c = (tid, mapping, clear)" by (cases c)
  let ?now = "fst ev" and ?ttl = "of_int (tm_ttl M) :: rat"
  let ?z = "zmembers ?now (index_key M) st"
  let ?zs = "filter (\<lambda>(x, s). ?now - ?ttl < s) (AList.update tid ?now ?z)"
  have z: "?z = (if ?now < u + ?ttl then zs else [])" and u: "u \<le> ?now" and d: "distinct (map fst zs)"
    and l: "\<And>a e. b a = Some e \<Longrightarrow> en_last e \<le> u"
    and zs: "map_of zs = (\<lambda>a. case b a of None \<Rightarrow> None | Some e \<Rightarrow> if u - ?ttl < en_last e then Some (en_last e) else None)"
    using assms(2,3) by (auto simp: index_rep_def)
  have du: "distinct (map fst (AList.update tid ?now ?z))" using d z by (intro distinct_update) auto
  have "map_of ?zs a = (case board_step X (tm_ttl M) ev b a of None \<Rightarrow> None | Some e \<Rightarrow> if ?now - ?ttl < en_last e then Some (en_last e) else None)" for a
  proof (cases "a = tid")
    case True
    then show ?thesis using assms(1) by (simp add: map_of_filter_values [OF du] update_conv' board_step_def Some c)
  next
    case False
    then have "map_of ?zs a = (case map_of ?z a of None \<Rightarrow> None | Some s \<Rightarrow> if ?now - ?ttl < s then Some s else None)"
      by (simp add: map_of_filter_values [OF du] update_conv')
    moreover have "\<not> ?now - ?ttl < en_last e" if "b a = Some e" "\<not> ?now < u + ?ttl" for e using l [OF that(1)] that(2) by simp
    moreover have "u - ?ttl < en_last e" if "?now - ?ttl < en_last e" for e using that u by simp
    ultimately show ?thesis using False by (auto simp: z zs board_step_def Some c split: option.split)
  qed
  moreover have "distinct (map fst ?zs)" using distinct_map_filter [OF du] .
  ultimately have "index_rep M ?now (hook X M ev st) (board_step X (tm_ttl M) ev b) ?now ?zs"
    using l u by (fastforce simp: index_rep_def hook_touch Some c touch_index [OF assms(1)] board_step_def fun_eq_iff)
  then show ?thesis by blast
qed

definition run_hooks :: "texts \<Rightarrow> monitor \<Rightarrow> (rat \<times> lifecycle) list \<Rightarrow> valkey \<Rightarrow> valkey" where
  "run_hooks X M evs st = fold (hook X M) evs st"

definition run_board :: "texts \<Rightarrow> int \<Rightarrow> (rat \<times> lifecycle) list \<Rightarrow> board \<Rightarrow> board" where
  "run_board X ttl evs b = fold (board_step X ttl) evs b"

lemma run_rep:
  assumes "0 < tm_ttl M" "hashes_rep M T st b" "index_rep M T st b u zs" "sorted (map fst evs)" "\<forall>e \<in> set evs. T \<le> fst e \<and> fst e \<le> t" "T \<le> t"
  shows "hashes_rep M t (run_hooks X M evs st) (run_board X (tm_ttl M) evs b)
    \<and> (\<exists>u zs. index_rep M t (run_hooks X M evs st) (run_board X (tm_ttl M) evs b) u zs)"
  using assms(2-)
proof (induction evs arbitrary: T st b u zs)
  case Nil
  then have "index_rep M t st b u zs" by (auto simp: index_rep_def)
  with Nil show ?case by (auto simp: run_hooks_def run_board_def hashes_rep_def)
next
  case (Cons ev evs)
  from index_step [OF assms(1) Cons.prems(2), of ev X] Cons.prems(4)
  obtain u' zs' where "index_rep M (fst ev) (hook X M ev st) (board_step X (tm_ttl M) ev b) u' zs'" by auto
  from Cons.IH [OF hashes_step [OF assms(1) Cons.prems(1)] this] Cons.prems(3,4)
  show ?case by (auto simp: run_hooks_def run_board_def)
qed

lemma empty_rep: "hashes_rep M T (\<lambda>_. None) (\<lambda>_. None)" "index_rep M T (\<lambda>_. None) (\<lambda>_. None) T []"
  by (simp_all add: hashes_rep_def index_rep_def hgetall_def zmembers_def live_slot_def fields_at_def)

lemma run_from_empty:
  assumes "0 < tm_ttl M" "sorted (map fst evs)" "\<And>ev. ev \<in> set evs \<Longrightarrow> fst ev \<le> t"
  shows "hashes_rep M t (run_hooks X M evs (\<lambda>_. None)) (run_board X (tm_ttl M) evs (\<lambda>_. None))"
    and "\<exists>u zs. index_rep M t (run_hooks X M evs (\<lambda>_. None)) (run_board X (tm_ttl M) evs (\<lambda>_. None)) u zs"
proof -
  let ?T = "if evs = [] then t else fst (hd evs)"
  have "\<forall>ev \<in> set evs. ?T \<le> fst ev" using assms(2) by (cases evs) auto
  moreover have "?T \<le> t" using assms(3) by (cases evs) auto
  ultimately show "hashes_rep M t (run_hooks X M evs (\<lambda>_. None)) (run_board X (tm_ttl M) evs (\<lambda>_. None))"
    and "\<exists>u zs. index_rep M t (run_hooks X M evs (\<lambda>_. None)) (run_board X (tm_ttl M) evs (\<lambda>_. None)) u zs"
    using run_rep [OF assms(1) empty_rep assms(2), where t = t and X = X and T = ?T] assms(3) by auto
qed

lemma map_of_parse_row: "map_of (parse_row X row) = (\<lambda>f. map_option (parse_field X f) (map_of row f))"
  by (induction row) (auto simp: parse_row_def fun_eq_iff)

lemma hashes_rep_get:
  "hashes_rep M t st b \<Longrightarrow> map_option map_of (monitor_get X t M tid st) = board_get X (tm_ttl M) t b tid"
  by (auto simp: monitor_get_def Let_def hashes_rep_def board_get_def fields_at_def map_of_parse_row fun_eq_iff split: option.split)

text \<open>
  C8.  The records in the database implement the board.  After any sequence of lifecycle events, the
  record the monitor reads for a task is the board's: the fields the events of that task wrote, those a
  new submission clears removed, and nothing once the time to live has passed since its last event.
\<close>

theorem monitor_refines_board:
  assumes "0 < tm_ttl M" and "sorted (map fst evs)" and "\<And>ev. ev \<in> set evs \<Longrightarrow> fst ev \<le> t"
  shows "map_option map_of (monitor_get X t M tid (run_hooks X M evs (\<lambda>_. None)))
    = board_get X (tm_ttl M) t (run_board X (tm_ttl M) evs (\<lambda>_. None)) tid"
  using run_from_empty(1) [OF assms] by (rule hashes_rep_get)

subsection \<open>Listing\<close>

fun event_task :: "lifecycle \<Rightarrow> ustr" where
  "event_task (Sent m) = ms_task_id m"
| "event_task (Started m) = ms_task_id m"
| "event_task (Ended m is_err took) = ms_task_id m"
| "event_task (Errored m e) = ms_task_id m"

lemma run_board_dom: "dom (run_board X ttl evs b) \<subseteq> dom b \<union> (event_task \<circ> snd) ` set evs"
proof (induction evs arbitrary: b)
  case (Cons ev evs)
  have "dom (board_step X ttl ev b) \<subseteq> insert (event_task (snd ev)) (dom b)"
    by (cases "(X, ev)" rule: change_of.cases) (auto simp: board_step_def)
  with Cons [of "board_step X ttl ev b"] show ?case by (auto simp: run_board_def)
qed (simp add: run_board_def)

lemma list_rows_out:
  "fst (list_rows X now M state rows st)
     = map (\<lambda>(tid, row). parse_row X row) (filter (\<lambda>(tid, row). row \<noteq> [] \<and> (state = None \<or> map_of row (lit ''state'') = state)) rows)"
  by (induction X now M state rows st rule: list_rows.induct) (auto split: prod.splits)

text \<open>The index lists the tasks newest first.\<close>

definition newer :: "board \<Rightarrow> ustr \<Rightarrow> ustr \<Rightarrow> bool" where
  "newer b x y \<longleftrightarrow> (en_last (the (b y)), y) < (en_last (the (b x)), x)"

lemma zrevrange_newest:
  assumes "index_rep M T st b u zs" "T \<le> t" "t < u + of_int (tm_ttl M)" "length zs \<le> Suc n"
  shows "sorted_wrt (newer b) (zrevrange t (index_key M) n st) \<and> set (zrevrange t (index_key M) n st) = fst ` set zs"
proof -
  let ?s = "sort_key (\<lambda>(m, s). (s, m)) zs" and ?key = "\<lambda>m. (en_last (the (b m)), m)"
  have z: "zmembers t (index_key M) st = zs" and d: "distinct (map fst zs)" using assms(1-3) by (auto simp: index_rep_def)
  have k: "(\<lambda>(m, s). (s, m)) x = ?key (fst x)" if "x \<in> set zs" for x
  proof -
    have "map_of zs (fst x) = Some (snd x)" using that d by (simp add: map_of_eq_Some_iff)
    then show ?thesis using assms(1) by (auto simp: index_rep_def split: option.splits if_splits prod.split)
  qed
  have "map (\<lambda>(m, s). (s, m)) ?s = map ?key (map fst ?s)" using k by (auto simp: map_eq_conv)
  then have "sorted (map ?key (map fst ?s))" by (metis sorted_sort_key)
  moreover have "distinct (map ?key (map fst ?s))"
  proof -
    have "distinct (map fst ?s)" using d by (simp add: distinct_map)
    then show ?thesis by (simp add: distinct_map inj_on_def)
  qed
  ultimately have "sorted_wrt (\<lambda>x y. ?key x < ?key y) (map fst ?s)"
    using strict_sorted_iff [of "map ?key (map fst ?s)"] by (simp only: sorted_wrt_map)
  moreover have "newer b = (\<lambda>x y. ?key y < ?key x)" by (intro ext) (simp only: newer_def)
  ultimately have "sorted_wrt (newer b) (map fst (rev ?s))" by (simp only: rev_map [symmetric] sorted_wrt_rev)
  then show ?thesis using assms(4) by (simp add: zrevrange_def z)
qed

text \<open>
  The listing shows exactly the tasks that are alive.  As long as at most 1000 tasks were ever
  recorded, the page returned is a slice of the records of all living tasks in the requested state,
  newest first, however many hashes expired under the index.
\<close>

theorem monitor_list_live:
  assumes "0 < tm_ttl M" and "sorted (map fst evs)" and "\<And>ev. ev \<in> set evs \<Longrightarrow> fst ev \<le> t"
    and "card ((event_task \<circ> snd) ` set evs) \<le> 1000" and "b = run_board X (tm_ttl M) evs (\<lambda>_. None)"
  shows "\<exists>ids. sorted_wrt (newer b) ids \<and> set ids = {tid. board_get X (tm_ttl M) t b tid \<noteq> None}
    \<and> map map_of (fst (monitor_list X t M state limit offset (run_hooks X M evs (\<lambda>_. None))))
      = take limit (drop offset (filter (\<lambda>r. state = None \<or> r (lit ''state'') = map_option RawText state)
          (map (\<lambda>tid. the (board_get X (tm_ttl M) t b tid)) ids)))"
proof -
  let ?st = "run_hooks X M evs (\<lambda>_. None)"
  obtain u zs where h: "hashes_rep M t ?st b" and i: "index_rep M t ?st b u zs"
    using run_from_empty [OF assms(1-3), of X] assms(5) by blast
  let ?row = "\<lambda>tid. hgetall t (task_key M tid) ?st" and ?ids = "zrevrange t (index_key M) 999 ?st"
  let ?live = "filter (\<lambda>tid. ?row tid \<noteq> []) ?ids"
  have live: "?row tid \<noteq> [] \<longleftrightarrow> board_get X (tm_ttl M) t b tid \<noteq> None" for tid
    using h by (auto simp: hashes_rep_def board_get_def split: option.split)
  have get: "the (board_get X (tm_ttl M) t b tid) = map_of (parse_row X (?row tid))" if "?row tid \<noteq> []" for tid
    using hashes_rep_get [OF h, of X tid] that by (simp add: monitor_get_def Let_def) (metis option.sel)
  have ids: "sorted_wrt (newer b) ?ids \<and> (\<forall>tid. board_get X (tm_ttl M) t b tid \<noteq> None \<longrightarrow> tid \<in> set ?ids)"
  proof (cases "t < u + of_int (tm_ttl M)")
    case True
    have "fst ` set zs \<subseteq> dom b" using i by (auto simp: index_rep_def fun_eq_iff dom_map_of_conv_image_fst [symmetric] split: option.splits)
    also have "\<dots> \<subseteq> (event_task \<circ> snd) ` set evs" using run_board_dom [of X "tm_ttl M" evs "\<lambda>_. None"] assms(5) by auto
    finally have "card (fst ` set zs) \<le> 1000" using assms(4) card_mono by (metis List.finite_set finite_imageI order_trans)
    moreover have "distinct (map fst zs)" using i by (simp add: index_rep_def)
    ultimately have "length zs \<le> Suc 999" using distinct_card by fastforce
    note z = zrevrange_newest [OF i order_refl True this]
    have "tid \<in> fst ` set zs" if alive: "board_get X (tm_ttl M) t b tid \<noteq> None" for tid
    proof -
      obtain e where e: "b tid = Some e" "t < en_last e + of_int (tm_ttl M)"
        using alive by (auto simp: board_get_def alive_def split: option.splits if_splits)
      have "u \<le> t" using i by (simp add: index_rep_def)
      then have "map_of zs tid = Some (en_last e)" using i e by (simp add: index_rep_def)
      then show ?thesis by (metis domI dom_map_of_conv_image_fst)
    qed
    with z show ?thesis by blast
  next
    case False
    have "board_get X (tm_ttl M) t b tid = None" for tid
      using i False by (auto simp: index_rep_def board_get_def alive_def split: option.split) (meson add_right_mono not_less order_trans)
    moreover have "?ids = []" using i False by (simp add: zrevrange_def index_rep_def)
    ultimately show ?thesis by simp
  qed
  have s: "sorted_wrt (newer b) ?live" using ids by (simp add: sorted_wrt_filter)
  have m: "set ?live = {tid. board_get X (tm_ttl M) t b tid \<noteq> None}" using ids live by auto
  have "fst (list_rows X t M state (map (\<lambda>tid. (tid, ?row tid)) ?ids) ?st)
      = map (\<lambda>tid. parse_row X (?row tid)) (filter (\<lambda>tid. state = None \<or> map_of (?row tid) (lit ''state'') = state) ?live)"
    by (simp add: list_rows_out filter_map o_def conj_commute)
  moreover have "map_of (parse_row X (?row tid)) (lit ''state'') = map_option RawText state
      \<longleftrightarrow> map_of (?row tid) (lit ''state'') = state" for tid
    by (cases "map_of (?row tid) (lit ''state'')"; cases state) (auto simp: map_of_parse_row parse_field_def json_fields_def lit_eq)
  ultimately have "map map_of (fst (list_rows X t M state (map (\<lambda>tid. (tid, ?row tid)) ?ids) ?st))
      = filter (\<lambda>r. state = None \<or> r (lit ''state'') = map_option RawText state) (map (\<lambda>tid. map_of (parse_row X (?row tid))) ?live)"
    by (simp add: filter_map o_def)
  also have "map (\<lambda>tid. map_of (parse_row X (?row tid))) ?live = map (\<lambda>tid. the (board_get X (tm_ttl M) t b tid)) ?live"
    by (rule map_cong [OF refl]) (simp add: get)
  finally have "map map_of (fst (monitor_list X t M state limit offset ?st)) = take limit (drop offset
      (filter (\<lambda>r. state = None \<or> r (lit ''state'') = map_option RawText state) (map (\<lambda>tid. the (board_get X (tm_ttl M) t b tid)) ?live)))"
    by (auto simp: monitor_list_def Let_def take_map [symmetric] drop_map [symmetric] split: prod.split)
  with s m show ?thesis by blast
qed

subsection \<open>Failures, retries and races\<close>

definition task_field :: "texts \<Rightarrow> rat \<Rightarrow> monitor \<Rightarrow> ustr \<Rightarrow> string \<Rightarrow> valkey \<Rightarrow> rec_value option" where
  "task_field X t M tid f st = (case monitor_get X t M tid st of None \<Rightarrow> None | Some r \<Rightarrow> map_of r (lit f))"

lemma task_field_row: "task_field X t M tid f st = map_option (parse_field X (lit f)) (map_of (hgetall t (task_key M tid) st) (lit f))"
  by (simp add: task_field_def monitor_get_def Let_def map_of_parse_row)

lemma touch_field:
  assumes "0 < tm_ttl M" "now \<le> t" "t < now + of_int (tm_ttl M)" "distinct (map fst mapping)"
  shows "map_of (hgetall t (task_key M tid) (touch now M tid mapping clear st))
    = (\<lambda>f. if f \<in> set clear then None else map_of (hgetall now (task_key M tid) st) f) ++ map_of mapping"
  using assms by (simp add: touch_hash map_of_fields map_of_filter_keys)

lemmas mark_defs = post_send_def pre_execute_def post_execute_def monitor_on_error_def record_queued_def record_running_def record_success_def
  record_failed_def queued_fields_def running_fields_def success_fields_def failed_fields_def

lemmas record_texts = lit_eq runtime_fields_def json_fields_def parse_field_def

lemma mark_state:
  assumes "0 < tm_ttl M" "now \<le> t" "t < now + of_int (tm_ttl M)"
  shows "task_field X t M (ms_task_id m) ''state'' (post_send X now M m st) = Some (RawText (lit ''queued''))"
    and "task_field X t M (ms_task_id m) ''state'' (monitor_on_error X now M m e st) = Some (RawText (lit ''failed''))"
    and "task_field X t M (ms_task_id m) ''state'' (post_execute X now M m False took st) = Some (RawText (lit ''success''))"
    and "task_field X t M (ms_task_id m) ''started_at'' (post_send X now M m st) = None"
  using assms by (simp_all add: task_field_row mark_defs touch_field record_texts map_add_def)

text \<open>
  C26.  The order of the middlewares decides what a failed task looks like.  With the monitor before
  the retry middleware, as the broker registers them, a failure that is sent again ends queued and a
  terminal one, a timeout included, ends failed; in the other order every failure ends failed although
  the task runs again.
\<close>

theorem on_error_order:
  assumes "0 < tm_ttl M" and "now \<le> t" and "t < now + of_int (tm_ttl M)"
    and "\<And>m'. resend m = Some m' \<Longrightarrow> ms_task_id m' = ms_task_id m"
  shows "task_field X t M (ms_task_id m) ''state'' (on_errors resend X now M m e broker_middlewares st)
      = Some (RawText (if ex_timeout e \<or> resend m = None then lit ''failed'' else lit ''queued''))
    \<and> task_field X t M (ms_task_id m) ''state'' (on_errors resend X now M m e (rev broker_middlewares) st) = Some (RawText (lit ''failed''))"
proof (cases "ex_timeout e \<or> resend m = None")
  case True
  then show ?thesis using mark_state [OF assms(1-3)] by (auto simp: broker_middlewares_def retry_on_error_def)
next
  case False
  then obtain m' where m': "resend m = Some m'" "\<not> ex_timeout e" by auto
  then show ?thesis using mark_state [OF assms(1-3)] mark_state(1) [OF assms(1-3), of X m'] assms(4) [OF m'(1)]
    by (simp add: broker_middlewares_def retry_on_error_def)
qed

text \<open>
  C33.  A submission recorded late hides the run.  The sender records \<open>queued\<close> after the message is
  on its way; when the worker has run the task by then, the record says queued, without a start time,
  until it expires, and only when the marks arrive in order does it say success.
\<close>

theorem late_submission_mark:
  assumes "0 < tm_ttl M" and "c \<le> t" and "t < c + of_int (tm_ttl M)"
  shows "task_field X t M (ms_task_id m) ''state'' (run_hooks X M [(a, Started m), (b, Ended m False took), (c, Sent m)] st) = Some (RawText (lit ''queued''))
    \<and> task_field X t M (ms_task_id m) ''started_at'' (run_hooks X M [(a, Started m), (b, Ended m False took), (c, Sent m)] st) = None
    \<and> task_field X t M (ms_task_id m) ''state'' (run_hooks X M [(a, Sent m), (b, Started m), (c, Ended m False took)] st) = Some (RawText (lit ''success''))"
  using mark_state [OF assms] by (simp add: run_hooks_def)

text \<open>The record of a task that was sent, started and has failed.\<close>

lemma failed_record:
  assumes "0 < tm_ttl M" "a \<le> b" "b \<le> c" "c \<le> t" "t < a + of_int (tm_ttl M)"
  shows "map_of (hgetall t (task_key M (ms_task_id m)) (run_hooks X M [(a, Sent m), (b, Started m), (c, Errored m e)] st))
    = ((\<lambda>f. if f \<in> set runtime_fields then None else map_of (hgetall a (task_key M (ms_task_id m)) st) f) ++ map_of (queued_fields X a m)
        ++ map_of (running_fields X b)) ++ map_of (failed_fields X c e)"
proof -
  have "b < a + of_int (tm_ttl M)" "c < a + of_int (tm_ttl M)" "c < b + of_int (tm_ttl M)" "t < c + of_int (tm_ttl M)" using assms by linarith+
  then show ?thesis using assms
    by (simp add: run_hooks_def post_send_def pre_execute_def monitor_on_error_def record_queued_def record_running_def record_failed_def touch_field)
qed

text \<open>
  Retrying sends the task that failed.  The retry route refuses an unknown task with 404 and one
  that is not failed with 409, changing nothing; for a task that was sent, started and failed it sends
  the same task name, arguments and labels under the same id, and the record is queued again with the
  traces of the failed run removed.
\<close>

theorem retry_task_roundtrip:
  assumes "0 < tm_ttl M" and "a \<le> b" and "b \<le> c" and "c \<le> now" and "now < a + of_int (tm_ttl M)"
    and "\<And>j. j \<in> {ms_args m, ms_kwargs m, ms_labels m} \<Longrightarrow> tx_load X (tx_dump X j) = Some j"
    and "ms_args m = JList xs" and "ms_kwargs m = JObj kvs" and "ms_labels m = JObj ls"
    and "st' = run_hooks X M [(a, Sent m), (b, Started m), (c, Errored m e)] st"
  shows "fst (retry_task X now M (ms_task_id m) st') = Response 200 (Some m)
    \<and> task_field X now M (ms_task_id m) ''state'' (snd (retry_task X now M (ms_task_id m) st')) = Some (RawText (lit ''queued''))
    \<and> task_field X now M (ms_task_id m) ''error'' (snd (retry_task X now M (ms_task_id m) st')) = None
    \<and> (monitor_get X now M tid st'' = None \<longrightarrow> retry_task X now M tid st'' = (HttpError 404, st''))
    \<and> (task_field X now M tid ''state'' st'' \<notin> {None, Some (RawText (lit ''failed''))} \<longrightarrow> retry_task X now M tid st'' = (HttpError 409, st''))"
proof -
  let ?tid = "ms_task_id m" and ?row = "hgetall now (task_key M (ms_task_id m)) st'"
  note row = failed_record [OF assms(1-5), of m X e st, folded assms(10)]
  have get: "monitor_get X now M ?tid st' = Some (parse_row X ?row)" "?row \<noteq> []"
  proof -
    have "map_of ?row (lit ''state'') = Some (lit ''failed'')" by (simp add: row failed_fields_def lit_eq map_add_def)
    then show "?row \<noteq> []" by auto
    then show "monitor_get X now M ?tid st' = Some (parse_row X ?row)" by (simp add: monitor_get_def Let_def)
  qed
  have fields: "map_of (parse_row X ?row) (lit ''state'') = Some (RawText (lit ''failed''))"
    "map_of (parse_row X ?row) (lit ''task_name'') = Some (RawText (ms_task_name m))"
    "map_of (parse_row X ?row) (lit ''args'') = Some (Decoded (ms_args m))"
    "map_of (parse_row X ?row) (lit ''kwargs'') = Some (Decoded (ms_kwargs m))"
    "map_of (parse_row X ?row) (lit ''labels'') = Some (Decoded (ms_labels m))"
    by (simp_all add: map_of_parse_row row queued_fields_def running_fields_def failed_fields_def map_add_def record_texts assms(6))
  have "rec_or (parse_row X ?row) ''args'' (JList []) = ms_args m" "rec_or (parse_row X ?row) ''kwargs'' (JObj []) = ms_kwargs m"
    "rec_or (parse_row X ?row) ''labels'' (JObj []) = ms_labels m"
    using fields assms(7-9) by (auto simp: rec_or_def)
  then have "retry_task X now M ?tid st' = (Response 200 (Some \<lparr>ms_task_id = ms_task_id m, ms_task_name = ms_task_name m,
        ms_args = ms_args m, ms_kwargs = ms_kwargs m, ms_labels = ms_labels m\<rparr>),
      post_send X now M \<lparr>ms_task_id = ms_task_id m, ms_task_name = ms_task_name m,
        ms_args = ms_args m, ms_kwargs = ms_kwargs m, ms_labels = ms_labels m\<rparr> st')"
    using fields by (simp add: retry_task_def get Let_def)
  moreover have "\<lparr>ms_task_id = ms_task_id m, ms_task_name = ms_task_name m, ms_args = ms_args m, ms_kwargs = ms_kwargs m, ms_labels = ms_labels m\<rparr> = m"
    by (cases m) simp
  ultimately have r: "retry_task X now M ?tid st' = (Response 200 (Some m), post_send X now M m st')" by metis
  have ttl: "now < now + of_int (tm_ttl M)" using assms(1) by simp
  have "task_field X now M ?tid ''error'' (post_send X now M m st') = None"
    using assms(1) ttl by (simp add: task_field_row mark_defs touch_field record_texts map_add_def)
  moreover have "task_field X now M tid ''state'' st'' \<notin> {None, Some (RawText (lit ''failed''))} \<Longrightarrow> retry_task X now M tid st'' = (HttpError 409, st'')"
    by (auto simp: task_field_def retry_task_def split: option.splits)
  ultimately show ?thesis using r mark_state(1) [OF assms(1) order_refl ttl] by (simp add: retry_task_def)
qed

subsection \<open>Witnesses\<close>

definition demo_monitor :: monitor where
  "demo_monitor = \<lparr>tm_prefix = lit ''taskmon'', tm_ttl = 100\<rparr>"

definition demo_message :: message where
  "demo_message = \<lparr>ms_task_id = [49], ms_task_name = lit ''mine'', ms_args = JList [], ms_kwargs = JObj [], ms_labels = JObj []\<rparr>"

definition demo_texts :: texts where
  "demo_texts = \<lparr>tx_iso = (\<lambda>t. [48]), tx_dump = (\<lambda>j. if j = JList [] then lit ''[]'' else lit ''{}''),
     tx_load = (\<lambda>s. if s = lit ''[]'' then Some (JList []) else if s = lit ''{}'' then Some (JObj []) else None)\<rparr>"

definition demo_events :: "(rat \<times> lifecycle) list" where
  "demo_events = [(1, Sent demo_message), (2, Started demo_message), (3, Ended demo_message False JNull)]"

lemma demo_events_ok:
  "0 < tm_ttl demo_monitor" "tm_ttl demo_monitor = 100" "sorted (map fst demo_events)" "\<And>ev. ev \<in> set demo_events \<Longrightarrow> fst ev \<le> 4"
  "card ((event_task \<circ> snd) ` set demo_events) \<le> 1000"
  by (auto simp: demo_monitor_def demo_events_def)

theorem monitor_refines_board_witness:
  "map_option map_of (monitor_get demo_texts 4 demo_monitor [49] (run_hooks demo_texts demo_monitor demo_events (\<lambda>_. None)))
    = board_get demo_texts 100 4 (run_board demo_texts 100 demo_events (\<lambda>_. None)) [49]"
  using monitor_refines_board [OF demo_events_ok(1,3,4), of demo_texts "[49]"] unfolding demo_events_ok(2) by simp

theorem monitor_list_live_witness:
  "\<exists>ids. set ids = {tid. board_get demo_texts 100 4 (run_board demo_texts 100 demo_events (\<lambda>_. None)) tid \<noteq> None}
    \<and> length (fst (monitor_list demo_texts 4 demo_monitor None 50 0 (run_hooks demo_texts demo_monitor demo_events (\<lambda>_. None)))) = min 50 (length ids)"
proof -
  obtain ids where i: "set ids = {tid. board_get demo_texts 100 4 (run_board demo_texts 100 demo_events (\<lambda>_. None)) tid \<noteq> None}"
    "map map_of (fst (monitor_list demo_texts 4 demo_monitor None 50 0 (run_hooks demo_texts demo_monitor demo_events (\<lambda>_. None))))
      = take 50 (map (\<lambda>tid. the (board_get demo_texts 100 4 (run_board demo_texts 100 demo_events (\<lambda>_. None)) tid)) ids)"
    using monitor_list_live [OF demo_events_ok(1,3,4,5) refl, of demo_texts None 50 0] unfolding demo_events_ok(2) by auto
  from arg_cong [OF i(2), of length] have "length (fst (monitor_list demo_texts 4 demo_monitor None 50 0
      (run_hooks demo_texts demo_monitor demo_events (\<lambda>_. None)))) = min 50 (length ids)" by (simp add: min.commute)
  with i(1) show ?thesis by blast
qed

definition demo_error :: task_exception where
  "demo_error = \<lparr>ex_text = lit ''no'', ex_type = lit ''ValueError'', ex_timeout = False\<rparr>"

theorem on_error_order_witness:
  "task_field demo_texts 6 demo_monitor [49] ''state'' (on_errors Some demo_texts 5 demo_monitor demo_message demo_error broker_middlewares (\<lambda>_. None))
    = Some (RawText (lit ''queued''))
  \<and> task_field demo_texts 6 demo_monitor [49] ''state'' (on_errors Some demo_texts 5 demo_monitor demo_message demo_error (rev broker_middlewares) (\<lambda>_. None))
    = Some (RawText (lit ''failed''))"
  using on_error_order [of demo_monitor 5 6 Some demo_message demo_texts demo_error "\<lambda>_. None"]
  by (auto simp: demo_monitor_def demo_message_def demo_error_def)

theorem late_submission_mark_witness:
  "task_field demo_texts 6 demo_monitor [49] ''state''
     (run_hooks demo_texts demo_monitor [(3, Started demo_message), (4, Ended demo_message False JNull), (5, Sent demo_message)] (\<lambda>_. None))
   = Some (RawText (lit ''queued''))"
  using late_submission_mark [of demo_monitor 5 6 demo_texts demo_message 3 4 JNull "\<lambda>_. None"]
  by (auto simp: demo_monitor_def demo_message_def)

theorem retry_task_roundtrip_witness:
  "fst (retry_task demo_texts 4 demo_monitor [49]
      (run_hooks demo_texts demo_monitor [(1, Sent demo_message), (2, Started demo_message), (3, Errored demo_message demo_error)] (\<lambda>_. None)))
    = Response 200 (Some demo_message)"
proof -
  have "ms_task_id demo_message = [49]" by (simp add: demo_message_def)
  moreover have "fst (retry_task demo_texts 4 demo_monitor (ms_task_id demo_message)
      (run_hooks demo_texts demo_monitor [(1, Sent demo_message), (2, Started demo_message), (3, Errored demo_message demo_error)] (\<lambda>_. None)))
    = Response 200 (Some demo_message)"
    by (rule conjunct1 [OF retry_task_roundtrip [where a = 1 and b = 2 and c = 3 and m = demo_message and e = demo_error and st = "\<lambda>_. None"
          and xs = "[]" and kvs = "[]" and ls = "[]"]])
      (auto simp: demo_monitor_def demo_message_def demo_texts_def lit_eq)
  ultimately show ?thesis by simp
qed

end
