(* ===== verification/Ops.thy ===== *)
theory Ops
  imports Documents "HOL-Library.Sublist"
begin

section \<open>Operations: health probes, the internal guard, maintenance tasks\<close>

text \<open>
  \<open>doci/health/service.py\<close>, \<open>health/router.py\<close>, \<open>doci/helpers/internal.py\<close> and
  \<open>doci/scheduler/tasks.py\<close>.  The outcome of a ping is an argument; the maintenance tasks are the
  sweeps of the documents and media services on the world of the media theory.
\<close>

subsection \<open>Health\<close>

datatype health_status = HealthOk | HealthDegraded | HealthUnavailable

record check_result =
  cr_name :: ustr
  cr_ok :: bool
  cr_critical :: bool
  cr_latency_ms :: rat
  cr_error :: "ustr option"

record health_report =
  hr_status :: health_status
  hr_checks :: "check_result list"

text \<open>
  A ping: the seconds it takes (\<open>None\<close>: it never ends) and the exception it raises, its text and the
  name of its type.  \<open>late\<close> is the delay with which the timeout fires.
\<close>

record ping =
  pi_takes :: "rat option"
  pi_raises :: "(ustr \<times> ustr) option"

definition probe :: "rat \<Rightarrow> rat \<Rightarrow> ustr \<Rightarrow> bool \<Rightarrow> ping \<Rightarrow> check_result" where
  "probe timeout late name critical p =
     (let in_time = (case pi_takes p of None \<Rightarrow> False | Some s \<Rightarrow> s < timeout);
          elapsed = (case pi_takes p of Some s \<Rightarrow> if in_time then s else timeout + late | None \<Rightarrow> timeout + late) * 1000;
          exn = (if in_time then pi_raises p else Some ([], lit ''TimeoutError''))
      in case exn of
           Some (msg, typ) \<Rightarrow> \<lparr>cr_name = name, cr_ok = False, cr_critical = critical, cr_latency_ms = elapsed,
                               cr_error = Some (if msg = [] then typ else msg)\<rparr>
         | None \<Rightarrow> \<lparr>cr_name = name, cr_ok = True, cr_critical = critical, cr_latency_ms = elapsed, cr_error = None\<rparr>)"

text \<open>The names and criticalities of the dependencies, in the order of the constructor.\<close>

definition health_deps :: "(ustr \<times> bool) list" where
  "health_deps = [(lit ''postgres'', True), (lit ''objstore'', True), (lit ''kv'', False)]"

definition livez :: health_report where
  "livez = \<lparr>hr_status = HealthOk, hr_checks = []\<rparr>"

definition readyz :: "rat \<Rightarrow> rat \<Rightarrow> (ustr \<Rightarrow> ping) \<Rightarrow> health_report" where
  "readyz timeout late pings =
     (let rs = map (\<lambda>(name, critical). probe timeout late name critical (pings name)) health_deps;
          critical_down = list_ex (\<lambda>r. \<not> cr_ok r) (filter cr_critical rs);
          noncritical_down = list_ex (\<lambda>r. \<not> cr_ok r) (filter (\<lambda>r. \<not> cr_critical r) rs)
      in \<lparr>hr_status = (if critical_down then HealthUnavailable else if noncritical_down then HealthDegraded else HealthOk),
          hr_checks = rs\<rparr>)"

text \<open>The JSON of a report; \<open>round2\<close> is \<open>round(x, 2)\<close>.\<close>

definition status_value :: "health_status \<Rightarrow> ustr" where
  "status_value h = lit (case h of HealthOk \<Rightarrow> ''ok'' | HealthDegraded \<Rightarrow> ''degraded'' | HealthUnavailable \<Rightarrow> ''unavailable'')"

definition check_json :: "(rat \<Rightarrow> rat) \<Rightarrow> check_result \<Rightarrow> json" where
  "check_json round2 c = JObj ([(lit ''ok'', JBool (cr_ok c)), (lit ''critical'', JBool (cr_critical c)),
      (lit ''latency_ms'', JReal (round2 (cr_latency_ms c)))]
    @ (case cr_error c of None \<Rightarrow> [] | Some e \<Rightarrow> if e = [] then [] else [(lit ''error'', JStr e)]))"

definition report_json :: "(rat \<Rightarrow> rat) \<Rightarrow> health_report \<Rightarrow> json" where
  "report_json round2 r = JObj [(lit ''status'', JStr (status_value (hr_status r))),
     (lit ''checks'', JObj (map (\<lambda>c. (cr_name c, check_json round2 c)) (hr_checks r)))]"

definition get_livez :: "(rat \<Rightarrow> rat) \<Rightarrow> json http" where
  "get_livez round2 = Response 200 (report_json round2 livez)"

definition get_readyz :: "(rat \<Rightarrow> rat) \<Rightarrow> rat \<Rightarrow> rat \<Rightarrow> (ustr \<Rightarrow> ping) \<Rightarrow> json http" where
  "get_readyz round2 timeout late pings =
     (let r = readyz timeout late pings
      in Response (if hr_status r = HealthUnavailable then 503 else 200) (report_json round2 r))"

subsection \<open>The internal guard\<close>

text \<open>
  What runs in one asyncio task: calls of internal operations, exceptions, ASGI scopes entered through
  the middleware, and blocks whose exceptions are caught.
\<close>

datatype asgi_scope = HttpScope | OtherScope

datatype guarded = CallInternal nat | Raises | InScope asgi_scope "guarded list" | Catching "guarded list"

datatype guard_event = RanInternal nat | RefusedInternal nat

text \<open>
  The flag is a context variable: \<open>set\<close> returns a token and \<open>reset\<close> restores what it found, in a
  \<open>finally\<close>.  A run is the events, the flag after it and whether an exception leaves it.
\<close>

fun run_guarded :: "guarded \<Rightarrow> bool \<Rightarrow> guard_event list \<times> bool \<times> bool"
and run_all_guarded :: "guarded list \<Rightarrow> bool \<Rightarrow> guard_event list \<times> bool \<times> bool" where
  "run_guarded (CallInternal n) flag = (if flag then ([RefusedInternal n], flag, True) else ([RanInternal n], flag, False))"
| "run_guarded Raises flag = ([], flag, True)"
| "run_guarded (InScope OtherScope body) flag = run_all_guarded body flag"
| "run_guarded (InScope HttpScope body) flag =
     (let token = flag; (es, flag', raised) = run_all_guarded body True; flag'' = token in (es, flag'', raised))"
| "run_guarded (Catching body) flag = (let (es, flag', raised) = run_all_guarded body flag in (es, flag', False))"
| "run_all_guarded [] flag = ([], flag, False)"
| "run_all_guarded (a # as) flag =
     (let (es, flag1, raised) = run_guarded a flag
      in if raised then (es, flag1, True)
         else let (es', flag2, raised') = run_all_guarded as flag1 in (es @ es', flag2, raised'))"

text \<open>The exception handler of \<open>create_app\<close>.\<close>

definition forbid_internal :: "'a http" where
  "forbid_internal = HttpError 403"

subsection \<open>Scheduled maintenance\<close>

definition maintenance_cron :: "environ \<Rightarrow> string \<Rightarrow> string \<Rightarrow> ustr" where
  "maintenance_cron env name dflt = (case env (lit name) of None \<Rightarrow> lit dflt | Some s \<Rightarrow> s)"

definition soft_delete_invalid_cron :: "environ \<Rightarrow> ustr" where
  "soft_delete_invalid_cron env = maintenance_cron env ''CRON_MEDIA_SOFT_DELETE_INVALID'' ''0 * * * *''"

definition purge_cron :: "environ \<Rightarrow> ustr" where
  "purge_cron env = maintenance_cron env ''CRON_MEDIA_PURGE'' ''30 3 * * *''"

definition soft_delete_invalid_media :: "media_config \<Rightarrow> time \<Rightarrow> world \<Rightarrow> nat \<times> world" where
  "soft_delete_invalid_media cfg now w = (let (n, s) = soft_delete_invalid cfg now (wdb w) in (n, w\<lparr>wdb := s\<rparr>))"

definition purge_soft_deleted_media :: "time \<Rightarrow> (ustr \<Rightarrow> bool) \<Rightarrow> world \<Rightarrow> nat \<times> world" where
  "purge_soft_deleted_media now deletable w = purge_expired now deletable w"

subsection \<open>Health properties\<close>

definition ping_fails :: "rat \<Rightarrow> ping \<Rightarrow> bool" where
  "ping_fails timeout p \<longleftrightarrow> pi_raises p \<noteq> None \<or> (\<forall>s. pi_takes p = Some s \<longrightarrow> timeout \<le> s)"

lemma probe_ok: "cr_ok (probe timeout late name critical p) = (\<not> ping_fails timeout p)"
  by (auto simp: probe_def Let_def ping_fails_def split: option.split)

lemma probe_fields [simp]:
  "cr_name (probe timeout late name critical p) = name" "cr_critical (probe timeout late name critical p) = critical"
  by (simp_all add: probe_def Let_def split: option.split)

text \<open>
  Readiness follows the dependencies.  The probe answers 503 exactly when postgres or the object
  store fails or does not answer in time, reports \<open>degraded\<close> exactly when only the key-value store
  does, and always reports the three dependencies; a failed one carries an error text unless its
  exception has neither text nor type name, and a timeout never makes the probe wait longer.
\<close>

theorem readyz_exact:
  assumes "r = readyz timeout late pings" and "0 \<le> late" and "0 < timeout"
  shows "get_readyz round2 timeout late pings
      = Response (if ping_fails timeout (pings (lit ''postgres'')) \<or> ping_fails timeout (pings (lit ''objstore'')) then 503 else 200) (report_json round2 r)
    \<and> (hr_status r = HealthDegraded \<longleftrightarrow> \<not> ping_fails timeout (pings (lit ''postgres'')) \<and> \<not> ping_fails timeout (pings (lit ''objstore''))
         \<and> ping_fails timeout (pings (lit ''kv'')))
    \<and> map cr_name (hr_checks r) = [lit ''postgres'', lit ''objstore'', lit ''kv'']
    \<and> (\<forall>c \<in> set (hr_checks r). cr_ok c \<longleftrightarrow> cr_error c = None) \<and> (\<forall>c \<in> set (hr_checks r). cr_latency_ms c \<le> 1000 * (timeout + late))"
proof -
  have e: "cr_ok (probe timeout late name critical p) \<longleftrightarrow> cr_error (probe timeout late name critical p) = None" for name critical p
    by (auto simp: probe_def Let_def split: option.split)
  have l: "cr_latency_ms (probe timeout late name critical p) \<le> 1000 * (timeout + late)" for name critical p
    using assms(2) by (auto simp: probe_def Let_def split: option.split)
  show ?thesis
    using e l by (auto simp: assms(1) readyz_def get_readyz_def Let_def health_deps_def probe_ok)
qed

subsection \<open>Properties of the guard\<close>

text \<open>The internal operations an action names outside, and inside, an HTTP scope, and whether it catches.\<close>

fun outside_http :: "guarded \<Rightarrow> nat list" where
  "outside_http (CallInternal n) = [n]"
| "outside_http Raises = []"
| "outside_http (InScope HttpScope body) = []"
| "outside_http (InScope OtherScope body) = concat (map outside_http body)"
| "outside_http (Catching body) = concat (map outside_http body)"

fun internal_calls :: "guarded \<Rightarrow> nat list" where
  "internal_calls (CallInternal n) = [n]"
| "internal_calls Raises = []"
| "internal_calls (InScope sc body) = concat (map internal_calls body)"
| "internal_calls (Catching body) = concat (map internal_calls body)"

fun inside_http :: "guarded \<Rightarrow> nat list" where
  "inside_http (CallInternal n) = []"
| "inside_http Raises = []"
| "inside_http (InScope HttpScope body) = concat (map internal_calls body)"
| "inside_http (InScope OtherScope body) = concat (map inside_http body)"
| "inside_http (Catching body) = concat (map inside_http body)"

fun catches :: "guarded \<Rightarrow> bool" where
  "catches (CallInternal n) = False"
| "catches Raises = False"
| "catches (InScope sc body) = list_ex catches body"
| "catches (Catching body) = True"

definition ran :: "guard_event list \<Rightarrow> nat list" where
  "ran es = List.map_filter (\<lambda>e. case e of RanInternal n \<Rightarrow> Some n | _ \<Rightarrow> None) es"

definition refused :: "guard_event list \<Rightarrow> nat list" where
  "refused es = List.map_filter (\<lambda>e. case e of RefusedInternal n \<Rightarrow> Some n | _ \<Rightarrow> None) es"

lemma ran_simps [simp]: "ran [] = []" "ran [RanInternal n] = [n]" "ran [RefusedInternal n] = []" "ran (es @ fs) = ran es @ ran fs"
  by (simp_all add: ran_def List.map_filter_def)

lemma refused_simps [simp]:
  "refused [] = []" "refused [RanInternal n] = []" "refused [RefusedInternal n] = [n]" "refused (es @ fs) = refused es @ refused fs"
  by (simp_all add: refused_def List.map_filter_def)

lemma run_guarded_flag: "fst (snd (run_guarded a flag)) = flag" "fst (snd (run_all_guarded as flag)) = flag"
  by (induction a flag and as flag rule: run_guarded_run_all_guarded.induct) (auto simp: Let_def split: prod.splits if_splits)

lemma run_guarded_http:
  "flag \<Longrightarrow> ran (fst (run_guarded a flag)) = [] \<and> subseq (refused (fst (run_guarded a flag))) (internal_calls a)"
  "flag \<Longrightarrow> ran (fst (run_all_guarded as flag)) = [] \<and> subseq (refused (fst (run_all_guarded as flag))) (concat (map internal_calls as))"
proof (induction a flag and as flag rule: run_guarded_run_all_guarded.induct)
  case (7 a as flag)
  obtain es f r where a: "run_guarded a flag = (es, f, r)" by (cases "run_guarded a flag")
  have f: "f = flag" using run_guarded_flag(1) [of a flag] by (simp add: a)
  obtain es' f' r' where as: "run_all_guarded as flag = (es', f', r')" by (cases "run_all_guarded as flag")
  note ih = "7.IH"(1) [OF "7.prems"(1)] "7.IH"(2) [OF a [symmetric] refl]
  have flag: "flag = True" using "7.prems" by blast
  show ?case using ih "7.prems" by (cases r) (auto simp: flag f a [unfolded flag] as [unfolded flag] intro: list_emb_append_mono)
qed (simp_all add: Let_def case_prod_beta)

lemma run_guarded_outside:
  "\<not> flag \<Longrightarrow> subseq (ran (fst (run_guarded a flag))) (outside_http a) \<and> subseq (refused (fst (run_guarded a flag))) (inside_http a)"
  "\<not> flag \<Longrightarrow> subseq (ran (fst (run_all_guarded as flag))) (concat (map outside_http as))
     \<and> subseq (refused (fst (run_all_guarded as flag))) (concat (map inside_http as))"
proof (induction a flag and as flag rule: run_guarded_run_all_guarded.induct)
  case (4 body flag)
  then show ?case using run_guarded_http(2) [of True body] by (auto simp: Let_def split: prod.splits)
next
  case (7 a as flag)
  obtain es f r where a: "run_guarded a flag = (es, f, r)" by (cases "run_guarded a flag")
  have f: "f = flag" using run_guarded_flag(1) [of a flag] by (simp add: a)
  obtain es' f' r' where as: "run_all_guarded as flag = (es', f', r')" by (cases "run_all_guarded as flag")
  note ih = "7.IH"(1) [OF "7.prems"(1)] "7.IH"(2) [OF a [symmetric] refl]
  have flag: "flag = False" using "7.prems" by blast
  show ?case using ih "7.prems" by (cases r) (auto simp: flag f a [unfolded flag] as [unfolded flag] intro: list_emb_append_mono)
qed (simp_all add: Let_def case_prod_beta)

lemma run_guarded_complete:
  "\<not> flag \<Longrightarrow> \<not> catches a \<Longrightarrow> \<not> snd (snd (run_guarded a flag)) \<Longrightarrow> ran (fst (run_guarded a flag)) = outside_http a"
  "\<not> flag \<Longrightarrow> \<not> list_ex catches as \<Longrightarrow> \<not> snd (snd (run_all_guarded as flag)) \<Longrightarrow> ran (fst (run_all_guarded as flag)) = concat (map outside_http as)"
proof (induction a flag and as flag rule: run_guarded_run_all_guarded.induct)
  case (4 body flag)
  then show ?case using run_guarded_http(2) [of True body] by (auto simp: Let_def split: prod.splits)
next
  case (7 a as flag)
  obtain es f r where a: "run_guarded a flag = (es, f, r)" by (cases "run_guarded a flag")
  have f: "f = flag" using run_guarded_flag(1) [of a flag] by (simp add: a)
  obtain es' f' r' where as: "run_all_guarded as flag = (es', f', r')" by (cases "run_all_guarded as flag")
  note ih = "7.IH"(1) [OF "7.prems"(1)] "7.IH"(2) [OF a [symmetric] refl]
  have flag: "flag = False" using "7.prems" by blast
  show ?case using ih "7.prems" by (cases r) (auto simp: flag f a [unfolded flag] as [unfolded flag])
qed (simp_all add: Let_def case_prod_beta)

text \<open>
  Internal operations never run for a client.  Whatever a task does, nested scopes, exceptions and
  handlers included, only operations outside every HTTP scope run and only operations inside one are
  refused, in the order of the program, and the flag is afterwards what it was.  When nothing raises and
  nothing is caught, every operation outside ran.
\<close>

theorem internal_guarded:
  assumes "run_all_guarded as False = (es, flag, raised)"
  shows "subseq (ran es) (concat (map outside_http as)) \<and> subseq (refused es) (concat (map inside_http as)) \<and> \<not> flag
    \<and> (\<not> raised \<and> \<not> list_ex catches as \<longrightarrow> ran es = concat (map outside_http as))
    \<and> ran (fst (run_guarded (InScope HttpScope as) f)) = []"
  using run_guarded_flag(2) [of as False] run_guarded_outside(2) [of False as] run_guarded_complete(2) [of False as]
    run_guarded_http(2) [of True as] assms
  by (auto simp: Let_def split: prod.splits)

theorem internal_guarded_witness:
  "\<exists>es. run_all_guarded [Catching [InScope HttpScope [CallInternal 1, CallInternal 2]], CallInternal 3] False = (es, False, False)
     \<and> subseq (ran es) [3] \<and> subseq (refused es) [1, 2] \<and> es = [RefusedInternal 1, RanInternal 3]"
  using internal_guarded [of "[Catching [InScope HttpScope [CallInternal 1, CallInternal 2]], CallInternal 3]" 
      "[RefusedInternal 1, RanInternal 3]" False False True]
  by (simp add: Let_def)

subsection \<open>The sweeps remove what is invalid\<close>

lemma purge_all:
  "wdb (snd (purge_expired now (\<lambda>_. True) w)) = delete_media (map m_id (filter (purge_due now) (media (wdb w)))) (wdb w)
      \<or> filter (purge_due now) (media (wdb w)) = []"
  "k \<in> m_object_key ` set (filter (purge_due now) (media (wdb w))) \<Longrightarrow> objs (snd (purge_expired now (\<lambda>_. True) w)) k = None"
  by (auto simp: purge_expired_def Let_def upd_db_def filter_empty_conv)

lemma tx_delete_due:
  assumes "docs_ok s" "tx_delete now window ids s = (n, t)" "i \<in> set ids" "i \<in> live_docs s" "(i, x) \<in> blob_refs s" "(x, k) \<in> blob_keys s"
  shows "\<exists>m \<in> set (media t). m_id m = x \<and> m_object_key m = k \<and> m_purge m = Some (now + window * 1000000)"
proof -
  have "distinct (map d_id (documents s))" using assms(1) by (simp add: docs_ok_def db_ok_def keys_ok_def)
  then have b: "x \<in> set (blobs_of ids s)" using refs_blobs_of assms(3-5) by blast
  obtain m where m: "m \<in> set (media s)" "m_id m = x" "m_object_key m = k" using assms(6) by (auto simp: blob_keys_def)
  have "m_deleted m = None" using live_blob_all [OF assms(1,4,5)] m by blast
  then have "m\<lparr>m_deleted := Some now, m_purge := Some (now + window * 1000000), m_updated := now\<rparr> \<in> set (media t)"
    using assms(2) m b by (auto simp: tx_delete_def Let_def set_upd_where intro!: image_eqI [of _ _ m])
  with m show ?thesis
    by (intro bexI [of _ "m\<lparr>m_deleted := Some now, m_purge := Some (now + window * 1000000), m_updated := now\<rparr>"]) simp_all
qed

text \<open>
  C17.  Invalid uploads disappear.  The hourly sweep at \<open>t1\<close> and a purge at any later time past the
  window leave no document that was invalid, and none of the objects of its blobs, when the object
  store accepts the deletions.
\<close>

theorem invalid_uploads_disappear:
  assumes "doc_reachable w" and "soft_delete_invalid_media cfg t1 w = (n, w1)" and "purge_soft_deleted_media t2 (\<lambda>_. True) w1 = (n', w2)"
    and "t1 + purge_after cfg * 1000000 \<le> t2"
    and "d \<in> set (documents (wdb w))" and "d_status d = DocInvalid" and "d_deleted d = None"
  shows "d_id d \<notin> document_ids (wdb w2)
    \<and> (\<forall>x k. (d_id d, x) \<in> blob_refs (wdb w) \<longrightarrow> (x, k) \<in> blob_keys (wdb w) \<longrightarrow> objs w2 k = None \<and> x \<notin> media_ids (wdb w2))"
proof -
  define s where "s = wdb w"
  define ids where "ids = map d_id (filter (\<lambda>d. d_status d = DocInvalid \<and> d_deleted d = None) (documents s))"
  have s: "docs_ok s" by (simp add: s_def doc_reachable_ok assms(1))
  have i: "d_id d \<in> set ids" "d_id d \<in> live_docs s" using assms(5-7) by (auto simp: ids_def s_def live_docs_def)
  obtain t where t: "tx_delete t1 (purge_after cfg) ids s = (n, t)" and w1: "w1 = w\<lparr>wdb := t\<rparr>"
  proof -
    have "ids \<noteq> []" using i(1) by auto
    then show thesis using assms(2) that
      by (auto simp: soft_delete_invalid_media_def soft_delete_invalid_def delete_documents_def Let_def ids_def s_def split: prod.splits)
  qed
  let ?due = "filter (purge_due t2) (media t)"
  have due: "x \<in> m_id ` set ?due \<and> k \<in> m_object_key ` set ?due" if x: "(d_id d, x) \<in> blob_refs s" "(x, k) \<in> blob_keys s" for x k
    using tx_delete_due [OF s t i x] assms(4) by (force simp: purge_due_def)
  have dref: "(d_id d, d_media_id d) \<in> blob_refs s" using assms(5) by (auto simp: blob_refs_def s_def)
  then have "d_media_id d \<in> media_ids s" using refs_in_media [of s "d_id d"] s by (auto simp: docs_ok_def)
  then obtain m0 where "m0 \<in> set (media s)" "m_id m0 = d_media_id d" by (auto simp: media_ids_def)
  then have "(d_media_id d, m_object_key m0) \<in> blob_keys s" by (force simp: blob_keys_def)
  from due [OF dref this] have dm: "d_media_id d \<in> m_id ` set ?due" by simp
  have w2: "wdb w2 = delete_media (map m_id ?due) t"
  proof -
    have "wdb w1 = t" "?due \<noteq> []" using w1 dm by (auto simp: filter_empty_conv)
    then show ?thesis using purge_all(1) [of t2 w1] assms(3) by (simp add: purge_soft_deleted_media_def)
  qed
  have uni: "distinct (map d_id (documents t))"
    using docs_ok_delete [OF s, of t1 "purge_after cfg" ids] t by (simp add: docs_ok_def db_ok_def keys_ok_def)
  have rows: "(d_id e, d_media_id e) \<in> (\<lambda>d. (d_id d, d_media_id d)) ` set (documents s)" if "e \<in> set (documents t)" for e
  proof -
    have "map (\<lambda>d. (d_id d, d_media_id d)) (documents t) = map (\<lambda>d. (d_id d, d_media_id d)) (documents s)"
      using t by (auto simp: tx_delete_def Let_def map_upd_where)
    moreover have "(d_id e, d_media_id e) \<in> set (map (\<lambda>d. (d_id d, d_media_id d)) (documents t))" using that by (simp add: rev_image_eqI)
    ultimately have "(d_id e, d_media_id e) \<in> set (map (\<lambda>d. (d_id d, d_media_id d)) (documents s))" by (simp only:)
    then show ?thesis by (simp only: set_map)
  qed
  have "d_id d \<notin> document_ids (wdb w2)"
  proof
    assume "d_id d \<in> document_ids (wdb w2)"
    then obtain e where e: "e \<in> set (documents t)" "d_id e = d_id d" "d_media_id e \<notin> m_id ` set ?due"
      by (auto simp: w2 document_ids_def delete_media_def Let_def)
    from rows [OF e(1)] obtain d' where d': "d' \<in> set (documents s)" "d_id d' = d_id d" "d_media_id d' = d_media_id e" using e(2) by auto
    have "d' = d" using s d'(1,2) assms(5) by (auto simp: docs_ok_def db_ok_def keys_ok_def s_def distinct_map dest: inj_onD)
    with d'(3) dm e(3) show False by simp
  qed
  moreover have "objs w2 k = None \<and> x \<notin> media_ids (wdb w2)" if x: "(d_id d, x) \<in> blob_refs s" "(x, k) \<in> blob_keys s" for x k
  proof
    have "wdb w1 = t" using w1 by simp
    then show "objs w2 k = None" using due [OF x] purge_all(2) [of k t2 w1] assms(3) by (simp add: purge_soft_deleted_media_def)
    show "x \<notin> media_ids (wdb w2)"
      using due [OF x] unfolding w2 by (simp add: media_ids_def delete_media_def Let_def) blast
  qed
  ultimately show ?thesis by (simp add: s_def)
qed

subsection \<open>Witnesses\<close>

definition kv_down :: "ustr \<Rightarrow> ping" where
  "kv_down n = (if n = lit ''kv'' then \<lparr>pi_takes = None, pi_raises = None\<rparr> else \<lparr>pi_takes = Some 1, pi_raises = None\<rparr>)"

theorem readyz_exact_witness:
  "get_readyz id 2 0 kv_down = Response 200 (report_json id (readyz 2 0 kv_down)) \<and> hr_status (readyz 2 0 kv_down) = HealthDegraded"
  using readyz_exact [where r = "readyz 2 0 kv_down" and timeout = 2 and late = 0 and pings = kv_down and ?round2.0 = id]
  by (simp add: ping_fails_def kv_down_def lit_def)

definition invalid_doc :: world where
  "invalid_doc = upd_db (tx_set_status 6 1 DocInvalid) one_doc"

theorem invalid_uploads_disappear_witness:
  "1 \<notin> document_ids (wdb (snd (purge_soft_deleted_media (8 + 604800 * 1000000) (\<lambda>_. True) (snd (soft_delete_invalid_media media_config_default 7 invalid_doc)))))"
proof -
  have r: "doc_reachable invalid_doc" unfolding invalid_doc_def by (rule doc_reachable.invalid [OF one_doc_reachable])
  have d: "one_row\<lparr>d_status := DocInvalid, d_updated := 6\<rparr> \<in> set (documents (wdb invalid_doc))"
    by (simp add: invalid_doc_def one_doc_wdb tx_set_status_def one_row_def upd_where_def)
  have "d_id (one_row\<lparr>d_status := DocInvalid, d_updated := 6\<rparr>) = 1" by (simp add: one_row_def)
  then show ?thesis
    using invalid_uploads_disappear [OF r prod.collapse [symmetric] prod.collapse [symmetric] _ d, of 7 media_config_default "8 + 604800 * 1000000"]
    by (simp add: one_row_def media_config_default_def)
qed

end
