(* ===== verification/Telemetry.thy ===== *)
theory Telemetry
  imports Prelude Complex_Main "HOL-Library.AList" "HOL-Library.List_Lexorder" "HOL-Library.Multiset"
begin

section \<open>Metrics of decorated operations\<close>

text \<open>
  The metrics half of \<open>doci/telemetry/decorators.py\<close>: the per-call \<open>Report\<close>, its flush, and the
  scopes \<open>with_metrics\<close> opens around nested calls.  What the exporter receives is the list of
  emissions.  Spans and the suppression of instrumentation are not modelled.
\<close>

subsection \<open>Reports\<close>

datatype metric = Counter ustr | UpDownCounter ustr | Histogram ustr

type_synonym attrs = "(ustr \<times> ustr) list"

type_synonym emission = "metric \<times> attrs \<times> rat"

fun is_histogram :: "metric \<Rightarrow> bool" where
  "is_histogram (Histogram n) = True"
| "is_histogram _ = False"

text \<open>\<open>tuple(sorted(attrs.items()))\<close>.\<close>

definition attr_key :: "attrs \<Rightarrow> attrs" where
  "attr_key a = sort a"

record report =
  rp_counters :: "(metric \<times> (attrs \<times> (attrs \<times> rat)) list) list"
  rp_observations :: "(metric \<times> (attrs \<times> rat) list) list"

definition empty_report :: report where
  "empty_report = \<lparr>rp_counters = [], rp_observations = []\<rparr>"

definition setdefault :: "'k \<Rightarrow> ('k \<times> 'v list) list \<Rightarrow> 'v list" where
  "setdefault k d = (case map_of d k of None \<Rightarrow> [] | Some v \<Rightarrow> v)"

definition report_record :: "metric \<Rightarrow> rat \<Rightarrow> attrs \<Rightarrow> report \<Rightarrow> report" where
  "report_record m v a r =
     (if is_histogram m then r\<lparr>rp_observations := AList.update m (setdefault m (rp_observations r) @ [(a, v)]) (rp_observations r)\<rparr>
      else let key = attr_key a; bucket = setdefault m (rp_counters r);
               bucket' = (case map_of bucket key of Some (a0, s) \<Rightarrow> AList.update key (a0, s + v) bucket
                          | None \<Rightarrow> AList.update key (a, v) bucket)
           in r\<lparr>rp_counters := AList.update m bucket' (rp_counters r)\<rparr>)"

definition report_flush :: "report \<Rightarrow> emission list" where
  "report_flush r = concat (map (\<lambda>(m, bucket). map (\<lambda>(key, a, s). (m, a, s)) bucket) (rp_counters r))
     @ concat (map (\<lambda>(m, os). map (\<lambda>(a, v). (m, a, v)) os) (rp_observations r))"

subsection \<open>Scopes\<close>

text \<open>
  What a decorated function does: it records measurements and calls decorated functions.  An
  operation carries whether it raises and how long it takes.
\<close>

datatype metered = Measure metric rat attrs | Operation ustr "metered list" bool rat

definition op_duration :: metric where
  "op_duration = Histogram (lit ''doci.operation.duration'')"

definition op_calls :: metric where
  "op_calls = Counter (lit ''doci.operation.calls'')"

definition op_attrs :: "ustr \<Rightarrow> bool \<Rightarrow> attrs" where
  "op_attrs name error = [(lit ''operation'', name), (lit ''outcome'', if error then lit ''error'' else lit ''ok'')]"

definition finish_operation :: "ustr \<Rightarrow> bool \<Rightarrow> rat \<Rightarrow> report \<Rightarrow> emission list" where
  "finish_operation name error ms r = [(op_duration, op_attrs name error, ms), (op_calls, op_attrs name error, 1)] @ report_flush r"

text \<open>
  The state is the current report, a context variable, and what was emitted.  Recording outside every
  scope raises and records nothing.
\<close>

fun run_activity :: "metered \<Rightarrow> report option \<times> emission list \<Rightarrow> report option \<times> emission list"
and run_activities :: "metered list \<Rightarrow> report option \<times> emission list \<Rightarrow> report option \<times> emission list" where
  "run_activity (Measure m v a) (cur, sink) = (map_option (report_record m v a) cur, sink)"
| "run_activity (Operation name body error ms) (cur, sink) =
     (let (cur', sink') = run_activities body (Some empty_report, sink)
      in (cur, sink' @ finish_operation name error ms (case cur' of Some r \<Rightarrow> r | None \<Rightarrow> empty_report)))"
| "run_activities [] s = s"
| "run_activities (x # xs) s = run_activities xs (run_activity x s)"

subsection \<open>Lemmas\<close>

text \<open>What a list of emissions amounts to: the sum per metric and attributes, and a histogram's observations.\<close>

definition total :: "metric \<Rightarrow> attrs \<Rightarrow> emission list \<Rightarrow> rat" where
  "total m k es = sum_list (map (\<lambda>(m', a, v). if m' = m \<and> attr_key a = k then v else 0) es)"

definition observed :: "metric \<Rightarrow> emission list \<Rightarrow> (attrs \<times> rat) multiset" where
  "observed m es = sum_list (map (\<lambda>(m', a, v). if m' = m then {#(a, v)#} else {#}) es)"

lemma total_simps [simp]:
  "total m k [] = 0" "total m k (e # es) = (if fst e = m \<and> attr_key (fst (snd e)) = k then snd (snd e) else 0) + total m k es"
  "total m k (es @ fs) = total m k es + total m k fs"
  by (simp_all add: total_def split: prod.split)

lemma observed_simps [simp]:
  "observed m [] = {#}" "observed m (e # es) = (if fst e = m then {#snd e#} else {#}) + observed m es"
  "observed m (es @ fs) = observed m es + observed m fs"
  by (auto simp: observed_def split: prod.split)

lemma sum_update:
  fixes f :: "'k \<times> 'v \<Rightarrow> 'a :: comm_monoid_add"
  shows "sum_list (map f (AList.update k v al)) + (case map_of al k of None \<Rightarrow> 0 | Some v0 \<Rightarrow> f (k, v0)) = sum_list (map f al) + f (k, v)"
  by (induction al) (auto simp: ac_simps split: option.split)

lemma total_concat: "total m k (concat ess) = sum_list (map (total m k) ess)"
  by (induction ess) simp_all

lemma observed_concat: "observed m (concat ess) = sum_list (map (observed m) ess)"
  by (induction ess) simp_all

text \<open>Buckets are filed under the key of their attributes; histograms have no bucket.\<close>

definition report_ok :: "report \<Rightarrow> bool" where
  "report_ok r \<longleftrightarrow> (\<forall>(m, bucket) \<in> set (rp_counters r). \<not> is_histogram m \<and> (\<forall>(key, a, s) \<in> set bucket. attr_key a = key))
     \<and> (\<forall>(m, os) \<in> set (rp_observations r). is_histogram m)"

lemma set_update: "set (AList.update k v al) \<subseteq> insert (k, v) (set al)"
  by (induction al) auto

lemma setdefault_in: "x \<in> set (setdefault k d) \<Longrightarrow> \<exists>b. (k, b) \<in> set d \<and> x \<in> set b"
  by (cases "map_of d k") (auto simp: setdefault_def dest: map_of_SomeD)

lemma report_ok_record:
  assumes "report_ok r"
  shows "report_ok (report_record m v a r)"
proof (cases "is_histogram m")
  case True
  then show ?thesis using assms set_update by (fastforce simp: report_ok_def report_record_def)
next
  case False
  let ?b = "setdefault m (rp_counters r)"
  have b: "attr_key a0 = key" if "(key, a0, s) \<in> set ?b" for key a0 s
    using setdefault_in [OF that] assms by (fastforce simp: report_ok_def)
  define b' where "b' = (case map_of ?b (attr_key a) of Some (a0, s) \<Rightarrow> AList.update (attr_key a) (a0, s + v) ?b
      | None \<Rightarrow> AList.update (attr_key a) (a, v) ?b)"
  have "attr_key a0 = key" if "(key, a0, s) \<in> set b'" for key a0 s
    using that b set_update [of "attr_key a" _ ?b]
    by (fastforce simp: b'_def split: option.splits prod.splits dest: map_of_SomeD)
  then show ?thesis
    using assms False set_update [of m b' "rp_counters r"] by (fastforce simp: report_ok_def report_record_def Let_def b'_def [symmetric])
qed

lemma total_record:
  assumes "report_ok r"
  shows "total m k (report_flush (report_record m' v a r)) = total m k (report_flush r) + (if m' = m \<and> attr_key a = k then v else 0)"
proof (cases "is_histogram m'")
  case True
  let ?f = "\<lambda>(x, os). total m k (map (\<lambda>(a, v). (x, a, v)) os)"
  have "sum_list (map ?f (AList.update m' (setdefault m' (rp_observations r) @ [(a, v)]) (rp_observations r)))
      = sum_list (map ?f (rp_observations r)) + (if m' = m \<and> attr_key a = k then v else 0)"
    using sum_update [of ?f m' "setdefault m' (rp_observations r) @ [(a, v)]" "rp_observations r"]
    by (auto simp: setdefault_def split: option.splits)
  then show ?thesis using True
    by (simp add: report_flush_def report_record_def total_concat o_def split_def)
next
  case False
  let ?b = "setdefault m' (rp_counters r)" and ?g = "\<lambda>(key, a, s). if attr_key a = k then s else (0::rat)"
  let ?f = "\<lambda>(x, bucket). total m k (map (\<lambda>(key, a, s). (x, a, s)) bucket)"
  define b' where "b' = (case map_of ?b (attr_key a) of Some (a0, s) \<Rightarrow> AList.update (attr_key a) (a0, s + v) ?b
      | None \<Rightarrow> AList.update (attr_key a) (a, v) ?b)"
  have f: "?f (x, bucket) = (if x = m then sum_list (map ?g bucket) else 0)" for x bucket
    by (induction bucket) auto
  have "sum_list (map ?g b') = sum_list (map ?g ?b) + (if attr_key a = k then v else 0)"
  proof (cases "map_of ?b (attr_key a)")
    case None
    then show ?thesis using sum_update [of ?g "attr_key a" "(a, v)" ?b] by (simp add: b'_def)
  next
    case (Some p)
    obtain a0 s where p: "p = (a0, s)" by fastforce
    have "attr_key a0 = attr_key a"
      using setdefault_in [OF map_of_SomeD [OF Some]] assms p by (fastforce simp: report_ok_def)
    then show ?thesis using sum_update [of ?g "attr_key a" "(a0, s + v)" ?b] Some p by (simp add: b'_def split: if_splits)
  qed
  moreover have "sum_list (map ?f (AList.update m' b' (rp_counters r)))
      + (case map_of (rp_counters r) m' of None \<Rightarrow> 0 | Some b \<Rightarrow> ?f (m', b)) = sum_list (map ?f (rp_counters r)) + ?f (m', b')"
    by (rule sum_update)
  moreover have "(case map_of (rp_counters r) m' of None \<Rightarrow> 0 | Some b \<Rightarrow> ?f (m', b)) = ?f (m', ?b)"
    by (simp add: setdefault_def split: option.split)
  ultimately have "sum_list (map ?f (AList.update m' b' (rp_counters r)))
      = sum_list (map ?f (rp_counters r)) + (if m' = m \<and> attr_key a = k then v else 0)"
    unfolding f by (auto split: if_splits)
  then show ?thesis using False
    by (simp add: report_flush_def report_record_def Let_def b'_def [symmetric] total_concat o_def split_def)
qed

lemma observed_bucket: "observed m (map (\<lambda>(key, y). (x, y)) bucket) = (if x = m then mset (map snd bucket) else {#})"
  by (induction bucket) auto

lemma observed_counters:
  assumes "report_ok r" "is_histogram m"
  shows "observed m (concat (map (\<lambda>(m, bucket). map (\<lambda>(key, a, s). (m, a, s)) bucket) (rp_counters r))) = {#}"
proof -
  have ne: "x \<noteq> m" if "(x, b) \<in> set (rp_counters r)" for x b using assms that by (auto simp: report_ok_def)
  have "observed m (concat (map (\<lambda>(m, bucket). map (\<lambda>(key, a, s). (m, a, s)) bucket) cs)) = {#}" if "set cs \<subseteq> set (rp_counters r)" for cs
    using that
  proof (induction cs)
    case (Cons c cs)
    then show ?case using ne [of "fst c" "snd c"] by (cases c) (auto simp: observed_bucket)
  qed simp
  then show ?thesis by simp
qed

lemma observed_record:
  assumes "report_ok r" "is_histogram m"
  shows "observed m (report_flush (report_record m' v a r)) = observed m (report_flush r) + (if m' = m then {#(a, v)#} else {#})"
proof (cases "is_histogram m'")
  case True
  let ?f = "\<lambda>(x, os). observed m (map (\<lambda>(a, v). (x, a, v)) os)"
  have "sum_list (map ?f (AList.update m' (setdefault m' (rp_observations r) @ [(a, v)]) (rp_observations r)))
      = sum_list (map ?f (rp_observations r)) + (if m' = m then {#(a, v)#} else {#})"
    using sum_update [of ?f m' "setdefault m' (rp_observations r) @ [(a, v)]" "rp_observations r"]
    by (auto simp: setdefault_def split: option.splits)
  then show ?thesis using True
    by (simp add: report_flush_def report_record_def observed_concat o_def split_def)
next
  case False
  then have "m' \<noteq> m" using assms(2) by auto
  then show ?thesis
    using observed_counters [OF assms] observed_counters [OF report_ok_record [OF assms(1)] assms(2), of m' v a] False
    by (simp add: report_flush_def report_record_def Let_def)
qed

text \<open>All measurements of an activity, the automatic ones included.\<close>

fun measurements :: "metered \<Rightarrow> emission list" where
  "measurements (Measure m v a) = [(m, a, v)]"
| "measurements (Operation name body error ms) =
     [(op_duration, op_attrs name error, ms), (op_calls, op_attrs name error, 1)] @ concat (map measurements body)"

definition reported :: "report option \<times> emission list \<Rightarrow> emission list" where
  "reported w = (case fst w of None \<Rightarrow> [] | Some r \<Rightarrow> report_flush r) @ snd w"

definition scope_ok :: "report option \<times> emission list \<Rightarrow> bool" where
  "scope_ok w \<longleftrightarrow> (\<exists>r. fst w = Some r \<and> report_ok r)"

lemma report_ok_empty [simp]: "report_ok empty_report" "report_flush empty_report = []"
  by (simp_all add: report_ok_def empty_report_def report_flush_def)

definition accounts :: "emission list \<Rightarrow> report option \<times> emission list \<Rightarrow> report option \<times> emission list \<Rightarrow> bool" where
  "accounts es w w' \<longleftrightarrow> (\<forall>m k. total m k (reported w') = total m k (reported w) + total m k es)
     \<and> (\<forall>m. is_histogram m \<longrightarrow> observed m (reported w') = observed m (reported w) + observed m es)"

lemma run_measure:
  "scope_ok w \<Longrightarrow> scope_ok (run_activity (Measure m v a) w) \<and> accounts [(m, a, v)] w (run_activity (Measure m v a) w)"
  by (cases w) (auto simp: scope_ok_def accounts_def reported_def report_ok_record total_record observed_record)

lemma run_operation:
  assumes "scope_ok (run_activities body (Some empty_report, sink))"
    and "accounts (concat (map measurements body)) (Some empty_report, sink) (run_activities body (Some empty_report, sink))"
  shows "fst (run_activity (Operation name body error ms) (cur, sink)) = cur
    \<and> accounts (measurements (Operation name body error ms)) (cur, sink) (run_activity (Operation name body error ms) (cur, sink))"
proof -
  obtain r sink' where r: "run_activities body (Some empty_report, sink) = (Some r, sink')"
    using assms(1) by (cases "run_activities body (Some empty_report, sink)") (auto simp: scope_ok_def)
  show ?thesis
    using assms(2) by (auto simp: r accounts_def reported_def finish_operation_def ac_simps split: option.split)
qed

lemma run_scope:
  "scope_ok w \<Longrightarrow> scope_ok (run_activity x w) \<and> accounts (measurements x) w (run_activity x w)"
  "scope_ok w \<Longrightarrow> scope_ok (run_activities xs w) \<and> accounts (concat (map measurements xs)) w (run_activities xs w)"
proof (induction x w and xs w rule: run_activity_run_activities.induct)
  case (1 m v a cur sink)
  then show ?case using run_measure [of "(cur, sink)" m v a] by (simp only: measurements.simps)
next
  case (2 name body error ms cur sink)
  have "scope_ok (Some empty_report, sink)" by (simp add: scope_ok_def)
  from run_operation [OF conjunct1 [OF 2(1) [OF this]] conjunct2 [OF 2(1) [OF this]], of name error ms cur] 2(2)
  show ?case by (auto simp: scope_ok_def)
next
  case (3 s)
  then show ?case by (simp add: accounts_def)
next
  case (4 x xs s)
  then show ?case by (auto simp: accounts_def ac_simps)
qed

text \<open>
  C21.  Every measurement is reported once.  When a decorated operation returns or raises, the surrounding
  report is the one that was current before, and what was emitted is exactly what was recorded in it and in
  the operations it called: per metric and attributes the sums agree, and the observations of a histogram
  are the recorded ones, one by one; every call counts once, with its outcome.
\<close>

theorem telemetry_totals:
  assumes "run_activity (Operation name body error ms) (cur, []) = (cur', sink)"
  shows "cur' = cur
    \<and> (\<forall>m k. total m k sink = total m k (measurements (Operation name body error ms)))
    \<and> (\<forall>m. is_histogram m \<longrightarrow> observed m sink = observed m (measurements (Operation name body error ms)))"
proof -
  have "scope_ok (Some empty_report, [])" by (simp add: scope_ok_def)
  note body = run_scope(2) [OF this, of body]
  from run_operation [OF conjunct1 [OF body] conjunct2 [OF body], of name error ms cur] assms
  show ?thesis by (auto simp: accounts_def reported_def split: option.splits)
qed

theorem telemetry_totals_witness:
  "total (Counter [99]) [] (snd (run_activity (Operation [103] [Measure (Counter [99]) 2 [], Operation [104] [Measure (Counter [99]) 3 []] True 1,
     Measure (Counter [99]) 5 []] False 4 ) (None, []))) = 10"
  using telemetry_totals [OF prod.collapse [symmetric], of "[103]" "[Measure (Counter [99]) 2 [], Operation [104] [Measure (Counter [99]) 3 []] True 1,
     Measure (Counter [99]) 5 []]" False 4 None]
  by (simp add: op_duration_def op_calls_def op_attrs_def attr_key_def lit_def)

end
