(* ===== verification/Llm.thy ===== *)
theory Llm
  imports Blobs "HOL-Library.AList"
begin

section \<open>Language model configuration\<close>

text \<open>
  \<open>doci/llm/config.py\<close> and \<open>build_chat_model\<close> of \<open>doci/llm/__init__.py\<close>.  The keyword arguments given
  to LangChain's \<open>init_chat_model\<close> are the result.  \<open>json.loads\<close> and \<open>float\<close> are the arguments
  \<open>loads\<close> and \<open>flt\<close>, \<open>upper\<close> and \<open>lower\<close> those of \<open>str\<close>.
\<close>

subsection \<open>Per-task settings\<close>

record llm_config =
  lc_model :: ustr
  lc_base_url :: "ustr option"
  lc_api_key :: "ustr option"
  lc_max_tokens :: int
  lc_timeout :: int
  lc_max_retries :: int
  lc_temperature :: "rat option"
  lc_extra_params :: json

datatype llm_error = LlmNumber | LlmJson | LlmParams

definition llm_int :: "unicode \<Rightarrow> (ustr \<Rightarrow> ustr) \<Rightarrow> environ \<Rightarrow> ustr \<Rightarrow> string \<Rightarrow> int \<Rightarrow> llm_error + int" where
  "llm_int U upper env task field dflt = (case llm_env upper env task (lit field) of
     None \<Rightarrow> Inr dflt
   | Some s \<Rightarrow> (case py_int U s of None \<Rightarrow> Inl LlmNumber | Some n \<Rightarrow> Inr n))"

definition llm_config_from_env ::
  "unicode \<Rightarrow> (ustr \<Rightarrow> ustr) \<Rightarrow> (ustr \<Rightarrow> rat option) \<Rightarrow> (ustr \<Rightarrow> json option) \<Rightarrow> environ \<Rightarrow> ustr \<Rightarrow> ustr \<Rightarrow> int
   \<Rightarrow> (ustr \<times> json) list \<Rightarrow> llm_error + llm_config" where
  "llm_config_from_env U upper flt loads env task default_model default_max_tokens default_params =
     bindE (llm_int U upper env task ''MAX_TOKENS'' default_max_tokens) (\<lambda>max_tokens.
     bindE (llm_int U upper env task ''TIMEOUT'' 60) (\<lambda>timeout.
     bindE (llm_int U upper env task ''MAX_RETRIES'' 2) (\<lambda>max_retries.
     bindE (case llm_env upper env task (lit ''TEMPERATURE'') of
              None \<Rightarrow> Inr None
            | Some s \<Rightarrow> (case flt s of None \<Rightarrow> Inl LlmNumber | Some x \<Rightarrow> Inr (Some x))) (\<lambda>temperature.
     bindE (case llm_env upper env task (lit ''PARAMS'') of
              None \<Rightarrow> Inr (JObj default_params)
            | Some s \<Rightarrow> (case loads s of None \<Rightarrow> Inl LlmJson | Some j \<Rightarrow> Inr j)) (\<lambda>params.
     Inr \<lparr>lc_model = (case llm_env upper env task (lit ''MODEL'') of None \<Rightarrow> default_model | Some m \<Rightarrow> m),
          lc_base_url = (case llm_env upper env task (lit ''BASE_URL'') of None \<Rightarrow> env (lit ''OPENAI_BASE_URL'') | Some u \<Rightarrow> Some u),
          lc_api_key = llm_env upper env task (lit ''API_KEY''),
          lc_max_tokens = max_tokens, lc_timeout = timeout, lc_max_retries = max_retries,
          lc_temperature = temperature, lc_extra_params = params\<rparr>)))))"

subsection \<open>The chat model\<close>

text \<open>\<open>dict(value)\<close>: an object, or an empty array; everything else is taken to raise.\<close>

fun json_dict :: "json \<Rightarrow> (ustr \<times> json) list option" where
  "json_dict (JObj kvs) = Some kvs"
| "json_dict (JList []) = Some []"
| "json_dict _ = None"

text \<open>\<open>d.update(e)\<close>.\<close>

definition dict_update :: "(ustr \<times> json) list \<Rightarrow> (ustr \<times> json) list \<Rightarrow> (ustr \<times> json) list" where
  "dict_update d e = fold (\<lambda>(k, v). AList.update k v) e d"

definition base_kwargs :: "llm_config \<Rightarrow> (ustr \<times> json) list" where
  "base_kwargs c =
     [(lit ''max_tokens'', JInt (lc_max_tokens c)), (lit ''timeout'', JInt (lc_timeout c)), (lit ''max_retries'', JInt (lc_max_retries c))]
     @ (case truthy (lc_base_url c) of None \<Rightarrow> [] | Some u \<Rightarrow> [(lit ''base_url'', JStr u)])
     @ (case truthy (lc_api_key c) of None \<Rightarrow> [] | Some k \<Rightarrow> [(lit ''api_key'', JStr k)])
     @ (case lc_temperature c of None \<Rightarrow> [] | Some t \<Rightarrow> [(lit ''temperature'', JReal t)])"

text \<open>\<open>prompt_cache_key\<close> is popped from the extra parameters only when no key is passed.\<close>

definition chat_model_kwargs ::
  "(ustr \<Rightarrow> ustr) \<Rightarrow> llm_config \<Rightarrow> ustr \<Rightarrow> ustr option \<Rightarrow> llm_error + (ustr \<times> json) list" where
  "chat_model_kwargs lower c task cache_key =
     (case json_dict (lc_extra_params c) of
        None \<Rightarrow> Inl LlmParams
      | Some extra0 \<Rightarrow>
          (case json_dict (case map_of extra0 (lit ''model_kwargs'') of None \<Rightarrow> JObj [] | Some j \<Rightarrow> j) of
             None \<Rightarrow> Inl LlmParams
           | Some mk0 \<Rightarrow>
               (let extra1 = AList.delete (lit ''model_kwargs'') extra0;
                    (popped, extra) = (case cache_key of
                        Some k \<Rightarrow> (JStr k, extra1)
                      | None \<Rightarrow> ((case map_of extra1 (lit ''prompt_cache_key'') of None \<Rightarrow> JNull | Some j \<Rightarrow> j),
                                AList.delete (lit ''prompt_cache_key'') extra1));
                    key = (if popped = JNull then JStr (lit ''doci:'' @ lower task) else popped);
                    mk = (if jtruthy key then AList.update (lit ''prompt_cache_key'') key mk0 else mk0);
                    kwargs = base_kwargs c @ (if mk = [] then [] else [(lit ''model_kwargs'', JObj mk)])
                in Inr (dict_update kwargs extra))))"

definition build_chat_model ::
  "unicode \<Rightarrow> (ustr \<Rightarrow> ustr) \<Rightarrow> (ustr \<Rightarrow> ustr) \<Rightarrow> (ustr \<Rightarrow> rat option) \<Rightarrow> (ustr \<Rightarrow> json option) \<Rightarrow> environ \<Rightarrow> ustr \<Rightarrow> ustr \<Rightarrow> int
   \<Rightarrow> (ustr \<times> json) list \<Rightarrow> ustr option \<Rightarrow> llm_error + ustr \<times> (ustr \<times> json) list" where
  "build_chat_model U upper lower flt loads env task default_model default_max_tokens default_params cache_key =
     bindE (llm_config_from_env U upper flt loads env task default_model default_max_tokens default_params) (\<lambda>c.
     bindE (chat_model_kwargs lower c task cache_key) (\<lambda>kwargs. Inr (lc_model c, kwargs)))"

subsection \<open>Properties\<close>

lemma map_of_update_list: "map_of (dict_update d e) = fold (\<lambda>(k, v) m. m(k \<mapsto> v)) e (map_of d)"
  by (induction e arbitrary: d) (auto simp: dict_update_def update_conv')

lemma map_of_dict_update:
  "distinct (map fst e) \<Longrightarrow> map_of (dict_update d e) k = (case map_of e k of None \<Rightarrow> map_of d k | Some v \<Rightarrow> Some v)"
proof (induction e arbitrary: d)
  case (Cons kv e)
  obtain j v where kv: "kv = (j, v)" by fastforce
  have "map_of e j = None" using Cons.prems by (simp add: kv map_of_eq_None_iff)
  then show ?case using Cons by (auto simp: kv dict_update_def update_conv' split: option.split)
qed (simp add: dict_update_def)

text \<open>The value a keyword argument gets, and the cache key in \<open>model_kwargs\<close>.\<close>

definition passed :: "(ustr \<times> json) list \<Rightarrow> string \<Rightarrow> json option" where
  "passed kwargs name = map_of kwargs (lit name)"

definition routed_key :: "(ustr \<times> json) list \<Rightarrow> json option" where
  "routed_key kwargs = (case passed kwargs ''model_kwargs'' of Some (JObj mk) \<Rightarrow> map_of mk (lit ''prompt_cache_key'') | _ \<Rightarrow> None)"

text \<open>The settings the code writes itself: the names an extra parameter may override.\<close>

definition setting_of :: "llm_config \<Rightarrow> string \<Rightarrow> json option" where
  "setting_of c name = passed (base_kwargs c) name"

text \<open>
  C34.  Which parameters a model gets.  Let the extra parameters be an object without \<open>model_kwargs\<close>
  of its own.  Every extra parameter other than the cache key is passed as it is and wins over the
  setting of the same name, which is passed otherwise.  Without an explicit cache key the requests are
  routed by the extra one, or by \<open>doci:<task>\<close> when there is none; an empty one switches routing off, a null one
  does not: it counts as none, and the requests are routed by \<open>doci:<task>\<close> (the comment in the code says that an
  empty or null key disables routing).  With an explicit key the requests are routed by it, an empty one switching
  routing off, whatever the extra one is, and the extra one stays a parameter.
\<close>

theorem chat_model_parameters:
  assumes "lc_extra_params c = JObj extra" and "distinct (map fst extra)" and "map_of extra (lit ''model_kwargs'') = None"
    and "chat_model_kwargs lower c task cache_key = Inr kwargs"
  shows "(\<forall>name. name \<noteq> ''prompt_cache_key'' \<longrightarrow> name \<noteq> ''model_kwargs'' \<longrightarrow>
        passed kwargs name = (case map_of extra (lit name) of None \<Rightarrow> setting_of c name | Some v \<Rightarrow> Some v))
    \<and> (cache_key = None \<longrightarrow> passed kwargs ''prompt_cache_key'' = None
         \<and> routed_key kwargs = (case map_of extra (lit ''prompt_cache_key'') of
              None \<Rightarrow> Some (JStr (lit ''doci:'' @ lower task))
            | Some j \<Rightarrow> if j = JNull then Some (JStr (lit ''doci:'' @ lower task)) else if jtruthy j then Some j else None))
    \<and> (\<forall>k. cache_key = Some k \<longrightarrow> passed kwargs ''prompt_cache_key'' = map_of extra (lit ''prompt_cache_key'')
         \<and> routed_key kwargs = (if k = [] then None else Some (JStr k)))"
proof -
  have base: "passed (base_kwargs c) ''model_kwargs'' = None" "passed (base_kwargs c) ''prompt_cache_key'' = None"
    by (simp_all add: passed_def base_kwargs_def split: option.split)
  have del: "AList.delete (lit ''model_kwargs'') extra = extra" using assms(3) by (simp add: map_of_eq_None_iff)
  define pop where "pop = (case cache_key of Some k \<Rightarrow> JStr k | None \<Rightarrow> (case map_of extra (lit ''prompt_cache_key'') of None \<Rightarrow> JNull | Some j \<Rightarrow> j))"
  define rest where "rest = (if cache_key = None then AList.delete (lit ''prompt_cache_key'') extra else extra)"
  define key where "key = (if pop = JNull then JStr (lit ''doci:'' @ lower task) else pop)"
  define kw where "kw = base_kwargs c @ (if jtruthy key then [(lit ''model_kwargs'', JObj [(lit ''prompt_cache_key'', key)])] else [])"
  have kwargs: "kwargs = dict_update kw rest"
    using assms(4) unfolding chat_model_kwargs_def
    by (cases cache_key) (auto simp: assms(1,3) del pop_def rest_def key_def kw_def Let_def)
  have d: "distinct (map fst rest)" using assms(2) by (simp add: rest_def distinct_delete)
  have look: "passed kwargs name = (case map_of rest (lit name) of None \<Rightarrow> passed kw name | Some v \<Rightarrow> Some v)" for name
    unfolding kwargs passed_def by (rule map_of_dict_update [OF d])
  have rest: "map_of rest (lit name) = (if cache_key = None \<and> name = ''prompt_cache_key'' then None else map_of extra (lit name))" for name
    by (simp add: rest_def delete_conv')
  have kw: "passed kw name = (if name = ''model_kwargs'' \<and> jtruthy key then Some (JObj [(lit ''prompt_cache_key'', key)]) else passed (base_kwargs c) name)" for name
    using base(1) by (auto simp: passed_def kw_def map_add_def split: option.split)
  have routed: "routed_key kwargs = (if jtruthy key then Some key else None)"
    unfolding routed_key_def look rest using assms(3) base(1) by (simp add: kw)
  have nonempty: "lit ''doci:'' \<noteq> []" by (simp add: lit_def)
  show ?thesis
    using routed base nonempty by (auto simp: look rest kw setting_of_def key_def pop_def split: option.split)
qed

definition sample_llm :: "(ustr \<times> json) list \<Rightarrow> llm_config" where
  "sample_llm extra = \<lparr>lc_model = lit ''openai:m'', lc_base_url = None, lc_api_key = Some (lit ''k''), lc_max_tokens = 4096,
     lc_timeout = 60, lc_max_retries = 2, lc_temperature = None, lc_extra_params = JObj extra\<rparr>"

theorem chat_model_parameters_witness:
  "\<exists>kwargs. chat_model_kwargs id (sample_llm [(lit ''prompt_cache_key'', JStr []), (lit ''timeout'', JInt 9)]) (lit ''AUDIT'') (Some (lit ''run'')) = Inr kwargs
     \<and> passed kwargs ''prompt_cache_key'' = Some (JStr []) \<and> routed_key kwargs = Some (JStr (lit ''run'')) \<and> passed kwargs ''timeout'' = Some (JInt 9)"
proof -
  let ?e = "[(lit ''prompt_cache_key'', JStr []), (lit ''timeout'', JInt 9)]"
  have e: "map_of ?e (lit ''model_kwargs'') = None" "map_of ?e (lit ''prompt_cache_key'') = Some (JStr [])" "map_of ?e (lit ''timeout'') = Some (JInt 9)"
    "distinct (map fst ?e)"
    by simp_all
  obtain kwargs where k: "chat_model_kwargs id (sample_llm ?e) (lit ''AUDIT'') (Some (lit ''run'')) = Inr kwargs"
    by (simp add: chat_model_kwargs_def sample_llm_def Let_def)
  show ?thesis
    using chat_model_parameters [OF _ e(4) e(1) k] k e
    by (auto simp: sample_llm_def lit_def)
qed

text \<open>
  How a setting is found.  A setting is the task's variable, else the shared one, else the code's
  default, an empty variable counting as unset; a setting that is set but not a number makes the
  construction fail.
\<close>

theorem llm_setting_levels:
  assumes "llm_config_from_env U upper flt loads env task dm dt dp = Inr c"
  shows "lc_model c = (case truthy (env (lit ''DOCI_LLM_'' @ upper task @ lit ''_MODEL'')) of Some m \<Rightarrow> m
        | None \<Rightarrow> (case truthy (env (lit ''DOCI_LLM_MODEL'')) of Some m \<Rightarrow> m | None \<Rightarrow> dm))
    \<and> (case truthy (env (lit ''DOCI_LLM_'' @ upper task @ lit ''_MAX_TOKENS'')) of Some s \<Rightarrow> py_int U s = Some (lc_max_tokens c)
        | None \<Rightarrow> (case truthy (env (lit ''DOCI_LLM_MAX_TOKENS'')) of Some s \<Rightarrow> py_int U s = Some (lc_max_tokens c) | None \<Rightarrow> lc_max_tokens c = dt))
    \<and> (llm_env upper env task (lit ''PARAMS'') = None \<longrightarrow> lc_extra_params c = JObj dp)"
proof -
  have app: "lit s @ lit t = lit (s @ t)" for s t by (simp add: lit_def)
  obtain mt where mt: "llm_int U upper env task ''MAX_TOKENS'' dt = Inr mt" "lc_max_tokens c = mt"
    using assms by (auto simp: llm_config_from_env_def)
  have m: "lc_model c = (case llm_env upper env task (lit ''MODEL'') of None \<Rightarrow> dm | Some m \<Rightarrow> m)"
    and p: "llm_env upper env task (lit ''PARAMS'') = None \<longrightarrow> lc_extra_params c = JObj dp"
    using assms by (auto simp: llm_config_from_env_def)
  show ?thesis using m mt p
    by (auto simp: llm_int_def llm_env_def app split: option.splits)
qed

theorem llm_setting_levels_witness:
  "\<exists>c. llm_config_from_env U id (\<lambda>_. None) (\<lambda>_. None) (\<lambda>_. None) (lit ''AUDIT'') (lit ''openai:m'') 4096 [] = Inr c
     \<and> lc_model c = lit ''openai:m'' \<and> lc_max_tokens c = 4096 \<and> lc_extra_params c = JObj []"
proof -
  obtain c where c: "llm_config_from_env U id (\<lambda>_. None) (\<lambda>_. None) (\<lambda>_. None) (lit ''AUDIT'') (lit ''openai:m'') 4096 [] = Inr c"
    by (simp add: llm_config_from_env_def llm_int_def llm_env_def truthy_def)
  show ?thesis using llm_setting_levels [OF c] c by (simp add: llm_env_def truthy_def)
qed

end
