(* ===== verification/Names.thy ===== *)
theory Names
  imports Dates
begin

section \<open>Fuzzy name matching\<close>

text \<open>
  \<open>doci/tools/fuzzy_match_name.py\<close>.  \<open>difflib.SequenceMatcher\<close> without a junk function is
  modelled as the standard library has it: the index of the second text without its popular characters,
  the longest match by rows of run lengths, its extension on both sides, and the recursion left and
  right of it.  Only the sum of the block sizes is used, so the blocks are not sorted and merged.
  The Unicode tables are arguments: \<open>nfkd\<close> is \<open>unicodedata.normalize("NFKD", s)\<close>, \<open>comb\<close> tells
  the combining characters.  Floats are as in the theory of the money tools.
\<close>

subsection \<open>difflib.SequenceMatcher\<close>

definition positions :: "ustr \<Rightarrow> nat \<Rightarrow> nat list" where
  "positions b c = filter (\<lambda>j. b ! j = c) [0..<length b]"

definition popular :: "ustr \<Rightarrow> nat \<Rightarrow> bool" where
  "popular b c \<longleftrightarrow> 200 \<le> length b \<and> length b div 100 + 1 < length (positions b c)"

definition b2j :: "ustr \<Rightarrow> nat \<Rightarrow> nat list" where
  "b2j b c = (if popular b c then [] else positions b c)"

type_synonym block = "nat \<times> nat \<times> nat"

text \<open>\<open>run\<close> is \<open>j2len\<close>: the length of the match that ends in the row before, per column.\<close>

definition run_before :: "(nat \<Rightarrow> nat) \<Rightarrow> nat \<Rightarrow> nat" where
  "run_before run j = (if j = 0 then 0 else run (j - 1))"

definition lm_cell :: "nat \<Rightarrow> (nat \<Rightarrow> nat) \<Rightarrow> nat \<Rightarrow> (nat \<Rightarrow> nat) \<times> block \<Rightarrow> (nat \<Rightarrow> nat) \<times> block" where
  "lm_cell i run j = (\<lambda>(new, bi, bj, bs).
     let k = run_before run j + 1 in (new(j := k), if bs < k then (i + 1 - k, j + 1 - k, k) else (bi, bj, bs)))"

definition columns :: "ustr \<Rightarrow> ustr \<Rightarrow> nat \<Rightarrow> nat \<Rightarrow> nat \<Rightarrow> nat list" where
  "columns a b blo bhi i = filter (\<lambda>j. blo \<le> j \<and> j < bhi) (b2j b (a ! i))"

definition lm_row :: "ustr \<Rightarrow> ustr \<Rightarrow> nat \<Rightarrow> nat \<Rightarrow> nat \<Rightarrow> (nat \<Rightarrow> nat) \<times> block \<Rightarrow> (nat \<Rightarrow> nat) \<times> block" where
  "lm_row a b blo bhi i = (\<lambda>(run, best). fold (lm_cell i run) (columns a b blo bhi i) (\<lambda>_. 0, best))"

definition lm_rows :: "ustr \<Rightarrow> ustr \<Rightarrow> nat \<Rightarrow> nat \<Rightarrow> nat \<Rightarrow> nat \<Rightarrow> (nat \<Rightarrow> nat) \<times> block" where
  "lm_rows a b alo ahi blo bhi = fold (lm_row a b blo bhi) [alo..<ahi] (\<lambda>_. 0, alo, blo, 0)"

fun extend_left :: "ustr \<Rightarrow> ustr \<Rightarrow> nat \<Rightarrow> nat \<Rightarrow> nat \<Rightarrow> nat \<Rightarrow> nat \<Rightarrow> block" where
  "extend_left a b alo blo i j k =
     (if alo < i \<and> blo < j \<and> a ! (i - 1) = b ! (j - 1) then extend_left a b alo blo (i - 1) (j - 1) (k + 1) else (i, j, k))"

function extend_right :: "ustr \<Rightarrow> ustr \<Rightarrow> nat \<Rightarrow> nat \<Rightarrow> nat \<Rightarrow> nat \<Rightarrow> nat \<Rightarrow> block" where
  "extend_right a b ahi bhi i j k =
     (if i + k < ahi \<and> j + k < bhi \<and> a ! (i + k) = b ! (j + k) then extend_right a b ahi bhi i j (k + 1) else (i, j, k))"
  by pat_completeness auto
termination
  by (relation "measure (\<lambda>(a, b, ahi, bhi, i, j, k). ahi - (i + k))") auto

declare extend_left.simps [simp del] extend_right.simps [simp del]

definition find_longest_match :: "ustr \<Rightarrow> ustr \<Rightarrow> nat \<Rightarrow> nat \<Rightarrow> nat \<Rightarrow> nat \<Rightarrow> block" where
  "find_longest_match a b alo ahi blo bhi =
     (case snd (lm_rows a b alo ahi blo bhi) of (i, j, k) \<Rightarrow>
        case extend_left a b alo blo i j k of (i, j, k) \<Rightarrow> extend_right a b ahi bhi i j k)"

text \<open>A block found in a range lies in it and matches; nothing found is the corner of the range.\<close>

definition matches_at :: "ustr \<Rightarrow> ustr \<Rightarrow> nat \<Rightarrow> nat \<Rightarrow> nat \<Rightarrow> bool" where
  "matches_at a b i j k \<longleftrightarrow> (\<forall>d < k. a ! (i + d) = b ! (j + d))"

definition block_ok :: "ustr \<Rightarrow> ustr \<Rightarrow> nat \<Rightarrow> nat \<Rightarrow> nat \<Rightarrow> nat \<Rightarrow> block \<Rightarrow> bool" where
  "block_ok a b alo ahi blo bhi = (\<lambda>(i, j, k).
     (if k = 0 then i = alo \<and> j = blo else alo \<le> i \<and> blo \<le> j \<and> i + k \<le> ahi \<and> j + k \<le> bhi \<and> matches_at a b i j k))"

lemma matches_at_Suc: "matches_at a b i j (Suc k) \<longleftrightarrow> a ! i = b ! j \<and> matches_at a b (Suc i) (Suc j) k"
  unfolding matches_at_def by (metis (no_types, lifting) Suc_less_eq add_Suc add_Suc_right not0_implies_Suc plus_nat.add_0 zero_less_Suc add.right_neutral add_Suc_shift)

lemma matches_at_snoc: "matches_at a b i j (Suc k) \<longleftrightarrow> matches_at a b i j k \<and> a ! (i + k) = b ! (j + k)"
  by (auto simp: matches_at_def less_Suc_eq)

lemma matches_at_append: "matches_at a b i j (k + l) \<longleftrightarrow> matches_at a b i j k \<and> matches_at a b (i + k) (j + k) l"
  by (induction l) (auto simp: matches_at_snoc ac_simps, simp_all add: matches_at_def)

text \<open>The runs of a row: closed form of the inner loop.\<close>

lemma lm_cells:
  "fst (fold (lm_cell i run) js (new, best)) = (\<lambda>j. if j \<in> set js then run_before run j + 1 else new j)"
  by (induction js arbitrary: new best) (auto simp: lm_cell_def Let_def split: prod.splits)

lemma lm_cells_best:
  "snd (snd best) \<le> snd (snd (snd (fold (lm_cell i run) js (new, best))))
    \<and> (\<forall>j \<in> set js. run_before run j + 1 \<le> snd (snd (snd (fold (lm_cell i run) js (new, best)))))"
proof (induction js arbitrary: new best)
  case (Cons j js)
  obtain bi bj bs where b: "best = (bi, bj, bs)" by (cases best)
  define nb where "nb = (if bs < run_before run j + 1 then (i + 1 - (run_before run j + 1), j + 1 - (run_before run j + 1), run_before run j + 1) else (bi, bj, bs))"
  have step: "lm_cell i run j (new, best) = (new(j := run_before run j + 1), nb)"
    by (simp add: lm_cell_def b nb_def Let_def)
  have "bs \<le> snd (snd nb)" "run_before run j + 1 \<le> snd (snd nb)" by (auto simp: nb_def)
  moreover have "fold (lm_cell i run) (j # js) (new, best) = fold (lm_cell i run) js (new(j := run_before run j + 1), nb)"
    by (simp only: fold.simps comp_apply step)
  ultimately show ?case using Cons.IH [where best = nb and new = "new(j := run_before run j + 1)"] by (auto simp only: b snd_conv set_simps)
qed simp

definition run_ok :: "ustr \<Rightarrow> ustr \<Rightarrow> nat \<Rightarrow> nat \<Rightarrow> nat \<Rightarrow> nat \<Rightarrow> (nat \<Rightarrow> nat) \<Rightarrow> bool" where
  "run_ok a b alo blo bhi i run \<longleftrightarrow> (\<forall>j. 0 < run j \<longrightarrow>
     blo + run j \<le> j + 1 \<and> j < bhi \<and> alo + run j \<le> i \<and> matches_at a b (i - run j) (j + 1 - run j) (run j))"

lemma run_step:
  assumes "run_ok a b alo blo bhi i run" and "alo \<le> i" and "j \<in> set (columns a b blo bhi i)" and "k = run_before run j + 1"
  shows "blo + k \<le> j + 1 \<and> j < bhi \<and> alo + k \<le> i + 1 \<and> matches_at a b (i + 1 - k) (j + 1 - k) k"
proof -
  have j: "blo \<le> j" "j < bhi" "b ! j = a ! i"
    using assms(3) by (auto simp: columns_def b2j_def positions_def split: if_splits)
  show ?thesis
  proof (cases "run_before run j")
    case 0
    then show ?thesis using assms(2,4) j by (simp add: matches_at_def)
  next
    case (Suc r)
    then have r: "0 < run (j - 1)" "run (j - 1) = Suc r" "j = Suc (j - 1)" by (auto simp: run_before_def split: if_splits)
    then have m: "blo + Suc r \<le> j" "alo + Suc r \<le> i" "matches_at a b (i - Suc r) (j - Suc r) (Suc r)"
      using assms(1) unfolding run_ok_def by (metis Suc_eq_plus1)+
    have "matches_at a b (i - Suc r) (j - Suc r) (Suc (Suc r))"
      using m j(3) by (subst matches_at_snoc) simp
    then show ?thesis using m j Suc assms(4) by simp
  qed
qed

lemma lm_row_ok:
  assumes "run_ok a b alo blo bhi i run" and "alo \<le> i" and "block_ok a b alo i blo bhi best"
  shows "run_ok a b alo blo bhi (i + 1) (fst (lm_row a b blo bhi i (run, best)))
    \<and> block_ok a b alo (i + 1) blo bhi (snd (lm_row a b blo bhi i (run, best)))"
proof
  show "run_ok a b alo blo bhi (i + 1) (fst (lm_row a b blo bhi i (run, best)))"
    using run_step [OF assms(1,2)] unfolding run_ok_def lm_row_def prod.case lm_cells by simp
  have "block_ok a b alo (i + 1) blo bhi (snd (fold (lm_cell i run) js (new, best)))"
    if "set js \<subseteq> set (columns a b blo bhi i)" "block_ok a b alo (i + 1) blo bhi best" for js new best
    using that
  proof (induction js arbitrary: new best)
    case (Cons j js)
    obtain bi bj bs where b: "best = (bi, bj, bs)" by (cases best)
    define k where "k = run_before run j + 1"
    have k: "0 < k" "blo + k \<le> j + 1" "j < bhi" "alo + k \<le> i + 1" "matches_at a b (i + 1 - k) (j + 1 - k) k"
      using run_step [OF assms(1,2) _ k_def] Cons.prems(1) by (auto simp: k_def)
    define nb where "nb = (if bs < k then (i + 1 - k, j + 1 - k, k) else (bi, bj, bs))"
    have nb: "block_ok a b alo (i + 1) blo bhi nb"
      using k Cons.prems(2) by (auto simp: nb_def block_ok_def b)
    have "fold (lm_cell i run) (j # js) (new, best) = fold (lm_cell i run) js (new(j := k), nb)"
      by (simp add: lm_cell_def b nb_def Let_def k_def)
    then show ?case using Cons.IH [OF _ nb] Cons.prems(1) by simp
  qed simp
  moreover have "block_ok a b alo (i + 1) blo bhi best"
    using assms(3) by (auto simp: block_ok_def split: prod.splits if_splits)
  ultimately show "block_ok a b alo (i + 1) blo bhi (snd (lm_row a b blo bhi i (run, best)))"
    by (simp add: lm_row_def)
qed

lemma lm_rows_ok:
  "run_ok a b alo blo bhi (alo + n) (fst (lm_rows a b alo (alo + n) blo bhi))
    \<and> block_ok a b alo (alo + n) blo bhi (snd (lm_rows a b alo (alo + n) blo bhi))"
proof (induction n)
  case 0
  then show ?case by (simp add: lm_rows_def run_ok_def block_ok_def)
next
  case (Suc n)
  obtain run best where r: "lm_rows a b alo (alo + n) blo bhi = (run, best)" by (cases "lm_rows a b alo (alo + n) blo bhi")
  have "lm_rows a b alo (alo + Suc n) blo bhi = lm_row a b blo bhi (alo + n) (run, best)"
    using r by (simp add: lm_rows_def)
  then show ?case using lm_row_ok [of a b alo blo bhi "alo + n" run best] Suc by (simp add: r)
qed

lemma lm_rows_block: "block_ok a b alo ahi blo bhi (snd (lm_rows a b alo ahi blo bhi))"
proof (cases "alo \<le> ahi")
  case True
  then show ?thesis using lm_rows_ok [of a b alo blo bhi "ahi - alo"] by simp
qed (simp add: lm_rows_def block_ok_def)

lemma extend_left_ok:
  "block_ok a b alo ahi blo bhi (i, j, k) \<Longrightarrow> block_ok a b alo ahi blo bhi (extend_left a b alo blo i j k)"
proof (induction a b alo blo i j k rule: extend_left.induct)
  case (1 a b alo blo i j k)
  show ?case
  proof (cases "alo < i \<and> blo < j \<and> a ! (i - 1) = b ! (j - 1)")
    case True
    have "matches_at a b (i - 1) (j - 1) (Suc k)"
      using True "1.prems" by (subst matches_at_Suc) (auto simp: block_ok_def split: if_splits)
    then have "block_ok a b alo ahi blo bhi (i - 1, j - 1, k + 1)"
      using True "1.prems" by (auto simp: block_ok_def split: if_splits)
    then show ?thesis using "1.IH" [OF True] True by (subst extend_left.simps) simp
  qed (use "1.prems" in \<open>subst extend_left.simps, auto\<close>)
qed

lemma extend_right_ok:
  "block_ok a b alo ahi blo bhi (i, j, k) \<Longrightarrow> alo \<le> i \<Longrightarrow> blo \<le> j \<Longrightarrow> block_ok a b alo ahi blo bhi (extend_right a b ahi bhi i j k)"
proof (induction a b ahi bhi i j k rule: extend_right.induct)
  case (1 a b ahi bhi i j k)
  show ?case
  proof (cases "i + k < ahi \<and> j + k < bhi \<and> a ! (i + k) = b ! (j + k)")
    case True
    have "matches_at a b i j (Suc k)"
      using True "1.prems" by (subst matches_at_snoc) (auto simp: block_ok_def matches_at_def split: if_splits)
    then have "block_ok a b alo ahi blo bhi (i, j, k + 1)"
      using True "1.prems" by (auto simp: block_ok_def split: if_splits)
    then show ?thesis using "1.IH" [OF True] True "1.prems" by (subst extend_right.simps) simp
  qed (use "1.prems" in \<open>subst extend_right.simps, auto\<close>)
qed

lemma find_longest_match_ok: "block_ok a b alo ahi blo bhi (find_longest_match a b alo ahi blo bhi)"
proof -
  obtain i j k where r: "snd (lm_rows a b alo ahi blo bhi) = (i, j, k)" by (cases "snd (lm_rows a b alo ahi blo bhi)")
  obtain i' j' k' where l: "extend_left a b alo blo i j k = (i', j', k')" by (cases "extend_left a b alo blo i j k")
  have "block_ok a b alo ahi blo bhi (i', j', k')"
    using extend_left_ok [of a b alo ahi blo bhi i j k] lm_rows_block [of a b alo ahi blo bhi] by (simp add: r l)
  then show ?thesis
    using extend_right_ok [of a b alo ahi blo bhi i' j' k'] by (auto simp: find_longest_match_def r l block_ok_def split: if_splits)
qed

text \<open>
  \<open>get_matching_blocks\<close>: the sum of the sizes of the blocks.  A range is searched again left of a block
  and right of it, when neither side is empty.
\<close>

function block_sum :: "ustr \<Rightarrow> ustr \<Rightarrow> nat \<Rightarrow> nat \<Rightarrow> nat \<Rightarrow> nat \<Rightarrow> nat" where
  "block_sum a b alo ahi blo bhi =
     (case find_longest_match a b alo ahi blo bhi of (i, j, k) \<Rightarrow>
        if k = 0 then 0
        else k + (if alo < i \<and> blo < j then block_sum a b alo i blo j else 0)
               + (if i + k < ahi \<and> j + k < bhi then block_sum a b (i + k) ahi (j + k) bhi else 0))"
  by pat_completeness auto
termination
proof (relation "measure (\<lambda>(a, b, alo, ahi, blo, bhi). ahi - alo)", goal_cases)
  case (2 a b alo ahi blo bhi i jk j)
  then show ?case using find_longest_match_ok [of a b alo ahi blo bhi] by (auto simp: block_ok_def split: prod.splits)
next
  case (3 a b alo ahi blo bhi i jk j)
  then show ?case using find_longest_match_ok [of a b alo ahi blo bhi] by (auto simp: block_ok_def split: prod.splits)
qed simp

declare block_sum.simps [simp del]

definition ratio :: "ustr \<Rightarrow> ustr \<Rightarrow> rat" where
  "ratio a b = (let n = length a + length b in
     if n = 0 then 1 else b64 (of_nat (2 * block_sum a b 0 (length a) 0 (length b)) / of_nat n))"

subsection \<open>The tool\<close>

definition name_char :: "nat \<Rightarrow> bool" where
  "name_char c \<longleftrightarrow> (97 \<le> c \<and> c \<le> 122) \<or> (48 \<le> c \<and> c \<le> 57) \<or> c = 32"

text \<open>\<open>re.sub(r"\s+", " ", s)\<close>: a run of white space becomes one blank.\<close>

fun squeeze :: "ustr \<Rightarrow> ustr" where
  "squeeze [] = []"
| "squeeze (c # s) = (if py_space c then (case squeeze s of [] \<Rightarrow> [32] | x # t \<Rightarrow> if x = 32 then x # t else 32 # x # t) else c # squeeze s)"

definition norm_name :: "unicode \<Rightarrow> (ustr \<Rightarrow> ustr) \<Rightarrow> (nat \<Rightarrow> bool) \<Rightarrow> ustr \<Rightarrow> ustr" where
  "norm_name U nfkd comb s =
     (let s1 = filter (\<lambda>c. \<not> comb c) (nfkd s);
          s2 = map (\<lambda>c. if name_char c then c else 32) (ulower U s1)
      in py_strip (squeeze s2))"

text \<open>\<open>round(x, 1)\<close>.\<close>

definition round_tenth :: "rat \<Rightarrow> rat" where
  "round_tenth x = b64 (of_int (round_even (x * 10)) / 10)"

definition similarity :: "unicode \<Rightarrow> (ustr \<Rightarrow> ustr) \<Rightarrow> (nat \<Rightarrow> bool) \<Rightarrow> ustr \<Rightarrow> ustr \<Rightarrow> rat" where
  "similarity U nfkd comb a b = round_tenth (b64 (ratio (norm_name U nfkd comb a) (norm_name U nfkd comb b) * 100))"

record name_match =
  nm_score :: rat
  nm_match :: bool
  nm_threshold :: rat

definition fuzzy_match_name :: "unicode \<Rightarrow> (ustr \<Rightarrow> ustr) \<Rightarrow> (nat \<Rightarrow> bool) \<Rightarrow> ustr \<Rightarrow> ustr \<Rightarrow> rat \<Rightarrow> name_match tool_result" where
  "fuzzy_match_name U nfkd comb a b threshold =
     (if py_strip a = [] \<or> py_strip b = [] then ToolError [a, b]
      else let score = similarity U nfkd comb a b in ToolOk \<lparr>nm_score = score, nm_match = (threshold \<le> score), nm_threshold = threshold\<rparr>)"

subsection \<open>How many characters match\<close>

lemma block_sum_le: "block_sum a b alo ahi blo bhi \<le> min (ahi - alo) (bhi - blo)"
proof (induction a b alo ahi blo bhi rule: block_sum.induct)
  case (1 a b alo ahi blo bhi)
  obtain i j k where f: "find_longest_match a b alo ahi blo bhi = (i, j, k)" by (cases "find_longest_match a b alo ahi blo bhi")
  show ?case
  proof (cases "k = 0")
    case False
    have ok: "alo \<le> i" "blo \<le> j" "i + k \<le> ahi" "j + k \<le> bhi"
      using find_longest_match_ok [of a b alo ahi blo bhi] False by (simp_all add: f block_ok_def)
    define l where "l = (if alo < i \<and> blo < j then block_sum a b alo i blo j else 0)"
    define r where "r = (if i + k < ahi \<and> j + k < bhi then block_sum a b (i + k) ahi (j + k) bhi else 0)"
    have "l \<le> i - alo" "l \<le> j - blo" using "1.IH"(1) [OF f [symmetric] refl False] by (auto simp: l_def)
    moreover have "r \<le> ahi - (i + k)" "r \<le> bhi - (j + k)" using "1.IH"(2) [OF f [symmetric] refl False] by (auto simp: r_def)
    moreover have "block_sum a b alo ahi blo bhi = k + l + r"
      using False by (subst block_sum.simps) (simp add: f l_def r_def)
    ultimately have "block_sum a b alo ahi blo bhi \<le> ahi - alo" "block_sum a b alo ahi blo bhi \<le> bhi - blo" using ok by linarith+
    then show ?thesis by simp
  qed (subst block_sum.simps, simp add: f)
qed

text \<open>Everything matches only what is equal.\<close>

lemma block_sum_all:
  "block_sum a b alo ahi blo bhi = ahi - alo \<Longrightarrow> ahi - alo = bhi - blo \<Longrightarrow> matches_at a b alo blo (ahi - alo)"
proof (induction a b alo ahi blo bhi rule: block_sum.induct)
  case (1 a b alo ahi blo bhi)
  obtain i j k where f: "find_longest_match a b alo ahi blo bhi = (i, j, k)" by (cases "find_longest_match a b alo ahi blo bhi")
  show ?case
  proof (cases "k = 0")
    case True
    then have "block_sum a b alo ahi blo bhi = 0" by (subst block_sum.simps) (simp add: f)
    then show ?thesis using "1.prems" by (simp add: matches_at_def)
  next
    case False
    have ok: "alo \<le> i" "blo \<le> j" "i + k \<le> ahi" "j + k \<le> bhi" "matches_at a b i j k"
      using find_longest_match_ok [of a b alo ahi blo bhi] False by (simp_all add: f block_ok_def)
    define l where "l = (if alo < i \<and> blo < j then block_sum a b alo i blo j else 0)"
    define r where "r = (if i + k < ahi \<and> j + k < bhi then block_sum a b (i + k) ahi (j + k) bhi else 0)"
    have s: "block_sum a b alo ahi blo bhi = k + l + r"
      using False by (subst block_sum.simps) (simp add: f l_def r_def)
    have l: "l \<le> i - alo" "l \<le> j - blo" using block_sum_le [of a b alo i blo j] by (auto simp: l_def)
    have r: "r \<le> ahi - (i + k)" "r \<le> bhi - (j + k)" using block_sum_le [of a b "i + k" ahi "j + k" bhi] by (auto simp: r_def)
    have ij: "l = i - alo" "i - alo = j - blo" "r = ahi - (i + k)" "ahi - (i + k) = bhi - (j + k)"
      using l r ok "1.prems" s by linarith+
    have left: "matches_at a b alo blo (i - alo)"
      using "1.IH"(1) [OF f [symmetric] refl False] ij(1,2) by (cases "alo < i \<and> blo < j") (auto simp: l_def matches_at_def)
    have right: "matches_at a b (i + k) (j + k) (ahi - (i + k))"
      using "1.IH"(2) [OF f [symmetric] refl False] ij(3,4) by (cases "i + k < ahi \<and> j + k < bhi") (auto simp: r_def matches_at_def)
    have "ahi - alo = (i - alo) + (k + (ahi - (i + k)))" "alo + (i - alo) = i" "blo + (i - alo) = j" using ok ij by linarith+
    then show ?thesis using left right ok(5) by (simp only: matches_at_append)
  qed
qed

text \<open>A text matches itself as one block, unless it is long enough for popular characters to be left out.\<close>

lemma self_rows:
  assumes "length a < 200" and "n \<le> length a"
  shows "n = 0 \<or> fst (lm_rows a a 0 n 0 (length a)) (n - 1) = n \<and> n \<le> snd (snd (snd (lm_rows a a 0 n 0 (length a))))"
  using assms(2)
proof (induction n)
  case (Suc n)
  obtain run best where r: "lm_rows a a 0 n 0 (length a) = (run, best)" by (cases "lm_rows a a 0 n 0 (length a)")
  have row: "lm_rows a a 0 (Suc n) 0 (length a) = lm_row a a 0 (length a) n (run, best)"
    using r by (simp add: lm_rows_def)
  have n: "n \<in> set (columns a a 0 (length a) n)"
    using assms(1) Suc.prems by (simp add: columns_def b2j_def popular_def positions_def)
  have before: "run_before run n = n"
    using Suc.IH Suc.prems r by (cases n) (auto simp: run_before_def)
  have "fst (lm_rows a a 0 (Suc n) 0 (length a)) n = Suc n"
    using n before by (simp add: row lm_row_def lm_cells)
  moreover have "Suc n \<le> snd (snd (snd (lm_rows a a 0 (Suc n) 0 (length a))))"
    using lm_cells_best [of best n run "columns a a 0 (length a) n" "\<lambda>_. 0"] n before by (auto simp: row lm_row_def)
  ultimately show ?case by simp
qed simp

lemma block_sum_self:
  assumes "length a < 200"
  shows "block_sum a a 0 (length a) 0 (length a) = length a"
proof (cases "a = []")
  case True
  then show ?thesis using block_sum_le [of a a 0 0 0 0] by simp
next
  case False
  obtain i j k where r: "snd (lm_rows a a 0 (length a) 0 (length a)) = (i, j, k)" by (cases "snd (lm_rows a a 0 (length a) 0 (length a))")
  have "length a \<le> k" using self_rows [OF assms order_refl] False by (simp add: r)
  then have "i = 0" "j = 0" "k = length a"
    using lm_rows_block [of a a 0 "length a" 0 "length a"] False by (auto simp: r block_ok_def split: if_splits)
  then have "find_longest_match a a 0 (length a) 0 (length a) = (0, 0, length a)"
    by (simp add: find_longest_match_def r extend_left.simps [of a a 0 0 0] extend_right.simps [of a a "length a" "length a" 0 0])
  then show ?thesis using False by (subst block_sum.simps) simp
qed

lemma matched_all_iff:
  assumes "length a < 200" and "length b < 200"
  shows "2 * block_sum a b 0 (length a) 0 (length b) = length a + length b \<longleftrightarrow> a = b"
proof
  assume s: "2 * block_sum a b 0 (length a) 0 (length b) = length a + length b"
  have le: "block_sum a b 0 (length a) 0 (length b) \<le> length a" "block_sum a b 0 (length a) 0 (length b) \<le> length b"
    using block_sum_le [of a b 0 "length a" 0 "length b"] by simp_all
  then have "block_sum a b 0 (length a) 0 (length b) = length a" "length a = length b" using s by linarith+
  then have "matches_at a b 0 0 (length a)" "length a = length b"
    using block_sum_all [of a b 0 "length a" 0 "length b"] by simp_all
  then show "a = b" by (simp add: matches_at_def list_eq_iff_nth_eq)
qed (use block_sum_self assms in simp)

subsection \<open>The score\<close>

lemma b64_le: "0 \<le> x \<Longrightarrow> b64 x \<le> x + x / 2 ^ 53"
  using b64_error [of x] unfolding abs_le_iff by linarith

lemma round_even_le: "x < of_int n + 1 / 2 \<Longrightarrow> round_even x \<le> n"
proof -
  assume "x < of_int n + 1 / 2"
  then have "of_int (round_even x) < (of_int (n + 1) :: rat)"
    using round_even_near [of x] unfolding abs_le_iff by simp
  then show ?thesis unfolding of_int_less_iff by simp
qed

text \<open>A score of 100 is one that rounds to a thousand tenths.\<close>

lemma round_tenth_bounds:
  assumes "0 \<le> x" and "x < 100 + 1 / 50"
  shows "0 \<le> round_tenth x" and "round_tenth x \<le> 100" and "round_tenth x = 100 \<longleftrightarrow> round_even (x * 10) = 1000"
proof -
  define m where "m = round_even (x * 10)"
  have m: "0 \<le> m" "m \<le> 1000"
    using assms round_even_nonneg [of "x * 10"] round_even_le [of "x * 10" 1000] by (simp_all add: m_def)
  have r: "round_tenth x = b64 (of_int m / 10)" by (simp add: round_tenth_def m_def)
  show "0 \<le> round_tenth x" unfolding r using m by (intro b64_nonneg) simp
  have "round_tenth x = 100" if "m = 1000" using b64_exact [of 100] that by (simp add: r)
  moreover have "round_tenth x < 100" if "m \<noteq> 1000"
  proof -
    have "(of_int m :: rat) \<le> of_int 999" using m that unfolding of_int_le_iff by linarith
    then have "of_int m / 10 + of_int m / 10 / 2 ^ 53 < (100 :: rat)" by (simp add: field_simps)
    then show ?thesis using b64_le [of "of_int m / 10"] m unfolding r by simp
  qed
  ultimately show "round_tenth x \<le> 100" and "round_tenth x = 100 \<longleftrightarrow> round_even (x * 10) = 1000"
    by (cases "m = 1000"; fastforce simp: m_def)+
qed

lemma ratio_bounds: "0 \<le> ratio a b" "ratio a b \<le> 1 + 1 / 2 ^ 53"
proof -
  let ?s = "block_sum a b 0 (length a) 0 (length b)" and ?n = "length a + length b"
  define q where "q = (of_nat (2 * ?s) / of_nat ?n :: rat)"
  have "2 * ?s \<le> ?n" using block_sum_le [of a b 0 "length a" 0 "length b"] by simp
  then have q: "0 \<le> q" "q \<le> 1" by (simp_all add: q_def divide_le_eq_1 del: of_nat_mult of_nat_add)
  have "b64 q \<le> 1 + 1 / 2 ^ 53" using b64_le [OF q(1)] q(2) by simp
  moreover have "ratio a b = (if ?n = 0 then 1 else b64 q)" by (simp add: ratio_def q_def Let_def)
  ultimately show "0 \<le> ratio a b" "ratio a b \<le> 1 + 1 / 2 ^ 53"
    using b64_nonneg [OF q(1)] by auto
qed

lemma percent_bounds: "0 \<le> b64 (ratio a b * 100)" "b64 (ratio a b * 100) < 100 + 1 / 50"
proof -
  have "ratio a b * 100 + ratio a b * 100 / 2 ^ 53 < 100 + 1 / 50" using ratio_bounds(2) [of a b] by simp
  then show "b64 (ratio a b * 100) < 100 + 1 / 50" using b64_le [of "ratio a b * 100"] ratio_bounds(1) [of a b] by simp
qed (use ratio_bounds(1) [of a b] in \<open>simp add: b64_nonneg\<close>)

lemma ratio_self: "length a < 200 \<Longrightarrow> ratio a a = 1"
  using block_sum_self [of a] b64_exact [of 1] by (auto simp: ratio_def Let_def)

lemma percent_different:
  assumes "length a < 200" and "length b < 200" and "a \<noteq> b"
  shows "b64 (ratio a b * 100) < 998 / 10"
proof -
  let ?s = "block_sum a b 0 (length a) 0 (length b)" and ?n = "length a + length b"
  have n: "0 < ?n" "?n \<le> 398" using assms by (auto simp: Suc_leI)
  have "2 * ?s + 1 \<le> ?n"
    using block_sum_le [of a b 0 "length a" 0 "length b"] matched_all_iff [OF assms(1,2)] assms(3) by linarith
  moreover have "(of_nat t / of_nat m :: rat) \<le> 397 / 398" if "t + 1 \<le> m" "m \<le> 398" for t m :: nat
  proof -
    have "398 * t \<le> 397 * m" using that by linarith
    then have "(of_nat (398 * t) :: rat) \<le> of_nat (397 * m)" by (rule of_nat_mono)
    then show ?thesis using that by (simp add: field_simps)
  qed
  ultimately have x: "(of_nat (2 * ?s) / of_nat ?n :: rat) \<le> 397 / 398" using n(2) by blast
  have "ratio a b \<le> of_nat (2 * ?s) / of_nat ?n + of_nat (2 * ?s) / of_nat ?n / 2 ^ 53"
    using b64_le [of "of_nat (2 * ?s) / of_nat ?n"] n(1) by (simp add: ratio_def Let_def del: of_nat_add of_nat_mult)
  also have "\<dots> \<le> 397 / 398 + 397 / 398 / 2 ^ 53" using x by (intro add_mono divide_right_mono) auto
  finally have "ratio a b * 100 + ratio a b * 100 / 2 ^ 53 < 998 / 10" by simp
  then show ?thesis using b64_le [of "ratio a b * 100"] ratio_bounds(1) [of a b] by simp
qed

lemma score_100_iff:
  assumes "length a < 200" and "length b < 200"
  shows "round_tenth (b64 (ratio a b * 100)) = 100 \<longleftrightarrow> a = b"
proof (cases "a = b")
  case True
  have "b64 100 = 100" using b64_exact [of 100] by simp
  moreover have "round_even (1000 :: rat) = 1000" using round_even_int [of 1000] by simp
  ultimately have "round_tenth (b64 (ratio a b * 100)) = 100"
    using ratio_self [OF assms(2)] round_tenth_bounds(3) [of 100] by (simp add: True)
  then show ?thesis using True by simp
next
  case False
  have "round_even (b64 (ratio a b * 100) * 10) \<le> 998"
    using percent_different [OF assms False] by (intro round_even_le) simp
  then show ?thesis using round_tenth_bounds(3) [OF percent_bounds] False by simp
qed

text \<open>Only \<open>a\<close> to \<open>z\<close>, digits and blanks survive the normalisation.\<close>

definition latin_free :: "unicode \<Rightarrow> (ustr \<Rightarrow> ustr) \<Rightarrow> (nat \<Rightarrow> bool) \<Rightarrow> ustr \<Rightarrow> bool" where
  "latin_free U nfkd comb s \<longleftrightarrow> (\<forall>c \<in> set (ulower U (filter (\<lambda>c. \<not> comb c) (nfkd s))). \<not> name_char c)"

lemma squeeze_blank: "set s \<subseteq> {32} \<Longrightarrow> set (squeeze s) \<subseteq> {32}"
  by (induction s) (auto split: list.splits)

lemma py_strip_blank: "set s \<subseteq> {32} \<Longrightarrow> py_strip s = []"
proof -
  assume "set s \<subseteq> {32}"
  then have "\<forall>c \<in> set s. py_space c" by (auto simp: py_space_def)
  then have "dropWhile py_space s = []" unfolding dropWhile_eq_Nil_conv .
  then show ?thesis by (simp only: py_strip_def rev.simps dropWhile.simps)
qed

lemma norm_name_blank:
  assumes "latin_free U nfkd comb s"
  shows "norm_name U nfkd comb s = []"
proof -
  have "set (map (\<lambda>c. if name_char c then c else 32) (ulower U (filter (\<lambda>c. \<not> comb c) (nfkd s)))) \<subseteq> {32}" using assms by (auto simp: latin_free_def)
  then show ?thesis unfolding norm_name_def Let_def by (intro py_strip_blank squeeze_blank)
qed

text \<open>
  C36.  What a score says.  The tool answers for any two names that are not blank, with a score between 0
  and 100; and for names of fewer than 200 characters after normalisation the score is 100 exactly when the
  normalised names are equal, so no rounding turns two different names into a full match.
  But names none of whose characters survives the normalisation, as names in another script, match each other
  fully, whatever they are.
\<close>

theorem name_score_exact:
  assumes "py_strip a \<noteq> []" and "py_strip b \<noteq> []"
  shows "\<exists>m. fuzzy_match_name U nfkd comb a b threshold = ToolOk m \<and> 0 \<le> nm_score m \<and> nm_score m \<le> 100
    \<and> (nm_match m \<longleftrightarrow> threshold \<le> nm_score m)
    \<and> (length (norm_name U nfkd comb a) < 200 \<and> length (norm_name U nfkd comb b) < 200
        \<longrightarrow> (nm_score m = 100 \<longleftrightarrow> norm_name U nfkd comb a = norm_name U nfkd comb b))
    \<and> (latin_free U nfkd comb a \<and> latin_free U nfkd comb b \<longrightarrow> nm_score m = 100)"
  using assms round_tenth_bounds(1,2) [OF percent_bounds, of "norm_name U nfkd comb a" "norm_name U nfkd comb b"]
    score_100_iff [of "norm_name U nfkd comb a" "norm_name U nfkd comb b"] score_100_iff [of "[]" "[]"]
    norm_name_blank [of U nfkd comb a] norm_name_blank [of U nfkd comb b]
  by (simp add: fuzzy_match_name_def similarity_def Let_def)

theorem name_score_exact_witness:
  "(\<exists>m. fuzzy_match_name ascii_unicode id (\<lambda>_. False) (lit ''ACME, Ltd.'') (lit ''acme  ltd'') 85 = ToolOk m \<and> nm_score m = 100)
   \<and> (\<exists>m. fuzzy_match_name ascii_unicode id (\<lambda>_. False) [21271, 20140] [26481, 20140] 85 = ToolOk m \<and> nm_score m = 100)"
proof -
  have "norm_name ascii_unicode id (\<lambda>_. False) (lit ''ACME, Ltd.'') = lit ''acme ltd''"
    "norm_name ascii_unicode id (\<lambda>_. False) (lit ''acme  ltd'') = lit ''acme ltd''"
    "py_strip (lit ''ACME, Ltd.'') \<noteq> []" "py_strip (lit ''acme  ltd'') \<noteq> []"
    by (simp_all add: norm_name_def ascii_unicode_def lit_def name_char_def py_strip_def py_space_def)
  moreover have "latin_free ascii_unicode id (\<lambda>_. False) [21271, 20140]" "latin_free ascii_unicode id (\<lambda>_. False) [26481, 20140]"
    "py_strip [21271, 20140] \<noteq> []" "py_strip [26481, 20140] \<noteq> []"
    by (simp_all add: latin_free_def ascii_unicode_def name_char_def py_strip_def py_space_def)
  ultimately show ?thesis
    using name_score_exact [of "[21271, 20140]" "[26481, 20140]" ascii_unicode id "\<lambda>_. False" 85] name_score_exact [of "lit ''ACME, Ltd.''" "lit ''acme  ltd''" ascii_unicode id "\<lambda>_. False" 85] by (auto simp: lit_def)
qed

end
