(* ===== verification/Objects.thy ===== *)
theory Objects
  imports Media Kv
begin

section \<open>The object store client\<close>

text \<open>
  \<open>doci/objstore/config.py\<close> and \<open>client.py\<close>.  S3 is a service: a map from buckets to their objects,
  where a \<open>put\<close> replaces, a \<open>get\<close> or \<open>head\<close> of a missing key raises, a \<open>delete\<close> succeeds whether the
  key exists or not, and every operation on a missing bucket raises.  Signing a request is the argument
  \<open>sign\<close>; \<open>stamp\<close> is the tag and time the service gives a new object.
\<close>

subsection \<open>Configuration\<close>

record objstore_config =
  oc_endpoint_url :: "ustr option"
  oc_public_endpoint_url :: "ustr option"
  oc_region :: ustr
  oc_access_key_id :: "ustr option"
  oc_secret_access_key :: "ustr option"
  oc_bucket :: "ustr option"
  oc_presign_expiry :: int
  oc_force_path_style :: bool

definition objstore_env_bool :: "unicode \<Rightarrow> environ \<Rightarrow> ustr \<Rightarrow> bool \<Rightarrow> bool" where
  "objstore_env_bool U env name dflt = (case env name of None \<Rightarrow> dflt
     | Some raw \<Rightarrow> ulower U (py_strip raw) \<in> set (map lit [''1'', ''true'', ''yes'', ''on'']))"

definition objstore_config_from_env :: "unicode \<Rightarrow> environ \<Rightarrow> objstore_config option" where
  "objstore_config_from_env U env =
     (case (case env (lit ''S3_PRESIGN_EXPIRY'') of None \<Rightarrow> Some 900 | Some s \<Rightarrow> py_int U s) of
        None \<Rightarrow> None
      | Some expiry \<Rightarrow> Some \<lparr>oc_endpoint_url = env (lit ''S3_ENDPOINT_URL''), oc_public_endpoint_url = env (lit ''S3_PUBLIC_ENDPOINT_URL''),
          oc_region = (case truthy (env (lit ''S3_REGION'')) of Some r \<Rightarrow> r
            | None \<Rightarrow> (case truthy (env (lit ''AWS_REGION'')) of Some r \<Rightarrow> r | None \<Rightarrow> lit ''us-east-1'')),
          oc_access_key_id = env (lit ''S3_ACCESS_KEY_ID''), oc_secret_access_key = env (lit ''S3_SECRET_ACCESS_KEY''),
          oc_bucket = env (lit ''S3_BUCKET''), oc_presign_expiry = expiry,
          oc_force_path_style = objstore_env_bool U env (lit ''S3_FORCE_PATH_STYLE'') True\<rparr>)"

subsection \<open>Clients\<close>

record s3_client =
  cl_endpoint :: "ustr option"
  cl_region :: ustr
  cl_credentials :: "ustr option \<times> ustr option"
  cl_path_style :: bool

definition s3_client_kwargs :: "objstore_config \<Rightarrow> ustr option \<Rightarrow> s3_client" where
  "s3_client_kwargs c endpoint = \<lparr>cl_endpoint = endpoint, cl_region = oc_region c,
     cl_credentials = (oc_access_key_id c, oc_secret_access_key c), cl_path_style = oc_force_path_style c\<rparr>"

definition main_client :: "objstore_config \<Rightarrow> s3_client" where
  "main_client c = s3_client_kwargs c (oc_endpoint_url c)"

definition presign_client :: "objstore_config \<Rightarrow> s3_client" where
  "presign_client c = (case truthy (oc_public_endpoint_url c) of
     None \<Rightarrow> main_client c
   | Some pub \<Rightarrow> if Some pub \<noteq> oc_endpoint_url c then s3_client_kwargs c (Some pub) else main_client c)"

datatype objstore_error = NoBucketGiven | NoSuchBucket | NoSuchKey

definition bucket_of :: "objstore_config \<Rightarrow> ustr option \<Rightarrow> objstore_error + ustr" where
  "bucket_of c bucket = (case truthy bucket of Some b \<Rightarrow> Inr b
     | None \<Rightarrow> (case truthy (oc_bucket c) of Some b \<Rightarrow> Inr b | None \<Rightarrow> Inl NoBucketGiven))"

definition expiry_of :: "objstore_config \<Rightarrow> int option \<Rightarrow> int" where
  "expiry_of c expires_in = (case expires_in of Some e \<Rightarrow> e | None \<Rightarrow> oc_presign_expiry c)"

subsection \<open>Presigned requests\<close>

datatype s3_op = PutObject | GetObject

type_synonym params = "(ustr \<times> ustr) list"

type_synonym signer = "s3_client \<Rightarrow> s3_op \<Rightarrow> params \<Rightarrow> int \<Rightarrow> ustr"

definition base_params :: "ustr \<Rightarrow> ustr \<Rightarrow> params" where
  "base_params b key = [(lit ''Bucket'', b), (lit ''Key'', key)]"

definition presign_put ::
  "signer \<Rightarrow> objstore_config \<Rightarrow> ustr \<Rightarrow> ustr option \<Rightarrow> int option \<Rightarrow> ustr option \<Rightarrow> params \<Rightarrow> objstore_error + ustr" where
  "presign_put sign c key bucket expires_in content_type extra =
     bindE (bucket_of c bucket) (\<lambda>b.
       let ps = base_params b key @ (case truthy content_type of None \<Rightarrow> [] | Some t \<Rightarrow> [(lit ''ContentType'', t)]);
           ps = fold (\<lambda>(k, v). AList.update k v) extra ps
       in Inr (sign (presign_client c) PutObject ps (expiry_of c expires_in)))"

definition presign_get ::
  "signer \<Rightarrow> objstore_config \<Rightarrow> ustr \<Rightarrow> ustr option \<Rightarrow> int option \<Rightarrow> ustr option \<Rightarrow> objstore_error + ustr" where
  "presign_get sign c key bucket expires_in download_as =
     bindE (bucket_of c bucket) (\<lambda>b.
       let ps = base_params b key @ (case truthy download_as of None \<Rightarrow> []
             | Some n \<Rightarrow> [(lit ''ResponseContentDisposition'', lit ''attachment; filename='' @ [34] @ n @ [34])])
       in Inr (sign (presign_client c) GetObject ps (expiry_of c expires_in)))"

definition presign_post ::
  "(s3_client \<Rightarrow> ustr \<Rightarrow> ustr \<Rightarrow> 'f \<Rightarrow> int \<Rightarrow> ustr \<times> params) \<Rightarrow> objstore_config \<Rightarrow> ustr \<Rightarrow> ustr option \<Rightarrow> int option \<Rightarrow> 'f
   \<Rightarrow> objstore_error + ustr \<times> params" where
  "presign_post sign_post c key bucket expires_in policy =
     bindE (bucket_of c bucket) (\<lambda>b. Inr (sign_post (presign_client c) b key policy (expiry_of c expires_in)))"

subsection \<open>Objects\<close>

record s3_object =
  so_body :: "byte list"
  so_type :: "ustr option"
  so_etag :: ustr
  so_modified :: time

type_synonym s3 = "ustr \<Rightarrow> (ustr \<Rightarrow> s3_object option) option"

definition s3_ping :: "bool \<Rightarrow> objstore_config \<Rightarrow> s3 \<Rightarrow> bool" where
  "s3_ping up c s \<longleftrightarrow> up \<and> (case truthy (oc_bucket c) of None \<Rightarrow> True | Some b \<Rightarrow> s b \<noteq> None)"

definition get_object :: "ustr \<Rightarrow> ustr \<Rightarrow> s3 \<Rightarrow> objstore_error + s3_object" where
  "get_object b key s = (case s b of None \<Rightarrow> Inl NoSuchBucket
     | Some os \<Rightarrow> (case os key of None \<Rightarrow> Inl NoSuchKey | Some x \<Rightarrow> Inr x))"

definition objstore_download :: "objstore_config \<Rightarrow> ustr \<Rightarrow> ustr option \<Rightarrow> s3 \<Rightarrow> objstore_error + byte list" where
  "objstore_download c key bucket s = bindE (bucket_of c bucket) (\<lambda>b. bindE (get_object b key s) (\<lambda>x. Inr (so_body x)))"

definition objstore_upload ::
  "ustr \<times> time \<Rightarrow> objstore_config \<Rightarrow> ustr \<Rightarrow> byte list \<Rightarrow> ustr option \<Rightarrow> ustr option \<Rightarrow> s3 \<Rightarrow> (objstore_error + unit) \<times> s3" where
  "objstore_upload stamp c key data bucket content_type s =
     (case bucket_of c bucket of
        Inl e \<Rightarrow> (Inl e, s)
      | Inr b \<Rightarrow> (case s b of
          None \<Rightarrow> (Inl NoSuchBucket, s)
        | Some os \<Rightarrow> (Inr (), s(b \<mapsto> os(key \<mapsto> \<lparr>so_body = data, so_type = truthy content_type, so_etag = fst stamp, so_modified = snd stamp\<rparr>)))))"

definition objstore_delete :: "objstore_config \<Rightarrow> ustr \<Rightarrow> ustr option \<Rightarrow> s3 \<Rightarrow> (objstore_error + unit) \<times> s3" where
  "objstore_delete c key bucket s =
     (case bucket_of c bucket of
        Inl e \<Rightarrow> (Inl e, s)
      | Inr b \<Rightarrow> (case s b of None \<Rightarrow> (Inl NoSuchBucket, s) | Some os \<Rightarrow> (Inr (), s(b \<mapsto> os(key := None)))))"

record object_metadata =
  om_bucket :: ustr
  om_key :: ustr
  om_size :: nat
  om_type :: "ustr option"
  om_etag :: ustr
  om_modified :: time

definition get_metadata :: "objstore_config \<Rightarrow> ustr \<Rightarrow> ustr option \<Rightarrow> s3 \<Rightarrow> objstore_error + object_metadata" where
  "get_metadata c key bucket s = bindE (bucket_of c bucket) (\<lambda>b. bindE (get_object b key s) (\<lambda>x.
     Inr \<lparr>om_bucket = b, om_key = key, om_size = length (so_body x), om_type = so_type x, om_etag = so_etag x, om_modified = so_modified x\<rparr>))"

text \<open>
  \<open>body.read(n)\<close> delivers at most \<open>n\<close> bytes and at least one unless nothing is left; how many is up to
  the connection, the argument \<open>short\<close>.  The generator runs until the body ends or its consumer stops:
  it is asked for at most \<open>demand\<close> chunks, and closes the body either way.  The result is the chunks
  and the bytes read.
\<close>

definition body_read :: "(byte list \<Rightarrow> nat) \<Rightarrow> nat \<Rightarrow> byte list \<Rightarrow> byte list" where
  "body_read short n rest = take (min n (max 1 (short rest))) rest"

fun stream_loop :: "(byte list \<Rightarrow> nat) \<Rightarrow> nat \<Rightarrow> byte list \<Rightarrow> nat \<Rightarrow> nat \<Rightarrow> byte list list \<times> nat" where
  "stream_loop short n rest sofar 0 = ([], sofar)"
| "stream_loop short n rest sofar (Suc demand) =
     (let chunk = body_read short n rest
      in if chunk = [] then ([], sofar)
         else let (cs, t) = stream_loop short n (drop (length chunk) rest) (sofar + length chunk) demand in (chunk # cs, t))"

definition objstore_stream ::
  "(byte list \<Rightarrow> nat) \<Rightarrow> objstore_config \<Rightarrow> ustr \<Rightarrow> ustr option \<Rightarrow> nat \<Rightarrow> nat \<Rightarrow> s3 \<Rightarrow> objstore_error + byte list list \<times> nat" where
  "objstore_stream short c key bucket chunk_size demand s =
     bindE (bucket_of c bucket) (\<lambda>b. bindE (get_object b key s) (\<lambda>x. Inr (stream_loop short chunk_size (so_body x) 0 demand)))"

subsection \<open>Streaming\<close>

lemma body_read_append: "body_read short n rest @ drop (length (body_read short n rest)) rest = rest"
  by (simp add: body_read_def min_def)

lemma body_read_Nil: "0 < n \<Longrightarrow> body_read short n rest = [] \<longleftrightarrow> rest = []"
  by (auto simp: body_read_def min_def)

lemma stream_loop_spec:
  "0 < n \<Longrightarrow> stream_loop short n rest sofar demand = (cs, t) \<Longrightarrow>
     t = sofar + length (concat cs) \<and> (\<exists>tail. rest = concat cs @ tail) \<and> (\<forall>ch \<in> set cs. ch \<noteq> [] \<and> length ch \<le> n)
     \<and> length cs \<le> demand \<and> (length rest < demand \<longrightarrow> concat cs = rest)"
proof (induction short n rest sofar demand arbitrary: cs t rule: stream_loop.induct)
  case (2 short n rest sofar demand)
  define ch where "ch = body_read short n rest"
  show ?case
  proof (cases "ch = []")
    case True
    then show ?thesis using "2.prems" body_read_Nil [OF "2.prems"(1), of short rest] by (simp add: ch_def)
  next
    case False
    obtain ds u where r: "stream_loop short n (drop (length ch) rest) (sofar + length ch) demand = (ds, u)"
      by (cases "stream_loop short n (drop (length ch) rest) (sofar + length ch) demand")
    have cs: "cs = ch # ds" "t = u" using "2.prems"(2) False r by (simp_all add: ch_def Let_def)
    note ih = "2.IH" [OF ch_def False "2.prems"(1) r]
    have rest: "rest = ch @ drop (length ch) rest" using body_read_append [of short n rest] by (simp add: ch_def)
    have ch: "length ch \<le> n" "0 < length ch" using False by (simp_all add: ch_def body_read_def)
    have short: "length (drop (length ch) rest) < demand" if "length rest < Suc demand"
    proof -
      have "length ch \<le> length rest" using rest by (metis le_add1 length_append)
      then show ?thesis unfolding length_drop using that ch(2) by linarith
    qed
    from ih obtain tail where tail: "drop (length ch) rest = concat ds @ tail" by blast
    have "rest = concat cs @ tail" using rest tail cs by simp
    moreover have "concat cs = rest" if "length rest < Suc demand" using ih short [OF that] cs rest by simp
    moreover have "t = sofar + length (concat cs)" "length cs \<le> Suc demand" using ih cs by simp_all
    moreover have "\<forall>ch \<in> set cs. ch \<noteq> [] \<and> length ch \<le> n" using ih cs(1) ch(1) False by (metis set_ConsD)
    ultimately show ?thesis by blast
  qed
qed simp

text \<open>
  C20.  An upload is judged by its bytes.  The body of a stored object streams as non-empty chunks of at most
  the chunk size that together are the object, however short the reads are, so validation over the stream gives
  the verdict of the body; and a consumer that stops once it has reached the cap has read less than the cap
  and one chunk.
\<close>

theorem stream_judged_by_bytes:
  assumes "objstore_download c key bucket s = Inr data" and "0 < chunk_size" and "0 < cap"
  shows "(\<exists>cs t. objstore_stream short c key bucket chunk_size (Suc (length data)) s = Inr (cs, t) \<and> concat cs = data \<and> t = length data
        \<and> (\<forall>ch \<in> set cs. ch \<noteq> [] \<and> length ch \<le> chunk_size)
        \<and> validate_object U namelist cap cs name = validate_object U namelist cap [data] name)
    \<and> (\<exists>cs t. objstore_stream short c key bucket chunk_size demand s = Inr (cs, t)
        \<and> (read_capped cap [] (butlast cs) \<noteq> None \<longrightarrow> t < cap + chunk_size))"
proof -
  obtain b x where x: "bucket_of c bucket = Inr b" "get_object b key s = Inr x" "so_body x = data"
    using assms(1) by (auto simp: objstore_download_def)
  have stream: "objstore_stream short c key bucket chunk_size d s = Inr (stream_loop short chunk_size data 0 d)" for d
    using x by (simp add: objstore_stream_def)
  obtain cs t where l: "stream_loop short chunk_size data 0 (Suc (length data)) = (cs, t)"
    by (cases "stream_loop short chunk_size data 0 (Suc (length data))")
  note spec = stream_loop_spec [OF assms(2) l]
  have "validate_object U namelist cap cs name = validate_object U namelist cap [data] name"
    using spec assms(3) by (simp add: validate_object_def read_capped_eq)
  then have judged: "\<exists>cs t. objstore_stream short c key bucket chunk_size (Suc (length data)) s = Inr (cs, t) \<and> concat cs = data \<and> t = length data
      \<and> (\<forall>ch \<in> set cs. ch \<noteq> [] \<and> length ch \<le> chunk_size)
      \<and> validate_object U namelist cap cs name = validate_object U namelist cap [data] name"
    unfolding stream l using spec by auto
  obtain ds u where m: "stream_loop short chunk_size data 0 demand = (ds, u)" by (cases "stream_loop short chunk_size data 0 demand")
  note spec = stream_loop_spec [OF assms(2) m]
  have "u < cap + chunk_size" if "read_capped cap [] (butlast ds) \<noteq> None"
  proof (cases ds rule: rev_cases)
    case Nil
    then show ?thesis using spec assms(3) by simp
  next
    case (snoc es e)
    then have "length (concat es) < cap" using that assms(3) by (simp add: read_capped_eq split: if_splits)
    then show ?thesis using spec snoc by fastforce
  qed
  then show ?thesis using judged by (simp add: stream m)
qed

subsection \<open>The contract of an object store\<close>

text \<open>What the media service relies on: a map from keys to bodies.\<close>

locale object_store =
  fixes ready :: "'s \<Rightarrow> bool"
    and look :: "ustr \<Rightarrow> 's \<Rightarrow> byte list option"
    and put :: "ustr \<Rightarrow> byte list option \<Rightarrow> 's \<Rightarrow> 's"
  assumes look_put: "ready s \<Longrightarrow> look k (put j d s) = (if k = j then d else look k s)"
    and ready_put: "ready s \<Longrightarrow> ready (put j d s)"
begin

definition writes :: "(ustr \<times> byte list option) list \<Rightarrow> 's \<Rightarrow> 's" where
  "writes ws s = fold (\<lambda>(j, d). put j d) ws s"

lemma writes_simps [simp]: "writes [] s = s" "writes ((j, d) # ws) s = writes ws (put j d s)"
  by (simp_all add: writes_def)

lemma look_writes:
  "ready s \<Longrightarrow> ready (writes ws s) \<and> look k (writes ws s) = (case map_of (rev ws) k of None \<Rightarrow> look k s | Some d \<Rightarrow> d)"
proof (induction ws arbitrary: s)
  case (Cons w ws)
  obtain j d where w: "w = (j, d)" by fastforce
  have "map_of (rev (w # ws)) k = (case map_of (rev ws) k of None \<Rightarrow> (if k = j then Some d else None) | Some d' \<Rightarrow> Some d')"
    by (simp add: w map_add_def split: option.split)
  then show ?case using Cons.IH [OF ready_put [OF Cons.prems]] Cons.prems by (auto simp: w look_put split: option.split)
qed simp

end

text \<open>The objects of the media world, and those of the configured bucket through the client.\<close>

definition world_put :: "ustr \<Rightarrow> byte list option \<Rightarrow> world \<Rightarrow> world" where
  "world_put j d w = w\<lparr>objs := (objs w)(j := d)\<rparr>"

interpretation media: object_store "\<lambda>_. True" "\<lambda>k w. objs w k" world_put
  by unfold_locales (simp_all add: world_put_def)

definition bucket_ready :: "objstore_config \<Rightarrow> s3 \<Rightarrow> bool" where
  "bucket_ready c s \<longleftrightarrow> (\<exists>b os. bucket_of c None = Inr b \<and> s b = Some os)"

definition client_look :: "objstore_config \<Rightarrow> ustr \<Rightarrow> s3 \<Rightarrow> byte list option" where
  "client_look c key s = (case objstore_download c key None s of Inl e \<Rightarrow> None | Inr d \<Rightarrow> Some d)"

definition client_put :: "ustr \<times> time \<Rightarrow> ustr option \<Rightarrow> objstore_config \<Rightarrow> ustr \<Rightarrow> byte list option \<Rightarrow> s3 \<Rightarrow> s3" where
  "client_put stamp t c key d s = (case d of
     None \<Rightarrow> snd (objstore_delete c key None s) | Some data \<Rightarrow> snd (objstore_upload stamp c key data None t s))"

interpretation client: object_store "bucket_ready c" "client_look c" "client_put stamp t c" for c stamp t
proof unfold_locales
  fix s k j d
  assume "bucket_ready c s"
  then obtain b os where b: "bucket_of c None = Inr b" "s b = Some os" by (auto simp: bucket_ready_def)
  show "client_look c k (client_put stamp t c j d s) = (if k = j then d else client_look c k s)"
    using b by (cases d) (simp_all add: client_look_def client_put_def objstore_download_def objstore_delete_def objstore_upload_def get_object_def)
  show "bucket_ready c (client_put stamp t c j d s)"
    using b by (cases d) (simp_all add: client_put_def objstore_delete_def objstore_upload_def bucket_ready_def)
qed

text \<open>
  C15.  The client implements the object store of the media service.  On a configured, existing bucket every
  upload and deletion succeeds and leaves other buckets alone, and after any sequence of them a download returns
  what the same sequence leaves in the abstract map of keys to bodies, and raises exactly where it has nothing.
\<close>

theorem objstore_refines_world:
  assumes "bucket_ready c s" and "\<And>k. client_look c k s = objs w k"
  shows "client_look c k (fold (\<lambda>(j, d). client_put stamp t c j d) ws s) = objs (fold (\<lambda>(j, d). world_put j d) ws w) k
    \<and> fst (objstore_upload stamp c k data None t s) = Inr () \<and> fst (objstore_delete c k None s) = Inr ()
    \<and> objstore_download c k None s = (case objs w k of None \<Rightarrow> Inl NoSuchKey | Some d \<Rightarrow> Inr d)
    \<and> (bucket_of c None \<noteq> Inr b \<longrightarrow> client_put stamp t c k d s b = s b)"
proof (intro conjI impI)
  show "client_look c k (fold (\<lambda>(j, d). client_put stamp t c j d) ws s) = objs (fold (\<lambda>(j, d). world_put j d) ws w) k"
    using client.look_writes [OF assms(1), where k = k and ws = ws] media.look_writes [where s = w and k = k and ws = ws] assms(2) [of k]
    by (simp add: client.writes_def media.writes_def split: option.split)
  obtain b' os where b: "bucket_of c None = Inr b'" "s b' = Some os" using assms(1) by (auto simp: bucket_ready_def)
  show "fst (objstore_upload stamp c k data None t s) = Inr ()" "fst (objstore_delete c k None s) = Inr ()"
    using b by (simp_all add: objstore_upload_def objstore_delete_def)
  show "objstore_download c k None s = (case objs w k of None \<Rightarrow> Inl NoSuchKey | Some d \<Rightarrow> Inr d)"
    using assms(2) [of k, symmetric] b by (auto simp: client_look_def objstore_download_def get_object_def split: option.splits sum.splits)
  show "client_put stamp t c k d s b = s b" if "bucket_of c None \<noteq> Inr b"
    using b that by (cases d) (auto simp: client_put_def objstore_upload_def objstore_delete_def)
qed

subsection \<open>Witnesses\<close>

definition demo_store_config :: objstore_config where
  "demo_store_config = \<lparr>oc_endpoint_url = None, oc_public_endpoint_url = None, oc_region = lit ''us-east-1'', oc_access_key_id = None,
     oc_secret_access_key = None, oc_bucket = Some (lit ''doci''), oc_presign_expiry = 900, oc_force_path_style = True\<rparr>"

definition demo_s3 :: s3 where
  "demo_s3 = [lit ''doci'' \<mapsto> [lit ''k'' \<mapsto> \<lparr>so_body = [1, 2, 3], so_type = None, so_etag = [], so_modified = 0\<rparr>]]"

lemma demo_download: "objstore_download demo_store_config (lit ''k'') None demo_s3 = Inr [1, 2, 3]"
  by (simp add: objstore_download_def demo_store_config_def demo_s3_def bucket_of_def truthy_def get_object_def lit_def)

theorem stream_judged_by_bytes_witness:
  "\<exists>cs t. objstore_stream (\<lambda>_. 1) demo_store_config (lit ''k'') None 2 (Suc (length [1, 2, 3 :: byte])) demo_s3 = Inr (cs, t) \<and> concat cs = [1, 2, 3]
     \<and> validate_object ascii_unicode (\<lambda>_. None) 1 cs None = Inl TooLarge"
proof -
  have "validate_object ascii_unicode (\<lambda>_. None) 1 [[1, 2, 3]] None = Inl TooLarge" by (simp add: validate_object_def)
  moreover note stream_judged_by_bytes [OF demo_download, where chunk_size = 2 and cap = 1 and short = "\<lambda>_. 1" and U = ascii_unicode
      and namelist = "\<lambda>_. None" and name = None and demand = 0]
  ultimately show ?thesis by (metis zero_less_numeral zero_less_one)
qed

theorem objstore_refines_world_witness:
  "client_look demo_store_config (lit ''k'') (fold (\<lambda>(j, d). client_put ([], 0) None demo_store_config j d) [(lit ''k'', Some [7]), (lit ''l'', None)] demo_s3) = Some [7]"
proof -
  have look: "client_look demo_store_config k demo_s3 = objs \<lparr>wdb = empty_db, objs = [lit ''k'' \<mapsto> [1, 2, 3]]\<rparr> k" for k
    by (simp add: client_look_def objstore_download_def demo_store_config_def demo_s3_def bucket_of_def truthy_def get_object_def lit_def)
  have "bucket_ready demo_store_config demo_s3"
    by (simp add: bucket_ready_def demo_store_config_def demo_s3_def bucket_of_def truthy_def lit_def)
  note refines = objstore_refines_world [OF this look, where k = "lit ''k''" and ws = "[(lit ''k'', Some [7]), (lit ''l'', None)]"]
  show ?thesis unfolding conjunct1 [OF refines] by (simp add: world_put_def lit_def)
qed

end
