(* ===== verification/Pages.thy ===== *)
theory Pages
  imports Mining
begin

section \<open>Activities on PDFs and images\<close>

text \<open>
  \<open>doci/activities/split_pdf.py\<close>, \<open>create_thumb_pdf.py\<close>, \<open>create_thumb_image.py\<close>,
  \<open>render_image_pdf.py\<close> and \<open>extract_content_pdf.py\<close>.  What PyMuPDF finds in a document and draws is
  the record \<open>pymupdf\<close>, whose operations may raise (\<open>None\<close>).  An activity runs on the number of documents
  that are open and returns its result and that number afterwards.  Thumbnail geometry is in floats, rounded
  as in the theory of the money tools.
\<close>

type_synonym rect = "rat \<times> rat \<times> rat \<times> rat"

record 'd pymupdf =
  mu_open_pdf :: "byte list \<Rightarrow> 'd option"
  mu_open_any :: "byte list \<Rightarrow> 'd option"
  mu_page_count :: "'d \<Rightarrow> nat"
  mu_text :: "'d \<Rightarrow> nat \<Rightarrow> ustr option"
  mu_images :: "'d \<Rightarrow> nat \<Rightarrow> nat option"
  mu_annots :: "'d \<Rightarrow> nat \<Rightarrow> nat option"
  mu_widgets :: "'d \<Rightarrow> nat \<Rightarrow> nat option"
  mu_single :: "'d \<Rightarrow> nat \<Rightarrow> byte list option"
  mu_words :: "'d \<Rightarrow> (rect \<times> ustr) list option"
  mu_rect :: "'d \<Rightarrow> (rat \<times> rat) option"
  mu_draw :: "int \<times> int \<Rightarrow> rect list \<Rightarrow> rat \<times> rat \<times> rat \<Rightarrow> byte list option"
  mu_pixmap :: "'d \<Rightarrow> rat \<Rightarrow> bool \<Rightarrow> byte list option"
  mu_markdown :: "'d \<Rightarrow> ustr option"

type_synonym 'a opened = "nat \<Rightarrow> 'a option \<times> nat"

text \<open>\<open>try: ... finally: doc.close()\<close> around an open.\<close>

definition with_open :: "'d option \<Rightarrow> ('d \<Rightarrow> 'a opened) \<Rightarrow> 'a opened" where
  "with_open src body h = (case src of None \<Rightarrow> (None, h) | Some d \<Rightarrow> (case body d (h + 1) of (r, h') \<Rightarrow> (r, h' - 1)))"

subsection \<open>Splitting\<close>

text \<open>\<open>next(page.annots(), None) is not None or next(page.widgets(), None) is not None\<close>.\<close>

definition has_annotations :: "'d pymupdf \<Rightarrow> 'd \<Rightarrow> nat \<Rightarrow> bool option" where
  "has_annotations M src i = (case mu_annots M src i of None \<Rightarrow> None
     | Some n \<Rightarrow> if 0 < n then Some True else map_option (\<lambda>m. 0 < m) (mu_widgets M src i))"

definition iter_page :: "'d pymupdf \<Rightarrow> 'd \<Rightarrow> nat \<Rightarrow> nat \<Rightarrow> pdf_page opened" where
  "iter_page M src npages i h =
     (case mu_text M src i of None \<Rightarrow> (None, h) | Some text \<Rightarrow>
      case mu_images M src i of None \<Rightarrow> (None, h) | Some images \<Rightarrow>
      case has_annotations M src i of None \<Rightarrow> (None, h) | Some annots \<Rightarrow>
        with_open (Some ()) (\<lambda>_ h'. (map_option (\<lambda>content. \<lparr>pg_number = i + 1, pg_count = npages, pg_content = content,
          pg_text_len = length (py_strip text), pg_images = images, pg_annots = annots\<rparr>) (mu_single M src i), h')) h)"

fun iter_pages :: "'d pymupdf \<Rightarrow> 'd \<Rightarrow> nat \<Rightarrow> nat list \<Rightarrow> pdf_page list opened" where
  "iter_pages M src npages [] h = (Some [], h)"
| "iter_pages M src npages (i # is) h =
     (case iter_page M src npages i h of
        (None, h') \<Rightarrow> (None, h')
      | (Some p, h') \<Rightarrow> (case iter_pages M src npages is h' of (r, h'') \<Rightarrow> (map_option (\<lambda>ps. p # ps) r, h'')))"

definition split_pdf :: "'d pymupdf \<Rightarrow> byte list \<Rightarrow> pdf_page list opened" where
  "split_pdf M data = with_open (mu_open_pdf M data) (\<lambda>src. iter_pages M src (mu_page_count M src) [0..<mu_page_count M src])"

subsection \<open>Rendering\<close>

text \<open>The thumbnail of a page: one rectangle per word, on a page of the given width.  A page of no width raises.\<close>

definition scale_rect :: "rat \<Rightarrow> rect \<Rightarrow> rect" where
  "scale_rect s = (\<lambda>(x0, y0, x1, y1). (b64 (x0 * s), b64 (y0 * s), b64 (x1 * s), b64 (y1 * s)))"

definition minimap :: "'d pymupdf \<Rightarrow> int \<Rightarrow> rat \<Rightarrow> 'd \<Rightarrow> (rect \<times> ustr) list \<Rightarrow> byte list opened" where
  "minimap M width shade page words h =
     (case mu_rect M page of None \<Rightarrow> (None, h) | Some (w, ht) \<Rightarrow>
        if w = 0 then (None, h)
        else let scale = b64 (of_int width / w)
             in with_open (Some ()) (\<lambda>_ h'. (mu_draw M (width, max 1 (round_even (b64 (ht * scale))))
                  (map (\<lambda>(r, _). scale_rect scale r) words) (shade, shade, shade), h')) h)"

definition create_thumb_pdf :: "'d pymupdf \<Rightarrow> int \<Rightarrow> rat \<Rightarrow> byte list \<Rightarrow> byte list opened" where
  "create_thumb_pdf M width shade data = with_open (mu_open_pdf M data) (\<lambda>src h.
     if mu_page_count M src = 0 then (None, h)
     else case mu_words M src of None \<Rightarrow> (None, h) | Some words \<Rightarrow> minimap M (max 1 width) shade src words h)"

definition create_thumb_image :: "'d pymupdf \<Rightarrow> int \<Rightarrow> byte list \<Rightarrow> byte list opened" where
  "create_thumb_image M width data = with_open (mu_open_any M data) (\<lambda>src h.
     if mu_page_count M src = 0 then (None, h)
     else case mu_rect M src of None \<Rightarrow> (None, h) | Some (w, _) \<Rightarrow>
       if w = 0 then (None, h) else (mu_pixmap M src (b64 (of_int (max 1 width) / w)) True, h))"

definition render_image_pdf :: "'d pymupdf \<Rightarrow> rat \<Rightarrow> byte list \<Rightarrow> byte list opened" where
  "render_image_pdf M zoom data = with_open (mu_open_pdf M data) (\<lambda>src h.
     if mu_page_count M src = 0 then (None, h) else (mu_pixmap M src zoom False, h))"

definition extract_content_pdf :: "'d pymupdf \<Rightarrow> byte list \<Rightarrow> ustr opened" where
  "extract_content_pdf M data = with_open (mu_open_pdf M data) (\<lambda>src h. (mu_markdown M src, h))"

subsection \<open>Properties\<close>

lemma with_open_handles: "(\<And>d h. snd (body d h) = h) \<Longrightarrow> snd (with_open src body h) = h"
  by (cases src) (simp_all add: with_open_def case_prod_beta)

lemma iter_page_handles: "snd (iter_page M src npages i h) = h"
  by (simp add: iter_page_def with_open_def split: option.split)

lemma iter_pages_handles: "snd (iter_pages M src npages is h) = h"
proof (induction "is" arbitrary: h)
  case (Cons i js)
  obtain r h' where p: "iter_page M src npages i h = (r, h')" by (cases "iter_page M src npages i h")
  then show ?case using Cons.IH [of h'] iter_page_handles [of M src npages i h]
    by (simp add: case_prod_beta split: option.split)
qed simp

lemma iter_page_result: "fst (iter_page M src npages i h) = Some p \<Longrightarrow>
    pg_number p = i + 1 \<and> pg_count p = npages \<and> mu_single M src i = Some (pg_content p)
    \<and> (\<exists>text. mu_text M src i = Some text \<and> pg_text_len p = length (py_strip text))
    \<and> mu_images M src i = Some (pg_images p) \<and> has_annotations M src i = Some (pg_annots p)"
  by (auto simp: iter_page_def with_open_def split: option.splits)

lemma iter_pages_result: "fst (iter_pages M src npages is h) = Some ps \<Longrightarrow>
    map pg_number ps = map Suc is \<and> (\<forall>p \<in> set ps. pg_count p = npages) \<and> map (Some \<circ> pg_content) ps = map (mu_single M src) is"
proof (induction "is" arbitrary: h ps)
  case (Cons i js)
  obtain r h' where p: "iter_page M src npages i h = (r, h')" by (cases "iter_page M src npages i h")
  obtain p qs where ps: "r = Some p" "fst (iter_pages M src npages js h') = Some qs" "ps = p # qs"
    using Cons.prems p by (auto split: option.splits prod.splits)
  then show ?case using Cons.IH [OF ps(2)] iter_page_result [of M src npages i h p] by (simp add: p)
qed simp

text \<open>
  No document stays open.  Whatever fails, every activity leaves as many PyMuPDF documents open as it
  found; and a split that succeeds yields the pages of the document one by one, numbered from 1 to the count that
  each of them carries, each with its own single-page content.
\<close>

theorem pdf_activities_close:
  shows "snd (split_pdf M data h) = h \<and> snd (create_thumb_pdf M width shade data h) = h \<and> snd (create_thumb_image M width data h) = h
    \<and> snd (render_image_pdf M zoom data h) = h \<and> snd (extract_content_pdf M data h) = h
    \<and> (\<forall>ps. fst (split_pdf M data h) = Some ps \<longrightarrow> (\<exists>src. mu_open_pdf M data = Some src
         \<and> map pg_number ps = [1..<Suc (mu_page_count M src)] \<and> (\<forall>p \<in> set ps. pg_count p = mu_page_count M src)
         \<and> map (Some \<circ> pg_content) ps = map (mu_single M src) [0..<mu_page_count M src]))"
proof (intro conjI allI impI)
  show "snd (split_pdf M data h) = h"
    by (simp add: split_pdf_def with_open_handles iter_pages_handles)
  show "snd (create_thumb_pdf M width shade data h) = h"
    unfolding create_thumb_pdf_def minimap_def
    by (rule with_open_handles) (auto simp: Let_def with_open_handles split: option.split)
  show "snd (create_thumb_image M width data h) = h"
    unfolding create_thumb_image_def by (rule with_open_handles) (auto split: option.split)
  show "snd (render_image_pdf M zoom data h) = h" "snd (extract_content_pdf M data h) = h"
    by (simp_all add: render_image_pdf_def extract_content_pdf_def with_open_handles)
next
  fix ps
  assume "fst (split_pdf M data h) = Some ps"
  then obtain src where s: "mu_open_pdf M data = Some src"
      "fst (iter_pages M src (mu_page_count M src) [0..<mu_page_count M src] (h + 1)) = Some ps"
    by (auto simp: split_pdf_def with_open_def split: option.splits prod.splits)
  then show "\<exists>src. mu_open_pdf M data = Some src
         \<and> map pg_number ps = [1..<Suc (mu_page_count M src)] \<and> (\<forall>p \<in> set ps. pg_count p = mu_page_count M src)
         \<and> map (Some \<circ> pg_content) ps = map (mu_single M src) [0..<mu_page_count M src]"
    using iter_pages_result [OF s(2)] by (auto simp: map_Suc_upt)
qed

text \<open>A document with two pages.\<close>

definition two_pages :: "unit pymupdf" where
  "two_pages = \<lparr>mu_open_pdf = (\<lambda>_. Some ()), mu_open_any = (\<lambda>_. Some ()), mu_page_count = (\<lambda>_. 2), mu_text = (\<lambda>_ i. Some (lit '' x '')),
     mu_images = (\<lambda>_ _. Some 0), mu_annots = (\<lambda>_ _. Some 0), mu_widgets = (\<lambda>_ _. Some 0), mu_single = (\<lambda>_ i. Some [of_nat i]),
     mu_words = (\<lambda>_. Some []), mu_rect = (\<lambda>_. Some (10, 20)), mu_draw = (\<lambda>_ _ _. Some []), mu_pixmap = (\<lambda>_ _ _. Some []), mu_markdown = (\<lambda>_. None)\<rparr>"

theorem pdf_activities_close_witness:
  "\<exists>ps. split_pdf two_pages [] 5 = (Some ps, 5) \<and> map pg_number ps = [1, 2] \<and> map pg_content ps = [[0], [1]]"
proof -
  obtain ps where ps: "fst (split_pdf two_pages [] 5) = Some ps"
    by (simp add: split_pdf_def two_pages_def with_open_def iter_page_def has_annotations_def upt_rec [of _ 2] numeral_2_eq_2)
  note close = pdf_activities_close [of two_pages "[]" 5 160 1 2]
  have "map pg_number ps = [1..<Suc 2]" "map (Some \<circ> pg_content) ps = map (\<lambda>i. Some [of_nat i]) [0..<2]"
    using close ps by (auto simp: two_pages_def)
  then have "map pg_number ps = [1, 2]" and some: "map Some (map pg_content ps) = map Some [[0], [1]]"
    by (simp_all add: upt_rec [of _ 2] numeral_2_eq_2)
  moreover have "map pg_content ps = [[0], [1]]" by (rule map_injective [OF some]) simp
  moreover have "snd (split_pdf two_pages [] 5) = 5" using close by blast
  ultimately show ?thesis using ps by (metis prod.collapse)
qed

end
