(* ===== verification/Annotate.thy ===== *)
theory Annotate
  imports Pages Llm
begin

section \<open>Activities that ask a model\<close>

text \<open>
  \<open>doci/activities/_vision.py\<close>, \<open>annotate_image.py\<close>, \<open>annotate_text.py\<close>,
  \<open>extract_content_image.py\<close>, \<open>reflect.py\<close> and the construction of the activities in the \<open>deps.py\<close> of the
  mining workflows.  A chat model is a function from the messages to its answer, \<open>None\<close> when the call raises;
  \<open>dump\<close> is \<open>model_dump_json\<close> of an annotation; the system prompts, files of \<open>doci/prompts\<close>, are an argument.
  An activity returns the messages it sent, in order, and its result.
\<close>

subsection \<open>Messages\<close>

datatype content_block = TextBlock ustr | ImageBlock ustr ustr

datatype chat_message = SystemMsg ustr | HumanText ustr | HumanBlocks "content_block list"

definition image_message :: "unicode \<Rightarrow> (byte list \<Rightarrow> ustr list option) \<Rightarrow> ustr \<Rightarrow> byte list \<Rightarrow> chat_message" where
  "image_message U namelist prompt img = HumanBlocks
     [TextBlock prompt,
      ImageBlock (case detect_mime U namelist img None of Some m \<Rightarrow> mime_str m | None \<Rightarrow> lit ''image/png'') (b64encode img)]"

subsection \<open>Prompts\<close>

record field_spec =
  fs_name :: ustr
  fs_hint :: "ustr option"

definition nl :: ustr where "nl = [10]"

definition quoted :: "ustr \<Rightarrow> ustr" where
  "quoted s = [8220] @ s @ [8221]"

definition field_lines :: "field_spec list \<Rightarrow> ustr" where
  "field_lines fs = join nl (map (\<lambda>f. lit ''- '' @ fs_name f @ (case truthy (fs_hint f) of None \<Rightarrow> [] | Some h \<Rightarrow> lit '': '' @ h)) fs)"

definition catalog :: "dossier_spec \<Rightarrow> ustr" where
  "catalog d = join nl (map (\<lambda>it. lit ''- '' @ di_key it @ lit '': '' @ di_name it
      @ (case truthy (di_description it) of None \<Rightarrow> [] | Some x \<Rightarrow> lit '' '' @ [8212] @ lit '' '' @ x)
      @ (case truthy (di_look_for it) of None \<Rightarrow> [] | Some x \<Rightarrow> nl @ lit ''    look for: '' @ x)) (ds_items d))"

definition watchlist :: "field_spec list option \<Rightarrow> ustr" where
  "watchlist flds = (case flds of None \<Rightarrow> [] | Some fs \<Rightarrow> if fs = [] then []
     else nl @ nl @ lit ''Fields to look for (extract into facts if present):'' @ nl @ field_lines fs)"

definition image_user_prompt :: "field_spec list option \<Rightarrow> dossier_spec option \<Rightarrow> ustr" where
  "image_user_prompt flds dossier =
     (case dossier of Some d \<Rightarrow>
        (if ds_items d \<noteq> [] then
           lit ''This image is one document from the '' @ [34] @ ds_name d @ [34] @ lit '' dossier. Set ''
           @ lit ''`item_key` to a type's key only when this page's own visible ''
           @ lit ''title/heading/letterhead/declared name '' @ [8212] @ lit '' or content that clearly ''
           @ lit ''matches that type's description/'' @ quoted (lit ''look for'') @ lit '' note '' @ [8212] @ lit '' identifies it as ''
           @ lit ''that type; otherwise set it to null. Never classify by subject ''
           @ lit ''matter or relatedness; do not guess. Then extract any audit-relevant ''
           @ lit ''facts the matched type's '' @ quoted (lit ''look for'') @ lit '' note calls out into `facts`.''
           @ nl @ nl @ lit ''Document types:'' @ nl @ catalog d
         else lit ''Annotate this image.'' @ watchlist flds)
      | None \<Rightarrow> lit ''Annotate this image.'' @ watchlist flds)"

definition text_instruction :: "field_spec list option \<Rightarrow> dossier_spec option \<Rightarrow> ustr" where
  "text_instruction flds dossier =
     (case dossier of Some d \<Rightarrow>
        (if ds_items d \<noteq> [] then
           lit ''This document is one document from the '' @ [34] @ ds_name d @ [34] @ lit '' dossier. ''
           @ lit ''Set `item_key` to a type's key only when this document's own ''
           @ lit ''title/heading/declared name '' @ [8212] @ lit '' or content that clearly matches that ''
           @ lit ''type's description/'' @ quoted (lit ''look for'') @ lit '' note '' @ [8212] @ lit '' identifies it as that type; ''
           @ lit ''otherwise set it to null. Never classify by topic or relatedness; ''
           @ lit ''do not guess. Then extract any audit-relevant facts the matched ''
           @ lit ''type's '' @ quoted (lit ''look for'') @ lit '' note calls out into `facts`.'' @ nl @ nl @ lit ''Document types:'' @ nl @ catalog d
         else lit ''Annotate the document below.'' @ watchlist flds)
      | None \<Rightarrow> lit ''Annotate the document below.'' @ watchlist flds)"

definition text_user_prompt :: "ustr \<Rightarrow> field_spec list option \<Rightarrow> dossier_spec option \<Rightarrow> ustr" where
  "text_user_prompt text flds dossier =
     text_instruction flds dossier @ nl @ nl @ lit ''<document>'' @ nl @ text @ nl @ lit ''</document>''"

definition first_pass :: "ustr \<Rightarrow> ustr \<Rightarrow> ustr" where
  "first_pass prompt dumped = prompt @ nl @ nl @ lit ''<first_pass_annotation>'' @ nl @ dumped @ nl @ lit ''</first_pass_annotation>''"

subsection \<open>Annotating\<close>

record text_fact =
  tf_subject :: ustr
  tf_value :: ustr
  tf_source :: ustr

record text_annotation =
  ta_category :: ustr
  ta_description :: ustr
  ta_key_features :: "ustr list"
  ta_facts :: "text_fact list"
  ta_item_key :: "ustr option"

record visual_element =
  ve_category :: ustr
  ve_description :: ustr
  ve_key_features :: "ustr list"

datatype evidence = Stated | Visual

record image_fact =
  if_subject :: ustr
  if_value :: ustr
  if_evidence :: evidence
  if_source :: ustr

record image_annotation =
  ia_category :: ustr
  ia_description :: ustr
  ia_key_features :: "ustr list"
  ia_elements :: "visual_element list"
  ia_facts :: "image_fact list"
  ia_item_key :: "ustr option"

type_synonym 'a chat = "chat_message list \<Rightarrow> 'a option"

record 'a annotator =
  an_model :: "'a chat"
  an_reflect :: "'a chat option"
  an_max_iters :: int
  an_dump :: "'a \<Rightarrow> ustr"

definition reflect_max_iters :: int where "reflect_max_iters = 1"

text \<open>The rounds \<open>for _ in range(n)\<close>, and a whole call: the first answer, then the rounds.\<close>

fun reflect_loop :: "'a chat \<Rightarrow> ('a \<Rightarrow> chat_message list) \<Rightarrow> nat \<Rightarrow> 'a \<Rightarrow> chat_message list list \<times> 'a option" where
  "reflect_loop ask again 0 a = ([], Some a)"
| "reflect_loop ask again (Suc n) a =
     (case ask (again a) of
        None \<Rightarrow> ([again a], None)
      | Some b \<Rightarrow> (case reflect_loop ask again n b of (ms, r) \<Rightarrow> (again a # ms, r)))"

definition annotate_with ::
  "'a annotator \<Rightarrow> chat_message list \<Rightarrow> ('a \<Rightarrow> chat_message list) \<Rightarrow> bool \<Rightarrow> chat_message list list \<times> 'a option" where
  "annotate_with A first again reflect =
     (case an_model A first of
        None \<Rightarrow> ([first], None)
      | Some a \<Rightarrow> (case (if reflect then an_reflect A else None) of
          None \<Rightarrow> ([first], Some a)
        | Some ask \<Rightarrow> (case reflect_loop ask again (nat (an_max_iters A)) a of (ms, r) \<Rightarrow> (first # ms, r))))"

record prompt_files =
  pf_annotate_text :: ustr
  pf_annotate_text_reflect :: ustr
  pf_annotate_image :: ustr
  pf_annotate_image_reflect :: ustr
  pf_extract_content_image :: ustr

definition annotate_text ::
  "prompt_files \<Rightarrow> text_annotation annotator \<Rightarrow> ustr \<Rightarrow> field_spec list option \<Rightarrow> dossier_spec option \<Rightarrow> bool
   \<Rightarrow> chat_message list list \<times> text_annotation option" where
  "annotate_text P A text flds dossier reflect =
     annotate_with A [SystemMsg (pf_annotate_text P), HumanText (text_user_prompt text flds dossier)]
       (\<lambda>a. [SystemMsg (pf_annotate_text_reflect P), HumanText (first_pass (text_user_prompt text flds dossier) (an_dump A a))]) reflect"

definition annotate_image ::
  "unicode \<Rightarrow> (byte list \<Rightarrow> ustr list option) \<Rightarrow> prompt_files \<Rightarrow> image_annotation annotator \<Rightarrow> byte list \<Rightarrow> field_spec list option
   \<Rightarrow> dossier_spec option \<Rightarrow> bool \<Rightarrow> chat_message list list \<times> image_annotation option" where
  "annotate_image U namelist P A img flds dossier reflect =
     annotate_with A [SystemMsg (pf_annotate_image P), image_message U namelist (image_user_prompt flds dossier) img]
       (\<lambda>a. [SystemMsg (pf_annotate_image_reflect P),
             image_message U namelist (first_pass (image_user_prompt flds dossier) (an_dump A a)) img]) reflect"

text \<open>
  \<open>_as_text\<close>: the text of a string or of the text blocks of a list; anything else is printed by \<open>show\<close>.  A text
  block whose text is not a string makes \<open>join\<close> raise.
\<close>

fun text_blocks :: "json list \<Rightarrow> ustr option" where
  "text_blocks [] = Some []"
| "text_blocks (JObj b # bs) =
     (if map_of b (lit ''type'') = Some (JStr (lit ''text'')) then
        (case (map_of b (lit ''text''), text_blocks bs) of
           (None, r) \<Rightarrow> r
         | (Some (JStr s), Some t) \<Rightarrow> Some (s @ t)
         | _ \<Rightarrow> None)
      else text_blocks bs)"
| "text_blocks (_ # bs) = text_blocks bs"

fun as_text :: "(json \<Rightarrow> ustr) \<Rightarrow> json \<Rightarrow> ustr option" where
  "as_text shw (JStr s) = Some s"
| "as_text shw (JList bs) = text_blocks bs"
| "as_text shw j = Some (shw j)"

definition extract_content_image ::
  "unicode \<Rightarrow> (byte list \<Rightarrow> ustr list option) \<Rightarrow> prompt_files \<Rightarrow> (json \<Rightarrow> ustr) \<Rightarrow> json chat \<Rightarrow> byte list \<Rightarrow> ustr option" where
  "extract_content_image U namelist P shw model img =
     (case model [SystemMsg (pf_extract_content_image P), image_message U namelist (lit ''Transcribe this image to Markdown.'') img] of
        None \<Rightarrow> None | Some content \<Rightarrow> as_text shw content)"

subsection \<open>Construction\<close>

definition annotate_reflect_enabled :: "unicode \<Rightarrow> environ \<Rightarrow> bool" where
  "annotate_reflect_enabled U env \<longleftrightarrow>
     ulower U (py_strip (case env (lit ''DOCI_ANNOTATE_REFLECT'') of None \<Rightarrow> [] | Some s \<Rightarrow> s)) \<in> set (map lit [''1'', ''true'', ''yes'', ''on''])"

type_synonym model_args = "ustr \<times> (ustr \<times> json) list"

record model_env =
  me_unicode :: unicode
  me_upper :: "ustr \<Rightarrow> ustr"
  me_lower :: "ustr \<Rightarrow> ustr"
  me_float :: "ustr \<Rightarrow> rat option"
  me_loads :: "ustr \<Rightarrow> json option"
  me_env :: environ

definition task_model :: "model_env \<Rightarrow> string \<Rightarrow> string \<Rightarrow> string \<Rightarrow> llm_error + model_args" where
  "task_model E task default_model effort =
     build_chat_model (me_unicode E) (me_upper E) (me_lower E) (me_float E) (me_loads E) (me_env E) (lit task) (lit default_model) 16000
       [(lit ''reasoning_effort'', JStr (lit effort))] None"

definition reflect_model :: "model_env \<Rightarrow> string \<Rightarrow> llm_error + model_args option" where
  "reflect_model E task =
     (if annotate_reflect_enabled (me_unicode E) (me_env E)
      then bindE (task_model E task ''openai:gpt-5-mini-2025-08-07'' ''medium'') (\<lambda>m. Inr (Some m))
      else Inr None)"

text \<open>What a worker connects a model to, per way the code uses it, and how it dumps annotations.\<close>

record backends =
  be_text :: "model_args \<Rightarrow> text_annotation chat"
  be_image :: "model_args \<Rightarrow> image_annotation chat"
  be_raw :: "model_args \<Rightarrow> json chat"
  be_dump_text :: "text_annotation \<Rightarrow> ustr"
  be_dump_image :: "image_annotation \<Rightarrow> ustr"
  be_show :: "json \<Rightarrow> ustr"
  be_namelist :: "byte list \<Rightarrow> ustr list option"
  be_prompts :: prompt_files

definition build_annotate_text :: "model_env \<Rightarrow> backends \<Rightarrow> llm_error + text_annotation annotator" where
  "build_annotate_text E K =
     bindE (reflect_model E ''ANNOTATE_TEXT_REFLECT'') (\<lambda>r.
     bindE (task_model E ''ANNOTATE_TEXT'' ''openai:gpt-5-nano-2025-08-07'' ''low'') (\<lambda>m.
     Inr \<lparr>an_model = be_text K m, an_reflect = map_option (be_text K) r, an_max_iters = reflect_max_iters, an_dump = be_dump_text K\<rparr>))"

definition build_image_models :: "model_env \<Rightarrow> backends \<Rightarrow> llm_error + json chat \<times> image_annotation annotator" where
  "build_image_models E K =
     bindE (task_model E ''EXTRACT_IMAGE'' ''openai:gpt-5-nano-2025-08-07'' ''minimal'') (\<lambda>x.
     bindE (reflect_model E ''ANNOTATE_IMAGE_REFLECT'') (\<lambda>r.
     bindE (task_model E ''ANNOTATE_IMAGE'' ''openai:gpt-5-nano-2025-08-07'' ''low'') (\<lambda>m.
     Inr (be_raw K x, \<lparr>an_model = be_image K m, an_reflect = map_option (be_image K) r, an_max_iters = reflect_max_iters, an_dump = be_dump_image K\<rparr>))))"

text \<open>
  The activities of the mining graphs.  A PDF graph builds its text annotator, then the image graph; the rest
  of \<open>activities\<close> comes from \<open>base\<close>.
\<close>

definition build_activities :: "'d pymupdf \<Rightarrow> model_env \<Rightarrow> backends \<Rightarrow> activities \<Rightarrow> llm_error + activities" where
  "build_activities M E K base =
     bindE (build_annotate_text E K) (\<lambda>T.
     bindE (build_image_models E K) (\<lambda>(X, I).
     let U = me_unicode E; P = be_prompts K in
     Inr (base\<lparr>ac_split := (\<lambda>data. fst (split_pdf M data 0)),
               ac_render := (\<lambda>data. fst (render_image_pdf M 2 data 0)),
               ac_extract_pdf := (\<lambda>data. fst (extract_content_pdf M data 0)),
               ac_annotate_text := (\<lambda>text dossier reflect. map_option (an_dump T) (snd (annotate_text P T text None dossier reflect))),
               ac_thumb_pdf := (\<lambda>data. fst (create_thumb_pdf M 160 (b64 (55 / 100)) data 0)),
               ac_extract_image := extract_content_image U (be_namelist K) P (be_show K) X,
               ac_annotate_image := (\<lambda>img dossier reflect. map_option (an_dump I) (snd (annotate_image U (be_namelist K) P I img None dossier reflect))),
               ac_thumb_image := (\<lambda>data. fst (create_thumb_image M 64 data 0))\<rparr>)))"

subsection \<open>The image block\<close>

text \<open>
  The image a model sees is the image.  The message of a vision activity carries the prompt and one
  image block whose data, in the Base64 alphabet, decodes to the bytes of the image, padded to a multiple of four
  characters; its type is the detected one, or PNG where none is detected.
\<close>

theorem image_message_exact:
  "\<exists>mime data. image_message U namelist prompt img = HumanBlocks [TextBlock prompt, ImageBlock mime data]
     \<and> b64_decode data = Some img \<and> length data = 4 * ((length img + 2) div 3)
     \<and> mime = (case detect_mime U namelist img None of Some m \<Rightarrow> mime_str m | None \<Rightarrow> lit ''image/png'')"
  using b64_roundtrip [of img] by (simp add: image_message_def)

subsection \<open>Rounds\<close>

lemma reflect_loop_rounds:
  "reflect_loop ask again n a = (ms, r) \<Longrightarrow> length ms \<le> n \<and> (r \<noteq> None \<longrightarrow> length ms = n) \<and> (ms = [] \<longrightarrow> n = 0 \<and> r = Some a)"
proof (induction n arbitrary: a ms r)
  case (Suc n)
  show ?case
  proof (cases "ask (again a)")
    case None
    then show ?thesis using Suc.prems by auto
  next
    case (Some b)
    obtain ns q where l: "reflect_loop ask again n b = (ns, q)" by (cases "reflect_loop ask again n b")
    then have "ms = again a # ns" "r = q" using Suc.prems Some by auto
    then show ?thesis using Suc.IH [OF l] by simp
  qed
qed simp

text \<open>Round \<open>i\<close> is asked about the annotation before it: the answer to the round before, or the first one.\<close>

lemma reflect_loop_chain:
  "reflect_loop ask again n a = (ms, r) \<Longrightarrow> i < length ms \<Longrightarrow>
     \<exists>b. ms ! i = again b \<and> Some b = (if i = 0 then Some a else ask (ms ! (i - 1)))"
proof (induction n arbitrary: a ms r i)
  case (Suc n)
  show ?case
  proof (cases "ask (again a)")
    case None
    then show ?thesis using Suc.prems by auto
  next
    case (Some b)
    obtain ns q where l: "reflect_loop ask again n b = (ns, q)" by (cases "reflect_loop ask again n b")
    then have m: "ms = again a # ns" using Suc.prems(1) Some by auto
    show ?thesis
    proof (cases i)
      case 0
      then show ?thesis by (simp add: m)
    next
      case (Suc j)
      then have "j < length ns" using Suc.prems(2) by (simp add: m)
      then obtain c where c: "ns ! j = again c" "Some c = (if j = 0 then Some b else ask (ns ! (j - 1)))"
        using Suc.IH [OF l] by blast
      have "ask (ms ! j) = (if j = 0 then Some b else ask (ns ! (j - 1)))" using Some by (cases j) (simp_all add: m)
      then show ?thesis using c Suc by (intro exI [of _ c]) (simp add: m)
    qed
  qed
qed simp

lemma reflect_loop_last: "reflect_loop ask again n a = (ms, r) \<Longrightarrow> ms \<noteq> [] \<Longrightarrow> r = ask (last ms)"
proof (induction n arbitrary: a ms r)
  case (Suc n)
  show ?case
  proof (cases "ask (again a)")
    case None
    then show ?thesis using Suc.prems by auto
  next
    case (Some b)
    obtain ns q where l: "reflect_loop ask again n b = (ns, q)" by (cases "reflect_loop ask again n b")
    then have m: "ms = again a # ns" "r = q" using Suc.prems(1) Some by auto
    show ?thesis
    proof (cases "ns = []")
      case True
      then show ?thesis using reflect_loop_rounds [OF l] Some by (simp add: m)
    next
      case False
      then show ?thesis using Suc.IH [OF l] by (simp add: m)
    qed
  qed
qed simp

text \<open>A call is the first question alone, or followed by rounds of the reflect model.\<close>

lemma annotate_with_cases:
  assumes "annotate_with A first again reflect = (ms, r)"
  obtains (alone) "ms = [first]" "r = an_model A first" "r = None \<or> \<not> (reflect \<and> an_reflect A \<noteq> None)"
  | (rounds) a ask ns where "an_model A first = Some a" "reflect" "an_reflect A = Some ask"
      "reflect_loop ask again (nat (an_max_iters A)) a = (ns, r)" "ms = first # ns"
proof (cases "an_model A first")
  case None
  then show thesis using assms alone by (simp add: annotate_with_def)
next
  case (Some a)
  show thesis
  proof (cases "if reflect then an_reflect A else None")
    case None
    then show thesis using assms Some alone by (auto simp: annotate_with_def split: if_splits)
  next
    fix ask
    assume ask: "(if reflect then an_reflect A else None) = Some ask"
    then have rf: "reflect" "an_reflect A = Some ask" by (auto split: if_splits)
    obtain ns q where l: "reflect_loop ask again (nat (an_max_iters A)) a = (ns, q)"
      by (cases "reflect_loop ask again (nat (an_max_iters A)) a")
    then show thesis using assms Some rf rounds [OF Some rf] by (simp add: annotate_with_def)
  qed
qed

text \<open>
  C27.  Reflection is bounded and informed.  An annotation asks the first model once, with the document in the
  prompt, and the reflect model exactly the configured number of rounds when it is there and the call asks for it,
  fewer only when a call raises, and not at all otherwise; every round is asked with the original
  instruction and the annotation it is to correct, the answer just before it; and the result is the last answer.
\<close>

theorem annotation_rounds:
  assumes "annotate_text P A text flds dossier reflect = (ms, r)" and "n = (if reflect \<and> an_reflect A \<noteq> None then nat (an_max_iters A) else 0)"
  shows "hd ms = [SystemMsg (pf_annotate_text P), HumanText (text_user_prompt text flds dossier)] \<and> contains text (text_user_prompt text flds dossier)
    \<and> 1 \<le> length ms \<and> length ms \<le> 1 + n \<and> (r \<noteq> None \<longrightarrow> length ms = 1 + n)
    \<and> (\<forall>i. 0 < i \<longrightarrow> i < length ms \<longrightarrow> (\<exists>b. ms ! i = [SystemMsg (pf_annotate_text_reflect P),
            HumanText (first_pass (text_user_prompt text flds dossier) (an_dump A b))]
         \<and> Some b = (if i = 1 then an_model A (hd ms) else the (an_reflect A) (ms ! (i - 1)))))
    \<and> r = (if length ms = 1 then an_model A (hd ms) else the (an_reflect A) (last ms))"
proof -
  have c: "contains text (text_user_prompt text flds dossier)"
    unfolding contains_iff text_user_prompt_def
    by (intro exI [of _ "text_instruction flds dossier @ nl @ nl @ lit ''<document>'' @ nl"] exI [of _ "nl @ lit ''</document>''"]) simp
  let ?again = "\<lambda>a. [SystemMsg (pf_annotate_text_reflect P), HumanText (first_pass (text_user_prompt text flds dossier) (an_dump A a))]"
  show ?thesis
  proof (rule annotate_with_cases [OF assms(1) [unfolded annotate_text_def]], goal_cases alone rounds)
    case alone
    then show ?thesis using c assms(2) by auto
  next
    case (rounds a ask ns)
    have n: "n = nat (an_max_iters A)" using rounds(2,3) assms(2) by simp
    have chain: "\<exists>b. ms ! i = ?again b \<and> Some b = (if i = 1 then an_model A (hd ms) else the (an_reflect A) (ms ! (i - 1)))"
      if pos: "0 < i" and len: "i < length ms" for i
    proof -
      obtain j where j: "i = Suc j" using pos by (cases i) auto
      then have "j < length ns" using len rounds(5) by simp
      from reflect_loop_chain [OF rounds(4) this]
      show ?thesis using rounds(1,3) by (cases j) (simp_all add: rounds(5) j)
    qed
    have "r = (if length ms = 1 then an_model A (hd ms) else the (an_reflect A) (last ms))"
      using reflect_loop_rounds [OF rounds(4)] reflect_loop_last [OF rounds(4)] rounds(1,3) by (cases "ns = []") (simp_all add: rounds(5))
    then show ?thesis using c chain reflect_loop_rounds [OF rounds(4)] by (simp add: rounds(5) n)
  qed
qed

subsection \<open>The reflect switch\<close>

text \<open>A mining run depends on its reflect flag only through the two annotation activities.\<close>

lemma image_graph_flag:
  assumes "\<And>img d. ac_annotate_image A img d r = ac_annotate_image A img d q"
  shows "image_graph A fi \<lparr>is_media = m, is_part = p, is_execution = e, is_dossier = d, is_reflect = r\<rparr>
    = image_graph A fi \<lparr>is_media = m, is_part = p, is_execution = e, is_dossier = d, is_reflect = q\<rparr>"
  by (simp add: image_graph_def thumbnail_node_def transcribe_node_def assms)

lemma handle_page_flag:
  assumes "\<And>img d. ac_annotate_image A img d r = ac_annotate_image A img d q" and "\<And>text d. ac_annotate_text A text d r = ac_annotate_text A text d q"
  shows "handle_page A eid d r = handle_page A eid d q"
  by (rule ext) (simp add: handle_page_def text_page_def image_page_def image_graph_flag [OF assms(1)] assms(2))

lemma pdf_graph_flag:
  assumes "\<And>img d. ac_annotate_image A img d r = ac_annotate_image A img d q" and "\<And>text d. ac_annotate_text A text d r = ac_annotate_text A text d q"
  shows "pdf_graph A now doc m eid d r = pdf_graph A now doc m eid d q"
  unfolding pdf_graph_def process_node_def handle_page_flag [OF assms] ..

lemma mining_graph_flag:
  assumes "\<And>img d. ac_annotate_image A img d r = ac_annotate_image A img d q" and "\<And>text d. ac_annotate_text A text d r = ac_annotate_text A text d q"
  shows "mining_graph A F now doc eid d r = mining_graph A F now doc eid d q"
  unfolding mining_graph_def pdf_graph_flag [OF assms] image_graph_flag [OF assms(1)] ..

lemma annotate_with_no_reflect: "an_reflect A = None \<Longrightarrow> annotate_with A first again r = annotate_with A first again q"
  by (simp add: annotate_with_def cong: option.case_cong)

lemma reflect_model_off: "\<not> annotate_reflect_enabled (me_unicode E) (me_env E) \<Longrightarrow> reflect_model E task = Inr None"
  by (simp add: reflect_model_def)

text \<open>
  C12.  The environment is the ceiling.  When \<open>DOCI_ANNOTATE_REFLECT\<close> does not allow reflection, the activities a
  worker builds make a mining run that asks for it the same run as one that does not: same result, same
  rows and objects, whatever the document, the models and the dossier are.
\<close>

theorem reflect_switch:
  assumes "\<not> annotate_reflect_enabled (me_unicode E) (me_env E)" and "build_activities M E K base = Inr A"
  shows "mining_graph A F now doc eid dossier True w = mining_graph A F now doc eid dossier False w"
proof -
  obtain T X I where b: "build_annotate_text E K = Inr T" "build_image_models E K = Inr (X, I)"
    and texts: "ac_annotate_text A = (\<lambda>text d r. map_option (an_dump T) (snd (annotate_text (be_prompts K) T text None d r)))"
    and images: "ac_annotate_image A = (\<lambda>img d r. map_option (an_dump I) (snd (annotate_image (me_unicode E) (be_namelist K) (be_prompts K) I img None d r)))"
    using assms(2) by (auto simp: build_activities_def Let_def)
  have none: "an_reflect T = None" "an_reflect I = None"
    using b by (auto simp: build_annotate_text_def build_image_models_def reflect_model_off [OF assms(1)])
  show ?thesis
    by (rule fun_cong [OF mining_graph_flag])
      (simp_all add: texts images annotate_text_def annotate_image_def annotate_with_no_reflect [OF none(1), where r = True and q = False]
        annotate_with_no_reflect [OF none(2), where r = True and q = False])
qed

subsection \<open>Witnesses\<close>

definition plain_env :: model_env where
  "plain_env = \<lparr>me_unicode = ascii_unicode, me_upper = id, me_lower = id, me_float = (\<lambda>_. None), me_loads = (\<lambda>_. None), me_env = (\<lambda>_. None)\<rparr>"

definition plain_prompts :: prompt_files where
  "plain_prompts = \<lparr>pf_annotate_text = [], pf_annotate_text_reflect = [], pf_annotate_image = [], pf_annotate_image_reflect = [], pf_extract_content_image = []\<rparr>"

definition some_annotation :: text_annotation where
  "some_annotation = \<lparr>ta_category = lit ''email'', ta_description = [], ta_key_features = [], ta_facts = [], ta_item_key = None\<rparr>"

definition plain_backends :: backends where
  "plain_backends = \<lparr>be_text = (\<lambda>_ _. Some some_annotation), be_image = (\<lambda>_ _. None), be_raw = (\<lambda>_ _. None), be_dump_text = ta_category,
     be_dump_image = ia_category, be_show = (\<lambda>_. []), be_namelist = (\<lambda>_. None), be_prompts = plain_prompts\<rparr>"

definition two_round_annotator :: "text_annotation annotator" where
  "two_round_annotator = \<lparr>an_model = (\<lambda>_. Some some_annotation), an_reflect = Some (\<lambda>_. Some some_annotation), an_max_iters = 2, an_dump = ta_category\<rparr>"

lemma two_rounds: "annotate_with two_round_annotator first again True = ([first, again some_annotation, again some_annotation], Some some_annotation)"
  by (simp add: annotate_with_def two_round_annotator_def numeral_2_eq_2)

theorem annotation_rounds_witness:
  "\<exists>ms. annotate_text plain_prompts two_round_annotator (lit ''hi'') None None True = (ms, Some some_annotation) \<and> length ms = 3"
proof -
  obtain ms where ms: "annotate_text plain_prompts two_round_annotator (lit ''hi'') None None True = (ms, Some some_annotation)"
    unfolding annotate_text_def two_rounds by blast
  note facts = annotation_rounds [OF ms refl]
  have "length ms = 1 + nat (an_max_iters two_round_annotator)"
    using conjunct1 [OF conjunct2 [OF conjunct2 [OF conjunct2 [OF conjunct2 [OF facts]]]]] by (simp add: two_round_annotator_def)
  then show ?thesis using ms by (simp add: two_round_annotator_def)
qed

lemma plain_off: "\<not> annotate_reflect_enabled (me_unicode plain_env) (me_env plain_env)"
  by (simp add: annotate_reflect_enabled_def plain_env_def ascii_unicode_def py_strip_def lit_def)

lemma plain_config:
  "\<exists>c. llm_config_from_env ascii_unicode id (\<lambda>_. None) (\<lambda>_. None) (\<lambda>_. None) task dm n ps = Inr c \<and> lc_extra_params c = JObj ps"
  by (simp add: llm_config_from_env_def llm_int_def llm_env_def truthy_def)

lemma plain_kwargs: "lc_extra_params c = JObj [(lit ''reasoning_effort'', v)] \<Longrightarrow> \<exists>kwargs. chat_model_kwargs id c task None = Inr kwargs"
  by (simp add: chat_model_kwargs_def Let_def lit_def)

lemma plain_task_model: "\<exists>m. task_model plain_env task dm effort = Inr m"
proof -
  obtain c where c: "llm_config_from_env ascii_unicode id (\<lambda>_. None) (\<lambda>_. None) (\<lambda>_. None) (lit task) (lit dm) 16000
      [(lit ''reasoning_effort'', JStr (lit effort))] = Inr c" "lc_extra_params c = JObj [(lit ''reasoning_effort'', JStr (lit effort))]"
    using plain_config by blast
  obtain kwargs where "chat_model_kwargs id c (lit task) None = Inr kwargs" using plain_kwargs [OF c(2)] by blast
  then show ?thesis by (simp add: task_model_def plain_env_def build_chat_model_def c(1))
qed

theorem reflect_switch_witness:
  "\<exists>A. build_activities two_pages plain_env plain_backends demo_splitter = Inr A
     \<and> (\<forall>now doc eid dossier. mining_graph A demo_finalizer now doc eid dossier True demo_pdf = mining_graph A demo_finalizer now doc eid dossier False demo_pdf)"
proof -
  obtain m1 m2 m3 where "task_model plain_env ''ANNOTATE_TEXT'' ''openai:gpt-5-nano-2025-08-07'' ''low'' = Inr m1"
      "task_model plain_env ''EXTRACT_IMAGE'' ''openai:gpt-5-nano-2025-08-07'' ''minimal'' = Inr m2"
      "task_model plain_env ''ANNOTATE_IMAGE'' ''openai:gpt-5-nano-2025-08-07'' ''low'' = Inr m3"
    using plain_task_model by metis
  then obtain A where A: "build_activities two_pages plain_env plain_backends demo_splitter = Inr A"
    by (simp add: build_activities_def build_annotate_text_def build_image_models_def reflect_model_off [OF plain_off] Let_def)
  show ?thesis using A reflect_switch [OF plain_off A] by blast
qed

end
