(* ===== verification/Agents.thy ===== *)
theory Agents
  imports Annotate Registry
begin

section \<open>The audit agents and their tools\<close>

text \<open>
  \<open>doci/agents/audit_orchestrator.py\<close>, \<open>rule_auditor.py\<close>, \<open>audit_reflect.py\<close>, \<open>audit_verdict.py\<close>,
  \<open>doci/prompts/__init__.py\<close>, and the tools over the userdata services: \<open>get_dossier_spec\<close>,
  \<open>get_knowledge\<close>, \<open>list_rules\<close>, \<open>search_knowledge\<close>.  An agent is what the code hands to deepagents: name,
  model arguments, limiter, tools, prompt, and the registry behind its \<open>find_tools\<close>.  What LangChain derives from
  a tool's function, description and argument names, is the argument \<open>sg\<close>; \<open>load\<close> reads a prompt file.
\<close>

subsection \<open>Userdata tools\<close>

text \<open>Two statements run one after the other: on \<open>u\<close>, then on \<open>v\<close>.  \<open>Inl\<close> is an exception out of the tool.\<close>

record dossier_view =
  dv_key :: ustr
  dv_name :: ustr
  dv_description :: "ustr option"
  dv_documents :: "(ustr \<times> ustr \<times> ustr option \<times> ustr option) list"

definition get_dossier_spec_tool :: "ustr \<Rightarrow> userdb \<Rightarrow> userdb \<Rightarrow> userdata_error + dossier_view tool_result" where
  "get_dossier_spec_tool dossier_key u v =
     (case get_dossier dossier_key (dossiers u) of
        Inl NotFound \<Rightarrow> Inr (ToolError [dossier_key])
      | Inl e \<Rightarrow> Inl e
      | Inr d \<Rightarrow> bindE (list_documents dossier_key v) (\<lambda>docs. Inr (ToolOk
          \<lparr>dv_key = dd_key d, dv_name = dd_name d, dv_description = dd_description d,
           dv_documents = map (\<lambda>x. (df_key x, df_name x, df_description x, df_look_for x)) docs\<rparr>)))"

record knowledge_view =
  kv_key_of :: ustr
  kv_name_of :: ustr
  kv_description_of :: "ustr option"
  kv_body_of :: ustr

definition get_knowledge_tool :: "ustr \<Rightarrow> userdb \<Rightarrow> userdata_error + knowledge_view tool_result" where
  "get_knowledge_tool key u =
     (case get_knowledge key (knowledges u) of
        Inl NotFound \<Rightarrow> Inr (ToolError [key])
      | Inl e \<Rightarrow> Inl e
      | Inr k \<Rightarrow> Inr (ToolOk \<lparr>kv_key_of = kn_key k, kv_name_of = kn_name k, kv_description_of = kn_description k, kv_body_of = kn_body k\<rparr>))"

definition list_rules_tool :: "ustr \<Rightarrow> userdb \<Rightarrow> (ustr \<times> ustr \<times> ustr) list tool_result" where
  "list_rules_tool dossier_key u =
     (case rules_for_dossier dossier_key u of
        Inl e \<Rightarrow> ToolError []
      | Inr rs \<Rightarrow> ToolOk (map (\<lambda>r. (ar_key r, ar_name r, ar_body r)) rs))"

text \<open>The results and the keys the hint lists, none when nothing matched.\<close>

definition search_knowledge_tool ::
  "(ustr \<Rightarrow> ustr \<Rightarrow> rat) \<Rightarrow> ustr \<Rightarrow> int \<Rightarrow> userdb \<Rightarrow> (ustr \<times> ustr \<times> ustr option) list \<times> ustr list option" where
  "search_knowledge_tool sim query limit u =
     (let results = map (\<lambda>k. (kn_key k, kn_name k, kn_description k)) (items (list_knowledge sim (Some query) (Some limit) 0 (knowledges u)));
          ks = map fst results
      in (results, if ks \<noteq> [] then Some ks else None))"

subsection \<open>Toolsets\<close>

text \<open>What a tool factory closed over.\<close>

datatype tool_scope = Pure | MinedBy uuid | AuditRun uuid | VerdictOf uuid ustr uuid | DossierOf ustr | Library | BlobStore

record bound_tool =
  bt_tool :: base_tool
  bt_scope :: tool_scope

type_synonym signatures = "ustr \<Rightarrow> ustr option \<times> ustr list"

definition mk_tool :: "signatures \<Rightarrow> tool_scope \<Rightarrow> string \<Rightarrow> bound_tool" where
  "mk_tool sg sc n = \<lparr>bt_tool = \<lparr>t_name = lit n, t_description = fst (sg (lit n)), t_args = snd (sg (lit n))\<rparr>, bt_scope = sc\<rparr>"

definition tags :: "(string \<times> string list) list" where
  "tags = [
     (''parse_money'', [''money'', ''amount'', ''number'', ''parse'']),
     (''parse_date'', [''date'', ''parse'']),
     (''compare_amount'', [''amount'', ''money'', ''compare'', ''match'', ''total'']),
     (''check_date_order'', [''date'', ''order'', ''sequence'', ''chain'', ''chronology'']),
     (''fuzzy_match_name'', [''name'', ''vendor'', ''supplier'', ''match'', ''fuzzy'']),
     (''validate_tax_id'', [''tax'', ''code'', ''tin'', ''id'']),
     (''check_vat'', [''vat'', ''tax'', ''rate'', ''invoice'']),
     (''invoice_age'', [''invoice'', ''date'', ''age'', ''expiry'']),
     (''collect_facts'', [''facts'', ''gather'', ''document'', ''fields'']),
     (''get_page_annotation'', [''annotation'', ''facts'', ''page'']),
     (''get_page_text'', [''text'', ''extract'', ''ocr'', ''page'']),
     (''get_page_image'', [''image'', ''visual'', ''signature'', ''stamp'', ''look'']),
     (''list_pages'', [''pages'', ''index'', ''classification'', ''item'']),
     (''find_document'', [''document'', ''present'', ''coverage'', ''exists'', ''span'', ''range'', ''pages'']),
     (''search_knowledge'', [''knowledge'', ''reference'', ''policy'', ''threshold'', ''matrix'']),
     (''get_knowledge'', [''knowledge'', ''reference'', ''policy'', ''body'']),
     (''record_finding'', [''finding'', ''record'', ''result'']),
     (''set_verdict'', [''verdict'', ''conclude'', ''pass'', ''fail'']),
     (''get_dossier_spec'', [''dossier'', ''required'', ''documents'', ''spec'']),
     (''list_rules'', [''rules'', ''audit'', ''checks''])]"

definition tags_of :: "ustr \<Rightarrow> ustr list" where
  "tags_of n = (case map_of (map (\<lambda>(k, ts). (lit k, map lit ts)) tags) n of None \<Rightarrow> [] | Some ts \<Rightarrow> ts)"

definition deterministic :: "signatures \<Rightarrow> bound_tool list" where
  "deterministic sg = map (mk_tool sg Pure)
     [''parse_money'', ''parse_date'', ''compare_amount'', ''check_date_order'', ''fuzzy_match_name'', ''validate_tax_id'', ''check_vat'', ''invoice_age'']"

text \<open>\<open>ToolRegistry().add((t, tags.get(t.name, ())) for t in base_tools)\<close>.\<close>

definition agent_registry :: "bound_tool list \<Rightarrow> registry" where
  "agent_registry ts = reg_add (map (\<lambda>t. (bt_tool t, tags_of (t_name (bt_tool t)))) ts) []"

subsection \<open>Agents\<close>

text \<open>The addendum to the system prompts; code point 10 ends a line, 34 is a quote, 8212 a dash.\<close>

definition output_language_directive :: "ustr \<Rightarrow> ustr" where
  "output_language_directive language =
     [10, 10]
     @ lit ''## Output language and writing style'' @ [10, 10]
     @ lit ''The dossier, its rules, and the reference knowledge are user-provided data, in whatever language ''
     @ lit ''they happen to be '' @ [8212]
     @ lit '' read them as data, not as a cue for your own language. Write every finding message and verdict ''
     @ lit ''rationale you record in fluent, natural, grammatically correct ''
     @ language
     @ lit '', the way a human reviewer would explain the outcome to a colleague '' @ [8212]
     @ lit '' substantive prose, not a log or a data dump.'' @ [10, 10]
     @ lit ''**Never let the machinery show.** These texts are read by people who do not know how the audit runs ''
     @ lit ''internally. Do not put any of the following into a finding message or verdict rationale:'' @ [10, 10]
     @ lit ''- tool names or function-call / arrow syntax '' @ [8212]
     @ lit '' never write things like `some_check(x) -> value: false`;'' @ [10]
     @ lit ''- internal result or field keys (`ok`, `present`, `match`, `span`, `diff`, `allowed`, `item_key`, ''
     @ lit ''and the like), or raw extracted field labels copied verbatim as if they were machine output;'' @ [10]
     @ lit ''- internal status or severity enum tokens dropped in as inline jargon.'' @ [10, 10]
     @ lit ''Say what those things *mean* in plain words instead: a document is '' @ [34]
     @ lit ''not in the dossier'' @ [34]
     @ lit '', two amounts '' @ [34]
     @ lit ''do not agree'' @ [34]
     @ lit '', a gap is '' @ [34]
     @ lit ''beyond the permitted margin'' @ [34]
     @ lit '', a check '' @ [34]
     @ lit ''could not be completed'' @ [34]
     @ lit ''. Refer to each document by its human-readable name, never by an internal key or slug.'' @ [10, 10]
     @ lit ''**Use Markdown structure**, not one run-on paragraph and not terse telegraphic fragments: a short ''
     @ lit ''bold lead, `##` headings to group related points, and bullets for lists of items where a list reads ''
     @ lit ''better than a sentence.'' @ [10, 10]
     @ lit ''Keep verbatim evidence quotes (the `source` strings and any cited wording) in their original ''
     @ lit ''language '' @ [8212]
     @ lit '' translate or paraphrase only your own explanation. Keep proper nouns, codes, and amounts exactly ''
     @ lit ''as they appear.''"

record agent =
  ag_name :: ustr
  ag_model :: model_args
  ag_limiter :: "bucket list"
  ag_tools :: "bound_tool list"
  ag_registry :: "registry option"
  ag_prompt :: ustr

datatype agent_error = AgentModel llm_error | AgentLimit

definition agent_model :: "model_env \<Rightarrow> model_args option \<Rightarrow> string \<Rightarrow> uuid \<Rightarrow> agent_error + model_args" where
  "agent_model E model prefix eid =
     (case model of
        Some m \<Rightarrow> Inr m
      | None \<Rightarrow>
          (case build_chat_model (me_unicode E) (me_upper E) (me_lower E) (me_float E) (me_loads E) (me_env E) (lit ''AUDIT'')
                  (lit ''openai:gpt-5-mini-2025-08-07'') 16000 [] (Some (lit prefix @ uuid_str eid)) of
             Inl e \<Rightarrow> Inl (AgentModel e)
           | Inr m \<Rightarrow> Inr m))"

definition agent_limiter :: "model_env \<Rightarrow> agent_error + bucket list" where
  "agent_limiter E = (case build_rate_limit_middleware (me_unicode E) (me_upper E) (me_env E) (lit ''AUDIT'') None None of
     None \<Rightarrow> Inl AgentLimit | Some bs \<Rightarrow> Inr bs)"

definition build_rule_auditor ::
  "signatures \<Rightarrow> (string \<Rightarrow> ustr) \<Rightarrow> bound_tool list \<Rightarrow> model_args \<Rightarrow> ustr \<Rightarrow> bucket list \<Rightarrow> agent" where
  "build_rule_auditor sg load base m language limiter =
     \<lparr>ag_name = lit ''rule_auditor'', ag_model = m, ag_limiter = limiter, ag_tools = base @ [mk_tool sg Pure ''find_tools''],
      ag_registry = Some (agent_registry base), ag_prompt = load ''rule_auditor'' @ output_language_directive language\<rparr>"

definition sub_base :: "signatures \<Rightarrow> uuid \<Rightarrow> uuid \<Rightarrow> bound_tool list" where
  "sub_base sg mining eid =
     map (mk_tool sg (MinedBy mining)) [''list_pages'', ''get_page_annotation'', ''get_page_text'', ''collect_facts'', ''find_document'']
     @ [mk_tool sg BlobStore ''get_page_image''] @ map (mk_tool sg Library) [''search_knowledge'', ''get_knowledge'']
     @ [mk_tool sg (AuditRun eid) ''record_finding''] @ deterministic sg"

definition orch_base :: "signatures \<Rightarrow> uuid \<Rightarrow> uuid \<Rightarrow> ustr \<Rightarrow> bound_tool list" where
  "orch_base sg mining eid dossier_key =
     map (mk_tool sg (DossierOf dossier_key)) [''get_dossier_spec'', ''list_rules''] @ map (mk_tool sg (MinedBy mining)) [''list_pages'', ''find_document'']
     @ map (mk_tool sg Library) [''search_knowledge'', ''get_knowledge''] @ [mk_tool sg (AuditRun eid) ''record_finding'']"

text \<open>The orchestrator and its subagent.\<close>

definition build_finding_agent ::
  "model_env \<Rightarrow> signatures \<Rightarrow> (string \<Rightarrow> ustr) \<Rightarrow> uuid \<Rightarrow> uuid \<Rightarrow> ustr \<Rightarrow> ustr \<Rightarrow> model_args option \<Rightarrow> agent_error + agent \<times> agent" where
  "build_finding_agent E sg load mining eid dossier_key language model =
     bindE (agent_model E model ''doci:audit:'' eid) (\<lambda>m.
     bindE (agent_limiter E) (\<lambda>limiter.
       let base = orch_base sg mining eid dossier_key in
       Inr (\<lparr>ag_name = lit ''audit'', ag_model = m, ag_limiter = limiter, ag_tools = base @ [mk_tool sg Pure ''find_tools''],
              ag_registry = Some (agent_registry base), ag_prompt = load ''audit_orchestrator'' @ output_language_directive language\<rparr>,
            build_rule_auditor sg load (sub_base sg mining eid) m language limiter)))"

definition build_reflection_agent ::
  "model_env \<Rightarrow> signatures \<Rightarrow> (string \<Rightarrow> ustr) \<Rightarrow> uuid \<Rightarrow> uuid \<Rightarrow> ustr \<Rightarrow> model_args option \<Rightarrow> agent_error + agent" where
  "build_reflection_agent E sg load mining eid language model =
     bindE (agent_model E model ''doci:reflect:'' eid) (\<lambda>m.
     bindE (agent_limiter E) (\<lambda>limiter.
       Inr \<lparr>ag_name = lit ''audit_reflect'', ag_model = m, ag_limiter = limiter,
            ag_tools = map (mk_tool sg (AuditRun eid)) [''list_findings'', ''delete_finding'', ''record_finding'']
              @ map (mk_tool sg (MinedBy mining)) [''list_pages'', ''get_page_annotation'', ''get_page_text'', ''collect_facts'']
              @ [mk_tool sg BlobStore ''get_page_image''],
            ag_registry = None, ag_prompt = load ''audit_reflect'' @ output_language_directive language\<rparr>))"

definition build_verdict_agent ::
  "model_env \<Rightarrow> signatures \<Rightarrow> (string \<Rightarrow> ustr) \<Rightarrow> uuid \<Rightarrow> ustr \<Rightarrow> uuid \<Rightarrow> ustr \<Rightarrow> model_args option \<Rightarrow> agent_error + agent" where
  "build_verdict_agent E sg load eid dossier_key doc language model =
     bindE (agent_model E model ''doci:verdict:'' eid) (\<lambda>m.
     bindE (agent_limiter E) (\<lambda>limiter.
       Inr \<lparr>ag_name = lit ''audit_verdict'', ag_model = m, ag_limiter = limiter,
            ag_tools = [mk_tool sg (AuditRun eid) ''list_findings''] @ map (mk_tool sg Library) [''search_knowledge'', ''get_knowledge'']
              @ [mk_tool sg (VerdictOf eid dossier_key doc) ''set_verdict''],
            ag_registry = None, ag_prompt = load ''audit_verdict'' @ output_language_directive language\<rparr>))"

subsection \<open>What a tool call does to the audit tables\<close>

text \<open>A call by name: the tool bound under that name runs in its scope, a call of an unknown tool is answered with an error.\<close>

fun call_name :: "audit_call \<Rightarrow> ustr" where
  "call_name (CallRecord _ _ _ _ _ _) = lit ''record_finding''"
| "call_name (CallDelete _) = lit ''delete_finding''"
| "call_name (CallVerdict _ _ _) = lit ''set_verdict''"

fun in_scope :: "tool_scope \<Rightarrow> audit_call \<Rightarrow> db \<Rightarrow> db" where
  "in_scope (AuditRun eid) (CallRecord stamp st sev msg rule ev) s = snd (record_finding_tool stamp eid st sev msg rule ev s)"
| "in_scope (AuditRun eid) (CallDelete i) s = snd (delete_finding_tool eid i s)"
| "in_scope (VerdictOf eid dk doc) (CallVerdict now v r) s = snd (set_verdict_tool now eid (Some dk) (Some doc) v r s)"
| "in_scope _ _ s = s"

definition agent_call :: "agent \<Rightarrow> audit_call \<Rightarrow> db \<Rightarrow> db" where
  "agent_call A c s = (case find (\<lambda>t. t_name (bt_tool t) = call_name c) (ag_tools A) of None \<Rightarrow> s | Some t \<Rightarrow> in_scope (bt_scope t) c s)"

subsection \<open>Confinement\<close>

lemma mk_tool_sel [simp]: "t_name (bt_tool (mk_tool sg sc n)) = lit n" "bt_scope (mk_tool sg sc n) = sc"
  by (simp_all add: mk_tool_def)

text \<open>The tools the builders bind.\<close>

lemma finding_agent_tools:
  assumes "build_finding_agent E sg load mining eid dk language model = Inr (A, S)"
  shows "ag_tools A = orch_base sg mining eid dk @ [mk_tool sg Pure ''find_tools'']"
    "ag_tools S = sub_base sg mining eid @ [mk_tool sg Pure ''find_tools'']"
    "ag_registry A = Some (agent_registry (orch_base sg mining eid dk))"
    "ag_registry S = Some (agent_registry (sub_base sg mining eid))"
  using assms by (auto simp: build_finding_agent_def build_rule_auditor_def Let_def)

lemma finding_calls:
  assumes "build_finding_agent E sg load mining eid dk language model = Inr (A, S)"
  shows "agent_call A c s = find_call eid c s" "agent_call S c s = find_call eid c s"
  by (cases c; simp add: agent_call_def finding_agent_tools [OF assms] orch_base_def sub_base_def deterministic_def)+

lemma reflection_calls:
  assumes "build_reflection_agent E sg load mining eid language model = Inr R"
  shows "agent_call R c s = reflect_call eid c s"
  using assms by (cases c) (auto simp: build_reflection_agent_def agent_call_def)

lemma verdict_calls:
  assumes "build_verdict_agent E sg load eid dk doc language model = Inr V"
  shows "agent_call V c s = verdict_call eid dk doc c s"
  using assms by (cases c) (auto simp: build_verdict_agent_def agent_call_def)

lemma find_call_appends: "verdicts (find_call eid c s) = verdicts s
    \<and> (\<exists>fs. findings (find_call eid c s) = findings s @ fs \<and> (\<forall>f \<in> set fs. f_execution_id f = eid))"
  by (cases c) (auto simp: record_finding_tool_def record_finding_def Let_def split: sum.split)

lemma reflect_call_verdicts: "verdicts (reflect_call eid c s) = verdicts s"
  by (cases c) (auto simp: record_finding_tool_def record_finding_def delete_finding_tool_def delete_finding_def Let_def split: sum.split option.split)

lemma verdict_call_findings: "findings (verdict_call eid dk doc c s) = findings s"
  by (cases c) (auto simp: set_verdict_tool_def set_verdict_def split_beta split: sum.split)

lemma fold_find_calls: "verdicts (fold (find_call eid) cs s) = verdicts s
    \<and> (\<exists>fs. findings (fold (find_call eid) cs s) = findings s @ fs \<and> (\<forall>f \<in> set fs. f_execution_id f = eid))"
proof (induction cs arbitrary: s)
  case (Cons c cs)
  show ?case using Cons.IH [of "find_call eid c s"] find_call_appends [of eid c s] by fastforce
qed simp

lemma fold_keeps: "(\<And>c s. g (f c s) = g s) \<Longrightarrow> g (fold f cs s) = g s"
  by (induction cs arbitrary: s) auto

text \<open>
  C3.  The toolsets confine the agents to their phases.  Called by name, the tools bound to the orchestrator, its
  subagent, the reflection agent and the verdict agent do to the audit tables exactly what the phases of the audit
  graph allow.  So however the orchestrator and its subagents interleave, they only append findings of their own
  run; no verdict is set before the verdict phase; and the verdict agent leaves the findings alone.
\<close>

theorem agents_confined:
  assumes "build_finding_agent E sg load mining eid dk language model = Inr (A, S)"
    and "build_reflection_agent E sg load mining eid language model = Inr R"
    and "build_verdict_agent E sg load eid dk doc language model = Inr V"
  shows "fold (\<lambda>(sub, c). agent_call (if sub then S else A) c) calls s = fold (find_call eid) (map snd calls) s
    \<and> fold (agent_call R) cs s = fold (reflect_call eid) cs s
    \<and> fold (agent_call V) cs s = fold (verdict_call eid dk doc) cs s
    \<and> (\<exists>fs. findings (fold (\<lambda>(sub, c). agent_call (if sub then S else A) c) calls s) = findings s @ fs
         \<and> f_execution_id ` set fs \<subseteq> {eid})
    \<and> verdicts (fold (agent_call R) cs (fold (\<lambda>(sub, c). agent_call (if sub then S else A) c) calls s)) = verdicts s
    \<and> findings (fold (agent_call V) cs s) = findings s"
proof -
  have f: "fold (\<lambda>(sub, c). agent_call (if sub then S else A) c) calls s = fold (find_call eid) (map snd calls) s" for s
    by (induction calls arbitrary: s) (auto simp: finding_calls [OF assms(1)])
  have r: "fold (agent_call R) cs s = fold (reflect_call eid) cs s" for s
    by (rule fold_cong) (auto simp: reflection_calls [OF assms(2)])
  have v: "fold (agent_call V) cs s = fold (verdict_call eid dk doc) cs s" for s
    by (rule fold_cong) (auto simp: verdict_calls [OF assms(3)])
  show ?thesis
    unfolding f r v using fold_find_calls [of eid "map snd calls" s] fold_keeps [of verdicts "reflect_call eid", OF reflect_call_verdicts]
      fold_keeps [of findings "verdict_call eid dk doc", OF verdict_call_findings] by auto
qed

subsection \<open>Discovery\<close>

lemma update_new: "k \<notin> fst ` set al \<Longrightarrow> AList.update k v al = al @ [(k, v)]"
  by (induction al) auto

lemma reg_add_append:
  "distinct (map fst R @ map (t_name \<circ> fst) xs) \<Longrightarrow> reg_add xs R = R @ map (\<lambda>(t, tgs). (t_name t, \<lparr>ts_tool = t, ts_tags = tgs\<rparr>)) xs"
proof (induction xs R rule: reg_add.induct)
  case (2 t tgs xs R)
  have r: "reg_register t tgs R = R @ [(t_name t, \<lparr>ts_tool = t, ts_tags = tgs\<rparr>)]" using 2(2) by (simp add: reg_register_def update_new)
  show ?case using 2 by (auto simp: r)
qed simp

lemma contains_map: "inj f \<Longrightarrow> contains (map f p) (map f s) = contains p s"
proof -
  assume f: "inj f"
  have e: "starts_with (map f p) (map f s) = starts_with p s" for p s by (induction p s rule: starts_with.induct) (auto simp: inj_eq [OF f])
  show ?thesis
  proof (induction s)
    case (Cons a s)
    then show ?case using e [of p "a # s"] by simp
  qed simp
qed

lemma contains_lit: "contains (lit a) (lit b) = contains a b"
  unfolding lit_def by (rule contains_map) (simp add: inj_of_char)

text \<open>No tool's name occurs in the name or in a tag of another tool, and names and tags are in lower case.\<close>

lemma names_apart: "list_all (\<lambda>(n, _). list_all (\<lambda>(m, ts). m = n \<or> (\<not> contains n m \<and> list_all (\<lambda>t. \<not> contains n t) ts)) tags) tags"
  by code_simp

definition plain_letters :: "ustr \<Rightarrow> bool" where
  "plain_letters s \<longleftrightarrow> list_all (\<lambda>c. c = 95 \<or> (97 \<le> c \<and> c \<le> 122)) s"

lemma names_lower: "list_all (\<lambda>(n, ts). n \<noteq> [] \<and> list_all (\<lambda>s. plain_letters (lit s)) (n # ts)) tags"
  by code_simp

lemma hd_sort_key:
  fixes f :: "'a \<Rightarrow> 'b :: linorder"
  assumes "x \<in> set xs" and "\<And>y. y \<in> set xs \<Longrightarrow> y = x \<or> f x < f y"
  shows "\<exists>ys. sort_key f xs = x # ys"
proof -
  obtain z ys where z: "sort_key f xs = z # ys" using assms(1) by (metis empty_iff list.exhaust list.set(1) set_sort)
  have "sorted (map f (z # ys))" using z by (metis sorted_sort_key)
  then have "\<forall>y \<in> set (z # ys). f z \<le> f y" by auto
  moreover have "set (z # ys) = set xs" using z by (metis set_sort)
  ultimately show ?thesis using z assms by (metis leD list.set_intros(1))
qed

lemma tags_distinct: "distinct (map fst tags)"
  by code_simp

lemma tags_of_tag: "(n, ts) \<in> set tags \<Longrightarrow> tags_of (lit n) = map lit ts"
proof -
  assume t: "(n, ts) \<in> set tags"
  have k: "map fst (map (\<lambda>(k, ts). (lit k, map lit ts)) tags) = map lit (map fst tags)" by (simp add: case_prod_beta)
  have "distinct (map fst (map (\<lambda>(k, ts). (lit k, map lit ts)) tags))"
    unfolding k using tags_distinct by (auto simp: distinct_map inj_on_def)
  moreover have "(lit n, map lit ts) \<in> set (map (\<lambda>(k, ts). (lit k, map lit ts)) tags)" using t by force
  ultimately show ?thesis by (simp only: tags_of_def map_of_is_SomeI option.case)
qed

lemma tag_facts:
  assumes "(n, ts) \<in> set tags" and "(m, us) \<in> set tags" and "m \<noteq> n"
  shows "\<not> contains (lit n) (lit m)" "u \<in> set us \<Longrightarrow> \<not> contains (lit n) (lit u)"
proof -
  have "list_all (\<lambda>(m, ts). m = n \<or> (\<not> contains n m \<and> list_all (\<lambda>t. \<not> contains n t) ts)) tags"
    using names_apart assms(1) unfolding list_all_iff by fast
  then have "\<not> contains n m \<and> list_all (\<lambda>t. \<not> contains n t) us" using assms(2,3) unfolding list_all_iff [of _ tags] by fast
  then show "\<not> contains (lit n) (lit m)" "u \<in> set us \<Longrightarrow> \<not> contains (lit n) (lit u)"
    by (simp_all only: contains_lit list_all_iff) simp_all
qed

lemma tag_chars:
  assumes "(n, ts) \<in> set tags"
  shows "lit n \<noteq> []" "plain_letters (lit n)" "t \<in> set ts \<Longrightarrow> plain_letters (lit t)"
proof -
  have "n \<noteq> [] \<and> list_all (\<lambda>s. plain_letters (lit s)) (n # ts)"
    using names_lower assms unfolding list_all_iff [of _ tags] by fast
  then show "lit n \<noteq> []" "plain_letters (lit n)" "t \<in> set ts \<Longrightarrow> plain_letters (lit t)"
    by (simp_all add: lit_def list_all_iff)
qed

lemma strip_name: "plain_letters s \<Longrightarrow> py_strip s = s"
proof -
  have d: "dropWhile py_space s = s" if "plain_letters s" for s
    using that by (cases s) (auto simp: py_space_def plain_letters_def)
  assume "plain_letters s"
  then show ?thesis using d [of s] d [of "rev s"] by (simp add: py_strip_def plain_letters_def)
qed

text \<open>What is used of \<open>str.lower\<close>.\<close>

definition lowers :: "(ustr \<Rightarrow> ustr) \<Rightarrow> bool" where
  "lowers lower \<longleftrightarrow> (\<forall>s. plain_letters s \<longrightarrow> lower s = s)"

lemma contains_self: "contains s s"
  unfolding contains_iff by (intro exI [of _ "[]"]) simp

lemma kw_score_own: "lowers lower \<Longrightarrow> plain_letters (spec_name s) \<Longrightarrow> 3 \<le> kw_score lower s (spec_name s)"
  by (simp add: kw_score_def lowers_def contains_self)

lemma kw_score_other:
  assumes "lowers lower" and "(n, ts) \<in> set tags" and "(m, us) \<in> set tags" and "m \<noteq> n" and "spec_name s = lit m" and "ts_tags s = map lit us"
  shows "kw_score lower s (lit n) \<le> 1"
proof -
  have l: "lower (lit m) = lit m" "u \<in> set us \<Longrightarrow> lower (lit u) = lit u" for u
    using assms(1) tag_chars [OF assms(3)] by (auto simp: lowers_def)
  show ?thesis using tag_facts [OF assms(2-4)] l assms(5,6) by (auto simp: kw_score_def list_ex_iff)
qed

text \<open>A set of tools whose names are distinct and tagged.\<close>

definition tagged_tools :: "bound_tool list \<Rightarrow> bool" where
  "tagged_tools base \<longleftrightarrow> distinct (map (\<lambda>t. t_name (bt_tool t)) base) \<and> (\<forall>t \<in> set base. t_name (bt_tool t) \<in> lit ` fst ` set tags)"

lemma agent_registry_specs:
  assumes "tagged_tools base"
  shows "map snd (agent_registry base) = map (\<lambda>t. \<lparr>ts_tool = bt_tool t, ts_tags = tags_of (t_name (bt_tool t))\<rparr>) base"
proof -
  have "distinct (map fst [] @ map (t_name \<circ> fst) (map (\<lambda>t. (bt_tool t, tags_of (t_name (bt_tool t)))) base))"
    using assms by (simp add: tagged_tools_def comp_def)
  from reg_add_append [OF this] show ?thesis by (simp add: agent_registry_def)
qed

lemma find_by_name:
  assumes "lowers lower" and "tagged_tools base" and "t \<in> set base"
  obtains h rest where "fr_results (find_tools lower (agent_registry base) (KwOne (t_name (bt_tool t))) 8) = h # rest"
    "h_name h = t_name (bt_tool t)" "h_args h = t_args (bt_tool t)" "3 \<le> h_score h" "\<forall>g \<in> set rest. h_score g \<le> 1"
proof -
  define spec where "spec = (\<lambda>u :: bound_tool. \<lparr>ts_tool = bt_tool u, ts_tags = tags_of (t_name (bt_tool u))\<rparr>)"
  obtain n ts where n: "t_name (bt_tool t) = lit n" "(n, ts) \<in> set tags" using assms(2,3) by (auto simp: tagged_tools_def)
  define R where "R = agent_registry base"
  define xs where "xs = reg_scored lower R [lit n]"
  have specs: "map snd R = map spec base" unfolding R_def spec_def by (rule agent_registry_specs [OF assms(2)])
  have kws: "keywords_of lower [lit n] = [lit n]"
    using assms(1) tag_chars(1,2) [OF n(2)] strip_name [of "lit n"] by (simp add: keywords_of_def lowers_def)
  have "xs = filter (\<lambda>(sc, s). 0 < sc) (map (\<lambda>s. (kw_score lower s (lit n), s)) (map snd R))"
    by (simp add: xs_def reg_scored_def spec_score_def comp_def split_def)
  then have scored: "y \<in> set xs \<longleftrightarrow> (\<exists>u \<in> set base. y = (kw_score lower (spec u) (lit n), spec u) \<and> 0 < kw_score lower (spec u) (lit n))" for y
    unfolding specs by auto
  have name: "spec_name (spec u) = t_name (bt_tool u)" for u by (simp add: spec_def spec_name_def)
  have own: "3 \<le> kw_score lower (spec t) (lit n)"
    using kw_score_own [OF assms(1), of "spec t"] tag_chars(2) [OF n(2)] by (simp add: name n(1))
  have others: "kw_score lower (spec u) (lit n) \<le> 1" if "u \<in> set base" "t_name (bt_tool u) \<noteq> lit n" for u
  proof -
    obtain m us where m: "t_name (bt_tool u) = lit m" "(m, us) \<in> set tags" using assms(2) \<open>u \<in> set base\<close> by (auto simp: tagged_tools_def)
    show ?thesis
      by (rule kw_score_other [OF assms(1) n(2) m(2)]) (use that m tags_of_tag [OF m(2)] in \<open>auto simp: name, simp add: spec_def\<close>)
  qed
  have same: "u = t" if "u \<in> set base" "t_name (bt_tool u) = lit n" for u
    using that assms(2,3) n(1) by (auto simp: tagged_tools_def distinct_map inj_on_def)
  define x where "x = (kw_score lower (spec t) (lit n), spec t)"
  have "x \<in> set xs" unfolding scored x_def using own assms(3) by (intro bexI [of _ t]) auto
  moreover have small: "y = x \<or> fst y \<le> 1" if "y \<in> set xs" for y
    using that others same unfolding scored x_def by fastforce
  moreover have "y = x \<or> rank_key x < rank_key y" if "y \<in> set xs" for y
    using small [OF that] own by (auto simp: rank_key_def x_def less_prod_def)
  ultimately obtain ys where ys: "sort_key rank_key xs = x # ys" using hd_sort_key by metis
  have "y \<in> set xs" if "y \<in> set ys" for y using arg_cong [OF ys, of set] that by simp
  moreover have "x \<notin> set ys"
  proof -
    have "distinct xs" using distinct_rank_keys [of R lower "[lit n]"] by (simp add: R_def agent_registry_def xs_def distinct_map)
    then have "distinct (sort_key rank_key xs)" by simp
    then show ?thesis unfolding ys by simp
  qed
  ultimately have "\<forall>g \<in> set (map hit_of (take 7 ys)). h_score g \<le> 1"
    using small by (auto simp: hit_of_def dest!: in_set_takeD)
  then show thesis
    using that [of "hit_of x" "map hit_of (take 7 ys)"] own
    by (simp add: find_tools_def reg_search_def kws n(1) ys py_take_def Let_def hit_of_def x_def spec_name_def spec_def flip: xs_def R_def)
qed

lemma agent_bases_tagged: "tagged_tools (orch_base sg mining eid dk)" "tagged_tools (sub_base sg mining eid)"
  by (simp_all add: tagged_tools_def orch_base_def sub_base_def deterministic_def tags_def)

text \<open>
  \<open>find_tools\<close> finds what an agent has.  Asked for the name of any tool bound to the orchestrator or to the rule
  auditor, other than \<open>find_tools\<close> itself, its first hit is that tool with its arguments, and no other hit scores
  more than one: the names and tags of the tools do not overlap.
\<close>

theorem find_tools_by_name:
  assumes "build_finding_agent E sg load mining eid dk language model = Inr (A, S)" and "T \<in> {A, S}"
    and "t \<in> set (ag_tools T)" and "t_name (bt_tool t) \<noteq> lit ''find_tools''" and "lowers lower"
  shows "\<exists>R h rest. ag_registry T = Some R \<and> fr_results (find_tools lower R (KwOne (t_name (bt_tool t))) 8) = h # rest
    \<and> h_name h = t_name (bt_tool t) \<and> h_args h = t_args (bt_tool t) \<and> 3 \<le> h_score h \<and> (\<forall>g \<in> set rest. h_score g \<le> 1)"
proof -
  have "(T = A \<and> t \<in> set (orch_base sg mining eid dk)) \<or> (T = S \<and> t \<in> set (sub_base sg mining eid))"
    using assms(2-4) by (auto simp: finding_agent_tools [OF assms(1)])
  then obtain base where base: "tagged_tools base" "ag_registry T = Some (agent_registry base)" "t \<in> set base"
    using agent_bases_tagged finding_agent_tools(3,4) [OF assms(1)] by blast
  show ?thesis by (rule find_by_name [OF assms(5) base(1,3)]) (use base(2) in blast)
qed

subsection \<open>The userdata tools\<close>

text \<open>What a list of the document types of a dossier is, on the rows: those of the live dossier of that key, newest first.\<close>

definition live_dossier :: "ustr \<Rightarrow> dossier_def \<Rightarrow> userdb \<Rightarrow> bool" where
  "live_dossier k d u \<longleftrightarrow> d \<in> set (dossiers u) \<and> dd_key d = k \<and> dd_deleted d = None"

definition document_types :: "ustr \<Rightarrow> userdb \<Rightarrow> document_def list \<Rightarrow> bool" where
  "document_types k u rows \<longleftrightarrow> (\<exists>d. live_dossier k d u \<and> mset rows = filter_mset (\<lambda>x. df_dossier_id x = dd_id d) (mset (docdefs u)))
     \<and> sorted_wrt (\<lambda>x y. df_created y < df_created x \<or> (df_created x = df_created y \<and> df_id x \<le> df_id y)) rows"

lemma get_dossier_cases:
  "(\<exists>d. live_dossier k d u \<and> get_dossier k (dossiers u) = Inr d) \<or> ((\<forall>d. \<not> live_dossier k d u) \<and> get_dossier k (dossiers u) = Inl NotFound)"
  by (auto simp: get_dossier_def live_dossier_def find_Some_iff find_None_iff split: option.split)

lemma list_documents_cases:
  "(\<exists>rows. document_types k u rows \<and> list_documents k u = Inr rows) \<or> ((\<forall>d. \<not> live_dossier k d u) \<and> list_documents k u = Inl NotFound)"
proof (cases "\<exists>d. live_dossier k d u")
  case True
  then obtain d where d: "live_dossier k d u" "get_dossier k (dossiers u) = Inr d" using get_dossier_cases [of k u] by blast
  let ?rows = "sort_key (\<lambda>d. (- df_created d, df_id d)) (filter (\<lambda>x. df_dossier_id x = dd_id d) (docdefs u))"
  have "sorted_wrt (\<lambda>x y. (- df_created x, df_id x) \<le> (- df_created y, df_id y)) ?rows"
    using sorted_sort_key [of "\<lambda>d. (- df_created d, df_id d)"] by (simp add: sorted_map)
  then have "document_types k u ?rows"
    using d(1) unfolding document_types_def by (intro conjI exI [of _ d]) (auto simp: elim: sorted_wrt_mono_rel [rotated])
  then show ?thesis using d(2) by (auto simp: list_documents_def dossier_id_of_def)
next
  case False
  then show ?thesis using get_dossier_cases [of k u] by (auto simp: list_documents_def dossier_id_of_def)
qed

lemma dossier_reads:
  obtains "\<forall>d. \<not> live_dossier k d u" "get_dossier k (dossiers u) = Inl NotFound"
  | d where "live_dossier k d u" "dd_key d = k" "get_dossier k (dossiers u) = Inr d" "\<forall>d. \<not> live_dossier k d v" "list_documents k v = Inl NotFound"
  | d rows where "live_dossier k d u" "dd_key d = k" "get_dossier k (dossiers u) = Inr d" "\<exists>d. live_dossier k d v" "document_types k v rows"
      "list_documents k v = Inr rows"
proof -
  have "dd_key d = k" if "live_dossier k d u" for d using that by (simp add: live_dossier_def)
  moreover have "\<exists>d. live_dossier k d v" if "document_types k v rows" for rows using that by (auto simp: document_types_def)
  ultimately show thesis using get_dossier_cases [of k u] list_documents_cases [of k v] that by metis
qed

text \<open>
  C35.  What the mining classifies pages with and what the auditor is told of a dossier.  Both read the dossier and then
  its document types, in two statements.  A dossier absent at the first is no dossier for the mining and an answer
  that names the key for the tool; deleted between the two, it makes both raise, so that the run fails and the tool does
  not answer.  Else the key and the name are those of the first read, and the items are exactly the document types of
  the live dossier at the second one, newest first, none of another dossier.  So the two lists agree, item by item,
  when the tables are the same at both second reads; edits between them show up in the tool only.
\<close>

theorem dossier_tool_matches_mining:
  assumes "k \<noteq> []"
  shows "(if \<forall>d. \<not> live_dossier k d u then resolve_dossier_spec (Some k) (u, v) = Inr None
      else if \<forall>d. \<not> live_dossier k d v then resolve_dossier_spec (Some k) (u, v) = Inl NotFound
      else \<exists>d rows. live_dossier k d u \<and> document_types k v rows
        \<and> resolve_dossier_spec (Some k) (u, v) = Inr (Some \<lparr>ds_key = k, ds_name = dd_name d,
            ds_items = map (\<lambda>x. \<lparr>di_key = df_key x, di_name = df_name x, di_description = df_description x, di_look_for = df_look_for x\<rparr>) rows\<rparr>))
    \<and> (if \<forall>d. \<not> live_dossier k d u' then get_dossier_spec_tool k u' v' = Inr (ToolError [k])
      else if \<forall>d. \<not> live_dossier k d v' then get_dossier_spec_tool k u' v' = Inl NotFound
      else \<exists>d rows. live_dossier k d u' \<and> document_types k v' rows
        \<and> get_dossier_spec_tool k u' v' = Inr (ToolOk \<lparr>dv_key = k, dv_name = dd_name d, dv_description = dd_description d,
            dv_documents = map (\<lambda>x. (df_key x, df_name x, df_description x, df_look_for x)) rows\<rparr>))
    \<and> (\<forall>spec view. resolve_dossier_spec (Some k) (u, v) = Inr (Some spec) \<and> get_dossier_spec_tool k u' v' = Inr (ToolOk view)
        \<and> dossiers v = dossiers v' \<and> docdefs v = docdefs v'
        \<longrightarrow> dv_documents view = map (\<lambda>i. (di_key i, di_name i, di_description i, di_look_for i)) (ds_items spec))"
proof (intro conjI)
  note defs = resolve_dossier_spec_def get_dossier_spec_tool_def
  show "if \<forall>d. \<not> live_dossier k d u then resolve_dossier_spec (Some k) (u, v) = Inr None
      else if \<forall>d. \<not> live_dossier k d v then resolve_dossier_spec (Some k) (u, v) = Inl NotFound
      else \<exists>d rows. live_dossier k d u \<and> document_types k v rows
        \<and> resolve_dossier_spec (Some k) (u, v) = Inr (Some \<lparr>ds_key = k, ds_name = dd_name d,
            ds_items = map (\<lambda>x. \<lparr>di_key = df_key x, di_name = df_name x, di_description = df_description x, di_look_for = df_look_for x\<rparr>) rows\<rparr>)"
    by (rule dossier_reads [where k = k and u = u and v = v]) (use assms in \<open>auto simp: defs\<close>)
  show "if \<forall>d. \<not> live_dossier k d u' then get_dossier_spec_tool k u' v' = Inr (ToolError [k])
      else if \<forall>d. \<not> live_dossier k d v' then get_dossier_spec_tool k u' v' = Inl NotFound
      else \<exists>d rows. live_dossier k d u' \<and> document_types k v' rows
        \<and> get_dossier_spec_tool k u' v' = Inr (ToolOk \<lparr>dv_key = k, dv_name = dd_name d, dv_description = dd_description d,
            dv_documents = map (\<lambda>x. (df_key x, df_name x, df_description x, df_look_for x)) rows\<rparr>)"
    by (rule dossier_reads [where k = k and u = u' and v = v']) (auto simp: defs)
  show "\<forall>spec view. resolve_dossier_spec (Some k) (u, v) = Inr (Some spec) \<and> get_dossier_spec_tool k u' v' = Inr (ToolOk view)
        \<and> dossiers v = dossiers v' \<and> docdefs v = docdefs v'
        \<longrightarrow> dv_documents view = map (\<lambda>i. (di_key i, di_name i, di_description i, di_look_for i)) (ds_items spec)"
    by (rule dossier_reads [where k = k and u = u and v = v]; rule dossier_reads [where k = k and u = u' and v = v'])
      (use assms in \<open>auto simp: defs list_documents_def dossier_id_of_def\<close>)
qed

text \<open>
  What a search returns can be read: for every result of \<open>search_knowledge\<close> the tool \<open>get_knowledge\<close> answers
  with an entry of that key, name and description, the entry is alive and similar enough to the query, and the hint
  lists exactly the keys of the results.
\<close>

theorem search_then_get:
  assumes "userdata_ok u" and "search_knowledge_tool sim query limit u = (found, hint)" and "(k, n, ds) \<in> set found" and "query \<noteq> []"
  shows "(\<exists>body. get_knowledge_tool k u = Inr (ToolOk \<lparr>kv_key_of = k, kv_name_of = n, kv_description_of = ds, kv_body_of = body\<rparr>)
        \<and> (\<exists>e \<in> set (knowledges u). kn_key e = k \<and> kn_deleted e = None \<and> kn_body e = body \<and> 3 / 10 \<le> sim query (haystack e)))
    \<and> hint = Some (map fst found) \<and> distinct (map fst found)"
proof -
  let ?rows = "sort_key (\<lambda>k. (- sim query (haystack k), - kn_created k, kn_id k))
    (filter (\<lambda>k. kn_deleted k = None \<and> 3 / 10 \<le> sim query (haystack k)) (knowledges u))"
  obtain l where l: "items (list_knowledge sim (Some query) (Some limit) 0 (knowledges u)) = take l ?rows"
    using assms(4) by (auto simp: list_knowledge_def page_of_items page_bounds_def Let_def)
  have r: "map (\<lambda>k. (kn_key k, kn_name k, kn_description k)) (take l ?rows) = found \<and> (if map fst found \<noteq> [] then Some (map fst found) else None) = hint"
    using assms(2) unfolding search_knowledge_tool_def l Let_def by (simp only: prod.inject) blast
  note res = conjunct1 [OF r, symmetric] and hint = conjunct2 [OF r]
  obtain e where e: "e \<in> set (take l ?rows)" "k = kn_key e" "n = kn_name e" "ds = kn_description e" using assms(3) res by auto
  then have live: "e \<in> set (knowledges u)" "kn_deleted e = None" "3 / 10 \<le> sim query (haystack e)" by (auto dest: in_set_takeD)
  have wf: "knowledge.wf (knowledges u)" using assms(1) by (simp add: userdata_ok_def)
  have "get_knowledge k (knowledges u) = Inr e" using knowledge.get_unique [OF wf live(1,2)] e(2) by simp
  moreover have "distinct (map fst found)"
  proof -
    have keys: "distinct (map kn_key (filter (\<lambda>k. kn_deleted k = None) (knowledges u)))" using wf by (simp add: knowledge.wf_def knowledge.live_def)
    have "distinct (map kn_key ?rows)"
      unfolding distinct_map by (intro conjI inj_on_subset [OF conjunct2 [OF keys [unfolded distinct_map]]])
        (use keys in \<open>auto simp: distinct_map distinct_filter simp flip: filter_filter\<close>)
    then show ?thesis using distinct_take [of "map kn_key ?rows" l] by (simp add: res comp_def take_map)
  qed
  ultimately show ?thesis using e(2-4) live assms(3) hint by (auto simp: get_knowledge_tool_def)
qed

subsection \<open>Witnesses\<close>

definition plain_signatures :: signatures where
  "plain_signatures = (\<lambda>_. (None, []))"

lemma plain_limiter: "\<exists>bs. agent_limiter plain_env = Inr bs"
proof -
  have none: "llm_env id (\<lambda>_. None) t f = None" for t f by (simp add: llm_env_def truthy_def)
  show ?thesis
    by (simp add: agent_limiter_def build_rate_limit_middleware_def resolve_rate_limit_def resolve_setting_def plain_env_def none)
qed

lemma plain_agents:
  obtains A S R V where "build_finding_agent plain_env plain_signatures (\<lambda>_. []) 4 5 (lit ''loan'') (lit ''English'') (Some ([], [])) = Inr (A, S)"
    "build_reflection_agent plain_env plain_signatures (\<lambda>_. []) 4 5 (lit ''English'') (Some ([], [])) = Inr R"
    "build_verdict_agent plain_env plain_signatures (\<lambda>_. []) 5 (lit ''loan'') 1 (lit ''English'') (Some ([], [])) = Inr V"
proof -
  obtain bs where "agent_limiter plain_env = Inr bs" using plain_limiter by blast
  then show thesis using that by (simp add: build_finding_agent_def build_reflection_agent_def build_verdict_agent_def agent_model_def Let_def)
qed

text \<open>The orchestrator tries to set a verdict, its subagent records a finding.\<close>

definition demo_calls :: "(bool \<times> audit_call) list" where
  "demo_calls = [(False, CallVerdict 1 (lit ''pass'') []), (True, CallRecord (1, 9) (lit ''fail'') (lit ''high'') (lit ''total'') None None)]"

theorem agents_confined_witness:
  "\<exists>A S R V. build_finding_agent plain_env plain_signatures (\<lambda>_. []) 4 5 (lit ''loan'') (lit ''English'') (Some ([], [])) = Inr (A, S)
    \<and> build_reflection_agent plain_env plain_signatures (\<lambda>_. []) 4 5 (lit ''English'') (Some ([], [])) = Inr R
    \<and> build_verdict_agent plain_env plain_signatures (\<lambda>_. []) 5 (lit ''loan'') 1 (lit ''English'') (Some ([], [])) = Inr V
    \<and> verdicts (fold (agent_call R) (map snd demo_calls) (fold (\<lambda>(sub, c). agent_call (if sub then S else A) c) demo_calls demo_audit_db))
        = verdicts demo_audit_db"
proof -
  obtain A S R V where b: "build_finding_agent plain_env plain_signatures (\<lambda>_. []) 4 5 (lit ''loan'') (lit ''English'') (Some ([], [])) = Inr (A, S)"
    "build_reflection_agent plain_env plain_signatures (\<lambda>_. []) 4 5 (lit ''English'') (Some ([], [])) = Inr R"
    "build_verdict_agent plain_env plain_signatures (\<lambda>_. []) 5 (lit ''loan'') 1 (lit ''English'') (Some ([], [])) = Inr V"
    by (rule plain_agents)
  show ?thesis using b agents_confined [OF b, of demo_calls demo_audit_db "map snd demo_calls"] by blast
qed

theorem find_tools_by_name_witness:
  "\<exists>A S t R h rest. build_finding_agent plain_env plain_signatures (\<lambda>_. []) 4 5 (lit ''loan'') (lit ''English'') (Some ([], [])) = Inr (A, S)
    \<and> ag_registry S = Some R \<and> fr_results (find_tools id R (KwOne (lit ''check_vat'')) 8) = h # rest \<and> h_name h = lit ''check_vat''"
proof -
  obtain A S where b: "build_finding_agent plain_env plain_signatures (\<lambda>_. []) 4 5 (lit ''loan'') (lit ''English'') (Some ([], [])) = Inr (A, S)"
    using plain_agents by metis
  have "mk_tool plain_signatures Pure ''check_vat'' \<in> set (ag_tools S)" by (simp add: finding_agent_tools [OF b] sub_base_def deterministic_def)
  from find_tools_by_name [OF b _ this, of id] b show ?thesis by (auto simp: lowers_def)
qed

text \<open>A document type is added after the mining has read; before the audit reads, the dossier is deleted.\<close>

definition demo_docdef :: document_def where
  "demo_docdef = \<lparr>df_id = 7, df_dossier_id = dd_id demo_dossier_row, df_key = lit ''invoice'', df_name = lit ''Invoice'', df_description = None,
     df_look_for = None, df_created = 3, df_updated = 3\<rparr>"

theorem dossier_tool_matches_mining_witness:
  "(\<exists>spec. resolve_dossier_spec (Some (dd_key demo_dossier_row)) (demo_userdb, demo_userdb) = Inr (Some spec) \<and> ds_items spec = [])
   \<and> (\<exists>view. get_dossier_spec_tool (dd_key demo_dossier_row) demo_userdb (demo_userdb\<lparr>docdefs := [demo_docdef]\<rparr>) = Inr (ToolOk view)
        \<and> dv_documents view = [(lit ''invoice'', lit ''Invoice'', None, None)])
   \<and> get_dossier_spec_tool (dd_key demo_dossier_row) demo_userdb empty_userdb = Inl NotFound"
proof -
  let ?k = "dd_key demo_dossier_row" and ?v = "demo_userdb\<lparr>docdefs := [demo_docdef]\<rparr>"
  have k: "?k \<noteq> []" by (simp add: demo_dossier_row_def lit_def)
  have live: "live_dossier ?k d demo_userdb \<longleftrightarrow> d = demo_dossier_row" "live_dossier ?k d ?v \<longleftrightarrow> d = demo_dossier_row"
    "\<not> live_dossier ?k d empty_userdb" for d
    by (auto simp: live_dossier_def demo_userdb_def empty_userdb_def demo_dossier_row_def)
  have types: "document_types ?k demo_userdb rows \<longleftrightarrow> rows = []" "document_types ?k ?v rows \<longleftrightarrow> rows = [demo_docdef]" for rows
    by (auto simp: document_types_def live) (auto simp: demo_userdb_def empty_userdb_def demo_docdef_def)
  show ?thesis
    using dossier_tool_matches_mining [OF k, of demo_userdb demo_userdb demo_userdb ?v]
      dossier_tool_matches_mining [OF k, of demo_userdb demo_userdb demo_userdb empty_userdb]
    by (auto simp: live types) (auto simp: demo_docdef_def)
qed

definition demo_knowledge :: knowledge where
  "demo_knowledge = \<lparr>kn_id = 1, kn_key = lit ''vat'', kn_name = lit ''VAT'', kn_description = None, kn_body = lit ''10'', kn_deleted = None,
     kn_created = 0, kn_updated = 0\<rparr>"

theorem search_then_get_witness:
  "\<exists>body. get_knowledge_tool (lit ''vat'') (empty_userdb\<lparr>knowledges := [demo_knowledge]\<rparr>)
      = Inr (ToolOk \<lparr>kv_key_of = lit ''vat'', kv_name_of = lit ''VAT'', kv_description_of = None, kv_body_of = body\<rparr>)"
proof -
  let ?u = "empty_userdb\<lparr>knowledges := [demo_knowledge]\<rparr>"
  have ok: "userdata_ok ?u"
    by (simp add: userdata_ok_def empty_userdb_def links_ok_def docdefs_ok_def dossier.wf_def dossier.live_def rule.wf_def rule.live_def knowledge.wf_def knowledge.live_def demo_knowledge_def)
  have s: "search_knowledge_tool (\<lambda>_ _. 1) (lit ''vat'') 10 ?u = ([(lit ''vat'', lit ''VAT'', None)], Some [lit ''vat''])"
    by (simp add: search_knowledge_tool_def list_knowledge_def page_of_items page_bounds_def demo_knowledge_def lit_def)
  show ?thesis using search_then_get [OF ok s, of "lit ''vat''" "lit ''VAT''" None] by (auto simp: lit_def)
qed

end
