(* ===== verification/Process.thy ===== *)
theory Process
  imports Monitor Kv
begin

section \<open>Processes: settings, start and end\<close>

text \<open>
  \<open>doci/postgres/config.py\<close>, \<open>doci/bootstrap.py\<close>, the worker events of \<open>doci/workflows/runtime.py\<close>, the lifespan of
  \<open>doci/api/app.py\<close>, \<open>commands/worker_mon.py\<close>, \<open>commands/worker.py\<close> and \<open>commands/all_in_one.py\<close>,
  \<open>doci/telemetry/runtime.py\<close>, and \<open>doci/workflows/tracing.py\<close>.  Starting and ending a process is a
  sequence of steps on the list of what is open; \<open>fails\<close> tells which steps raise.
\<close>

subsection \<open>PostgreSQL settings\<close>

record postgres_config =
  pc_dsn :: "ustr option"
  pc_host :: "ustr option"
  pc_port :: int
  pc_dbname :: ustr
  pc_user :: "ustr option"
  pc_password :: "ustr option"
  pc_sslmode :: ustr
  pc_connect_timeout :: int
  pc_application_name :: ustr
  pc_pool_min :: int
  pc_pool_max :: int
  pc_pool_timeout :: rat

definition postgres_config_from_env :: "unicode \<Rightarrow> (ustr \<Rightarrow> rat option) \<Rightarrow> environ \<Rightarrow> postgres_config option" where
  "postgres_config_from_env U flt env =
     (case (env_number U env ''PGPORT'' 5432, env_number U env ''PGCONNECT_TIMEOUT'' 10, env_number U env ''POSTGRES_POOL_MIN'' 1,
            env_number U env ''POSTGRES_POOL_MAX'' 10, case env (lit ''POSTGRES_POOL_TIMEOUT'') of None \<Rightarrow> flt (lit ''30'') | Some s \<Rightarrow> flt s) of
        (Some port, Some ct, Some lo, Some hi, Some t) \<Rightarrow>
          Some \<lparr>pc_dsn = (case truthy (env (lit ''DATABASE_URL'')) of None \<Rightarrow> env (lit ''POSTGRES_DSN'') | Some u \<Rightarrow> Some u),
                pc_host = env (lit ''PGHOST''), pc_port = port, pc_dbname = env_text env ''PGDATABASE'' ''postgres'',
                pc_user = env (lit ''PGUSER''), pc_password = env (lit ''PGPASSWORD''), pc_sslmode = env_text env ''PGSSLMODE'' ''require'',
                pc_connect_timeout = ct, pc_application_name = env_text env ''PGAPPNAME'' ''doci'', pc_pool_min = lo, pc_pool_max = hi,
                pc_pool_timeout = t\<rparr>
      | _ \<Rightarrow> None)"

definition conninfo :: "postgres_config \<Rightarrow> ustr" where
  "conninfo c = (case pc_dsn c of None \<Rightarrow> [] | Some d \<Rightarrow> d)"

definition connect_kwargs :: "postgres_config \<Rightarrow> (string \<times> kwarg) list" where
  "connect_kwargs c =
     (let common = [(''connect_timeout'', KwInt (pc_connect_timeout c)), (''application_name'', KwStr (pc_application_name c)),
                    (''prepare_threshold'', KwNone)]
      in case truthy (pc_dsn c) of
           Some _ \<Rightarrow> common
         | None \<Rightarrow> [(''host'', kw_opt (pc_host c)), (''port'', KwInt (pc_port c)), (''dbname'', KwStr (pc_dbname c)),
                    (''user'', kw_opt (pc_user c)), (''password'', kw_opt (pc_password c)), (''sslmode'', KwStr (pc_sslmode c))] @ common)"

subsection \<open>Worker settings\<close>

text \<open>The two lines a worker logs at its start; \<open>show\<close> prints a number, code points 215 and 8658 are a cross and an arrow.\<close>

definition concurrency_report :: "(int \<Rightarrow> ustr) \<Rightarrow> (rat \<Rightarrow> ustr) \<Rightarrow> int \<Rightarrow> int \<Rightarrow> int \<Rightarrow> rat \<Rightarrow> ustr \<times> ustr option" where
  "concurrency_report shw shf tasks fanout pool_max pool_timeout =
     (let needed = tasks * fanout;
          info = lit ''worker concurrency: tasks='' @ shw tasks @ lit '' '' @ [215] @ lit '' page_fanout='' @ shw fanout @ lit '' '' @ [8658]
            @ lit '' ~'' @ shw needed @ lit '' concurrent DB callers; pool_max='' @ shw pool_max @ lit '', pool_timeout='' @ shf pool_timeout @ lit ''s'';
          warning = lit ''POSTGRES_POOL_MAX='' @ shw pool_max @ lit '' is below the ~'' @ shw needed
            @ lit '' connections the page fan-out can demand (tasks '' @ shw tasks @ lit '' '' @ [215] @ lit '' page_concurrency '' @ shw fanout
            @ lit ''); surplus callers queue up to '' @ shf pool_timeout @ lit ''s then raise PoolTimeout. Raise POSTGRES_POOL_MAX toward ''
            @ shw needed @ lit ''.''
      in (info, if pool_max < needed then Some warning else None))"

definition worker_argv :: "(int \<Rightarrow> ustr) \<Rightarrow> taskiq_config \<Rightarrow> ustr list" where
  "worker_argv shw c =
     [lit ''worker'', lit ''doci.taskiq.broker:broker'', lit ''--workers'', shw (tq_workers c), lit ''--max-async-tasks'', shw (tq_max_async_tasks c)]
     @ (case tq_max_threadpool_threads c of None \<Rightarrow> [] | Some n \<Rightarrow> [lit ''--max-threadpool-threads'', shw n])"

subsection \<open>Steps\<close>

datatype resource = PgPool | S3Client | KvClient | Checkpointer | BrokerConn | LagProbe | MonitorClient | ScheduleSource | Providers

datatype step = Check string | Acquire resource | Release resource

text \<open>Steps run until one raises: whether one did, and what is open then.\<close>

fun run_steps :: "(step \<Rightarrow> bool) \<Rightarrow> step list \<Rightarrow> resource list \<Rightarrow> bool \<times> resource list" where
  "run_steps fails [] R = (False, R)"
| "run_steps fails (s # ss) R =
     (if fails s then (True, R)
      else run_steps fails ss (case s of Check _ \<Rightarrow> R | Acquire r \<Rightarrow> R @ [r] | Release r \<Rightarrow> remove1 r R))"

definition build_clients_steps :: "step list" where
  "build_clients_steps = [Check ''PostgresConfig.from_env'', Check ''ObjStoreConfig.from_env'', Acquire S3Client, Check ''KVConfig.from_env'',
     Acquire KvClient, Check ''MediaConfig.from_env'']"

definition close_clients_steps :: "step list" where
  "close_clients_steps = [Release KvClient, Release S3Client, Release PgPool]"

text \<open>An \<open>asynccontextmanager\<close>: the steps before \<open>try\<close>, the body, the steps of \<open>finally\<close>.\<close>

definition lifespan :: "step list \<Rightarrow> step list \<Rightarrow> (step \<Rightarrow> bool) \<Rightarrow> bool \<Rightarrow> resource list \<Rightarrow> bool \<times> resource list" where
  "lifespan up down fails body_raises R =
     (case run_steps fails up R of
        (True, R1) \<Rightarrow> (True, R1)
      | (False, R1) \<Rightarrow> (case run_steps fails down R1 of (raised, R2) \<Rightarrow> (body_raises \<or> raised, R2)))"

subsection \<open>The API\<close>

definition api_up :: "step list" where
  "api_up = build_clients_steps @ [Acquire PgPool, Acquire BrokerConn, Acquire LagProbe]"

definition api_down :: "step list" where
  "api_down = [Release LagProbe, Release BrokerConn] @ close_clients_steps @ [Release Providers]"

definition api_lifespan :: "(step \<Rightarrow> bool) \<Rightarrow> bool \<Rightarrow> resource list \<Rightarrow> bool \<times> resource list" where
  "api_lifespan = lifespan api_up api_down"

subsection \<open>The task monitor\<close>

definition mon_up :: "bool \<Rightarrow> step list" where
  "mon_up manage_broker = [Check ''TaskiqConfig.from_env'', Acquire MonitorClient, Acquire ScheduleSource]
     @ (if manage_broker then [Acquire BrokerConn] else [])"

definition mon_down :: "bool \<Rightarrow> step list" where
  "mon_down manage_broker = (if manage_broker then [Release BrokerConn] else []) @ [Release ScheduleSource, Release MonitorClient]"

definition mon_lifespan :: "bool \<Rightarrow> (step \<Rightarrow> bool) \<Rightarrow> bool \<Rightarrow> resource list \<Rightarrow> bool \<times> resource list" where
  "mon_lifespan manage_broker = lifespan (mon_up manage_broker) (mon_down manage_broker)"

subsection \<open>The worker\<close>

text \<open>The clients and the saver are stashed on the broker state; the shutdown event closes what it finds there.\<close>

record worker_state =
  wk_open :: "resource list"
  wk_clients :: bool
  wk_saver :: bool

definition worker_startup :: "(step \<Rightarrow> bool) \<Rightarrow> worker_state \<Rightarrow> bool \<times> worker_state" where
  "worker_startup fails st =
     (case run_steps fails (build_clients_steps @ [Acquire PgPool, Check ''TaskiqConfig.from_env'', Check ''PostgresConfig.from_env'']) (wk_open st) of
        (True, R) \<Rightarrow> (True, st\<lparr>wk_open := R\<rparr>)
      | (False, R) \<Rightarrow> (case run_steps fails [Acquire Checkpointer] R of
          (True, R') \<Rightarrow> (True, st\<lparr>wk_open := R', wk_clients := True\<rparr>)
        | (False, R') \<Rightarrow> (False, st\<lparr>wk_open := R', wk_clients := True, wk_saver := True\<rparr>)))"

definition worker_shutdown :: "(step \<Rightarrow> bool) \<Rightarrow> worker_state \<Rightarrow> bool \<times> worker_state" where
  "worker_shutdown fails st =
     (case run_steps fails ((if wk_clients st then close_clients_steps else []) @ (if wk_saver st then [Release Checkpointer] else [])) (wk_open st) of
        (raised, R) \<Rightarrow> (raised, st\<lparr>wk_open := R\<rparr>))"

subsection \<open>Event loop metrics\<close>

text \<open>The module globals: the loop bound, and the probe task with whether it is done.\<close>

record probe_state =
  ps_loop :: "nat option"
  ps_probe :: "(nat \<times> bool) option"

definition start_asyncio_metrics :: "nat \<Rightarrow> nat \<Rightarrow> probe_state \<Rightarrow> probe_state" where
  "start_asyncio_metrics loop fresh st =
     st\<lparr>ps_loop := Some loop, ps_probe := (case ps_probe st of Some (i, False) \<Rightarrow> Some (i, False) | _ \<Rightarrow> Some (fresh, False))\<rparr>"

text \<open>The second component is the task that is cancelled and awaited.\<close>

definition stop_asyncio_metrics :: "probe_state \<Rightarrow> probe_state \<times> nat option" where
  "stop_asyncio_metrics st =
     (\<lparr>ps_loop = None, ps_probe = None\<rparr>, case ps_probe st of Some (i, False) \<Rightarrow> Some i | _ \<Rightarrow> None)"

definition observe_asyncio_tasks :: "(nat \<Rightarrow> bool) \<Rightarrow> (nat \<Rightarrow> nat option) \<Rightarrow> probe_state \<Rightarrow> nat list" where
  "observe_asyncio_tasks is_closed all_tasks st =
     (case ps_loop st of None \<Rightarrow> []
      | Some l \<Rightarrow> if is_closed l then [] else (case all_tasks l of None \<Rightarrow> [] | Some n \<Rightarrow> [n]))"

text \<open>One sample of the lag probe, in milliseconds.\<close>

definition lag_sample :: "rat \<Rightarrow> rat \<Rightarrow> rat \<Rightarrow> rat" where
  "lag_sample interval start now = b64 (max 0 (b64 (b64 (now - start) - interval)) * 1000)"

subsection \<open>All in one process\<close>

text \<open>
  The four tasks; how a task ends when nobody stops it before \<open>asyncio.wait\<close> returns, and how it ends once it
  is asked to stop.  The signals are sent in this order.
\<close>

datatype part_task = ReceiverTask | ServerTask | MonitorTask | SchedulerTask

datatype task_result = Finished | Failed ustr | WasCancelled

datatype signal = StopServer | StopMonitor | FinishReceiver | CancelScheduler

definition serve_tasks :: "part_task list" where
  "serve_tasks = [ReceiverTask, ServerTask, MonitorTask, SchedulerTask]"

definition stop_signals :: "signal list" where
  "stop_signals = [StopServer, StopMonitor, FinishReceiver, CancelScheduler]"

fun first_failure :: "(part_task \<Rightarrow> task_result) \<Rightarrow> part_task list \<Rightarrow> ustr option" where
  "first_failure ends [] = None"
| "first_failure ends (t # ts) = (case ends t of Failed e \<Rightarrow> Some e | _ \<Rightarrow> first_failure ends ts)"

text \<open>\<open>None\<close>: every task still runs, so \<open>asyncio.wait\<close> does not return.  Otherwise the signals and the exception raised.\<close>

definition serve :: "(part_task \<Rightarrow> task_result option) \<Rightarrow> (part_task \<Rightarrow> task_result) \<Rightarrow> (signal list \<times> ustr option) option" where
  "serve done stopped =
     (if list_all (\<lambda>t. done t = None) serve_tasks then None
      else Some (stop_signals, first_failure (\<lambda>t. case done t of Some e \<Rightarrow> e | None \<Rightarrow> stopped t) serve_tasks))"

subsection \<open>Nested runs\<close>

text \<open>The configuration of a nested graph run; \<open>merge\<close> is \<open>merge_configs\<close> of LangChain.\<close>

record 'm run_config =
  rn_thread :: ustr
  rn_name :: "ustr option"
  rn_tags :: "ustr list option"
  rn_metadata :: "'m option"
  rn_recursion_limit :: "int option"

definition child_config ::
  "('c option \<Rightarrow> 'm run_config \<Rightarrow> 'c) \<Rightarrow> ('m \<Rightarrow> bool) \<Rightarrow> 'c option \<Rightarrow> ustr \<Rightarrow> ustr option \<Rightarrow> ustr list option \<Rightarrow> 'm option \<Rightarrow> int option \<Rightarrow> 'c" where
  "child_config merge nonempty parent thread_id run_name tgs metadata recursion_limit =
     merge parent \<lparr>rn_thread = thread_id, rn_name = truthy run_name,
       rn_tags = (case tgs of None \<Rightarrow> None | Some ts \<Rightarrow> if ts = [] then None else Some ts),
       rn_metadata = (case metadata of None \<Rightarrow> None | Some m \<Rightarrow> if nonempty m then Some m else None),
       rn_recursion_limit = recursion_limit\<rparr>"

subsection \<open>Releasing what was opened\<close>

fun step_effect :: "step \<Rightarrow> resource list \<Rightarrow> resource list" where
  "step_effect (Check _) R = R"
| "step_effect (Acquire r) R = R @ [r]"
| "step_effect (Release r) R = remove1 r R"

definition acquired :: "step list \<Rightarrow> resource list" where
  "acquired ss = List.map_filter (\<lambda>s. case s of Acquire r \<Rightarrow> Some r | _ \<Rightarrow> None) ss"

lemma run_steps_exact: "run_steps fails ss R = (\<exists>s \<in> set ss. fails s, fold step_effect (takeWhile (\<lambda>s. \<not> fails s) ss) R)"
proof (induction ss arbitrary: R)
  case (Cons s ss)
  have e: "(case s of Check _ \<Rightarrow> R | Acquire r \<Rightarrow> R @ [r] | Release r \<Rightarrow> remove1 r R) = step_effect s R" by (cases s) simp_all
  show ?case using Cons by (auto simp: e)
qed simp

lemma takeWhile_releases: "(\<And>r. \<not> fails (Release r)) \<Longrightarrow> \<forall>s \<in> set ss. \<exists>r. s = Release r \<Longrightarrow> takeWhile (\<lambda>s. \<not> fails s) ss = ss"
  by (auto simp: takeWhile_eq_all_conv)

lemma fold_acquire: "\<forall>s \<in> set ss. \<forall>r. s \<noteq> Release r \<Longrightarrow> fold step_effect ss R = R @ acquired ss"
proof (induction ss arbitrary: R)
  case (Cons s ss)
  then show ?case by (cases s) (simp_all add: acquired_def List.map_filter_simps)
qed (simp add: acquired_def List.map_filter_simps)

text \<open>A process that acquires on the way up and whose way down gives back all of it.\<close>

locale lifecycle =
  fixes up down :: "step list" and base :: "resource list"
  assumes up_acquires: "\<forall>s \<in> set up. \<forall>r. s \<noteq> Release r"
    and down_releases: "\<forall>s \<in> set down. \<exists>r. s = Release r"
    and balanced: "fold step_effect down (base @ acquired up) = []"
begin

lemma up_run: "run_steps fails up base = (\<exists>s \<in> set up. fails s, base @ acquired (takeWhile (\<lambda>s. \<not> fails s) up))"
proof -
  have "\<forall>s \<in> set (takeWhile (\<lambda>s. \<not> fails s) up). \<forall>r. s \<noteq> Release r" using up_acquires by (auto dest: set_takeWhileD)
  then show ?thesis by (simp add: run_steps_exact fold_acquire)
qed

lemma down_run: "(\<And>r. \<not> fails (Release r)) \<Longrightarrow> run_steps fails down (base @ acquired up) = (False, [])"
  using down_releases balanced by (auto simp: run_steps_exact takeWhile_releases)

lemma lifespan_exact:
  assumes "\<And>r. \<not> fails (Release r)"
  shows "lifespan up down fails body base =
    (if \<exists>s \<in> set up. fails s then (True, base @ acquired (takeWhile (\<lambda>s. \<not> fails s) up)) else (body, []))"
proof (cases "\<exists>s \<in> set up. fails s")
  case True
  then show ?thesis by (simp add: lifespan_def up_run)
next
  case False
  then have up: "takeWhile (\<lambda>s. \<not> fails s) up = up" by (auto simp: takeWhile_eq_all_conv)
  show ?thesis using False down_run [of fails, OF assms] by (simp add: lifespan_def up_run up del: bex_simps)
qed

end

interpretation api: lifecycle api_up api_down "[Providers]"
  by unfold_locales (auto simp: api_up_def api_down_def build_clients_steps_def close_clients_steps_def acquired_def List.map_filter_simps)

interpretation mon: lifecycle "mon_up m" "mon_down m" "[]" for m
  by unfold_locales (auto simp: mon_up_def mon_down_def acquired_def List.map_filter_simps)

definition worker_early :: "step list" where
  "worker_early = build_clients_steps @ [Acquire PgPool, Check ''TaskiqConfig.from_env'', Check ''PostgresConfig.from_env'']"

interpretation worker: lifecycle "worker_early @ [Acquire Checkpointer]" "close_clients_steps @ [Release Checkpointer]" "[]"
  by unfold_locales (auto simp: worker_early_def build_clients_steps_def close_clients_steps_def acquired_def List.map_filter_simps)

definition worker_new :: worker_state where
  "worker_new = \<lparr>wk_open = [], wk_clients = False, wk_saver = False\<rparr>"

lemma worker_lifecycle:
  assumes "\<And>r. \<not> fails (Release r)"
  shows "wk_open (snd (worker_shutdown fails (snd (worker_startup fails worker_new))))
    = (if \<exists>s \<in> set worker_early. fails s then acquired (takeWhile (\<lambda>s. \<not> fails s) worker_early) else [])"
proof -
  have early: "run_steps fails worker_early [] = (\<exists>s \<in> set worker_early. fails s, acquired (takeWhile (\<lambda>s. \<not> fails s) worker_early))"
    using fold_acquire [of "takeWhile (\<lambda>s. \<not> fails s) worker_early" "[]"] worker.up_acquires
    by (auto simp: run_steps_exact dest: set_takeWhileD)
  have rel: "\<not> fails (Release r)" for r by (rule assms)
  show ?thesis
  proof (cases "\<exists>s \<in> set worker_early. fails s")
    case True
    then show ?thesis using early by (simp add: worker_startup_def worker_shutdown_def worker_new_def worker_early_def)
  next
    case False
    then have "acquired (takeWhile (\<lambda>s. \<not> fails s) worker_early) = [S3Client, KvClient, PgPool]"
      by (simp add: worker_early_def build_clients_steps_def acquired_def List.map_filter_simps)
    then show ?thesis using early False rel
      by (simp add: worker_startup_def worker_shutdown_def worker_new_def close_clients_steps_def flip: worker_early_def)
  qed
qed

text \<open>
  What the processes leave open.  While closing does not raise: the API and the task monitor end with everything
  they opened closed, whatever their body does, and a worker that came up closes everything at its shutdown; but a
  process that fails while it starts leaves open what it had opened by then, the connection pool included, since its
  clean-up is reached only after a complete start (a worker whose saver cannot be built still closes its clients).
\<close>

theorem processes_release:
  assumes "\<And>r. \<not> fails (Release r)"
  shows "api_lifespan fails body [Providers]
      = (if \<exists>s \<in> set api_up. fails s then (True, Providers # acquired (takeWhile (\<lambda>s. \<not> fails s) api_up)) else (body, []))
    \<and> mon_lifespan manage fails body []
      = (if \<exists>s \<in> set (mon_up manage). fails s then (True, acquired (takeWhile (\<lambda>s. \<not> fails s) (mon_up manage))) else (body, []))
    \<and> wk_open (snd (worker_shutdown fails (snd (worker_startup fails worker_new))))
      = (if \<exists>s \<in> set worker_early. fails s then acquired (takeWhile (\<lambda>s. \<not> fails s) worker_early) else [])"
  using api.lifespan_exact [of fails body, OF assms] mon.lifespan_exact [of fails manage body, OF assms] worker_lifecycle [of fails, OF assms]
  by (simp add: api_lifespan_def mon_lifespan_def)

text \<open>The broker cannot be reached: the API leaves its pool open.\<close>

theorem processes_release_witness:
  "api_lifespan (\<lambda>s. s = Acquire BrokerConn) False [Providers] = (True, [Providers, S3Client, KvClient, PgPool])"
  using processes_release [of "\<lambda>s. s = Acquire BrokerConn" False False]
  by (simp add: api_up_def build_clients_steps_def acquired_def List.map_filter_simps)

end
