(* ===== verification/Spec2Isabelle.thy ===== *)
theory Spec2Isabelle
  imports Bucket Dates Registry Mining Checkpoint Caching Monitor Ops Telemetry Llm Names Objects Agents Process
begin

text \<open>
  A model of doci (\<open>src/doci\<close>, \<open>src/commands\<close>), a service that takes in documents, mines their pages with
  language models, and audits the mined dossier.

  \<^bold>\<open>The program.\<close>  An HTTP API (\<open>api/app.py\<close>) over PostgreSQL, an S3 object store and Valkey.  A client asks for
  an upload (\<open>documents/\<close>), puts the object with a presigned URL (\<open>media/\<close>, \<open>objstore/\<close>) and submits a workflow
  (\<open>workflows/router.py\<close>).  A task queue (\<open>taskiq/\<close>) hands the run to a worker, which executes a LangGraph graph
  (\<open>workflows/langgraph_document_mining*\<close>): it finalizes the upload, splits a PDF into pages, extracts, annotates and
  renders each of them (\<open>activities/\<close>), stores the results (\<open>results/\<close>), with checkpoints in Valkey
  (\<open>workflows/checkpoint.py\<close>), and ends the row of the execution (\<open>workflows/service.py\<close>).  With a dossier
  (\<open>userdata/\<close>) it starts an audit (\<open>workflows/langgraph_audit\<close>): agents (\<open>agents/\<close>) that investigate with tools
  (\<open>tools/\<close>), reconcile their findings and set a verdict (\<open>audit/\<close>).  Model calls of a fleet share one token bucket
  (\<open>llm/ratelimit.py\<close>).  Hourly and daily tasks (\<open>scheduler/\<close>) remove invalid uploads and purge deleted blobs.

  \<^bold>\<open>The theories\<close>, each of which opens with the files it models.
  \<^item> Shared: \<open>Prelude\<close> (strings, rows, pages, JSON-free basics), \<open>Tables\<close> (two table disciplines as locales),
    \<open>Store\<close> (the tables and their constraints, the world of database and objects), \<open>Valkey\<close> (the commands used, with
    expiry), \<open>Base64\<close>.
  \<^item> Tools without state: \<open>Money\<close>, \<open>Dates\<close>, \<open>Names\<close>, \<open>Registry\<close>.
  \<^item> Files and documents: \<open>Mime\<close>, \<open>Media\<close>, \<open>Documents\<close>, \<open>Objects\<close>.
  \<^item> User data: \<open>Userdata\<close>.
  \<^item> Workflows: \<open>Blobs\<close> (the versioned JSON columns), \<open>Runs\<close> (executions), \<open>Results\<close>, \<open>Pages\<close> and \<open>Annotate\<close> (the
    activities), \<open>Mining\<close> (graphs and tasks), \<open>Audits\<close>, \<open>Agents\<close>, \<open>Checkpoint\<close>.
  \<^item> Infrastructure: \<open>Bucket\<close> (rate limiter), \<open>Llm\<close>, \<open>Kv\<close>, \<open>Caching\<close>, \<open>Monitor\<close> (task queue), \<open>Telemetry\<close>, \<open>Ops\<close>
    (health, internal guard, maintenance), \<open>Process\<close> (start and end of the processes).

  \<^bold>\<open>State and operations.\<close>  A table is the list of its rows, a statement or transaction a function on the database
  record \<open>db\<close> or \<open>userdb\<close>, a service method their composition; where other clients can act between two statements
  the method takes what they do as an argument (\<open>race\<close>, \<open>others\<close>, \<open>ops\<close>) or runs its parts on different states, as the two
  reads of a dossier do.  A task's reads of its latest checkpoint may raise (\<open>saver_reads\<close>), and so may the stream of an
  uploaded object (\<open>object_stream\<close>).  A cache operation that sends a command is also modelled as the part before the
  reply and the part after it (\<open>begin_op\<close>, \<open>end_op\<close>), for operations of one process that overlap.  The
  \<open>world\<close> adds the objects.  Redis hashes, the cache, the monitor's records and the token bucket are their own states.
  Exceptions are \<open>Inl\<close> values or \<open>None\<close>; a tool answers \<open>ToolOk\<close> or \<open>ToolError\<close>.  Clock readings, fresh ids and what a model
  answers are arguments.

  \<^bold>\<open>What the lemmas show.\<close>
  \<^item> Interfaces: \<open>keyed_upsert\<close> and \<open>soft_table\<close>, interpreted on the tables of every service; \<open>object_store\<close>, interpreted on
    the world of the media service and on the S3 client, from which the client is seen to refine the world;
    \<open>ephemeral_store\<close>, interpreted on the cache; \<open>lifecycle\<close>, interpreted on the API, the monitor and the worker.
  \<^item> Invariants of reachable states: \<open>ud_reachable\<close> for the four routers of user data, \<open>doc_reachable\<close> for documents, with
    the schema, ownership of blobs and isolation of deletion; \<open>fleet\<close> for caches shared by processes.
  \<^item> Runs: every mining task and audit leaves its execution succeeded or failed as it returns, and exactly when the checkpointer
    fails in the handlers the row stays running; a retry starts clean; splitting is repeatable; the toolsets of the agents confine them to their phases; the environment switch rules
    reflection out.
  \<^item> Queue and Valkey: monitor records read back as an abstract board under any sequence of events; checkpoints are durable;
    the breaker bounds the commands of an outage by the operations that overlap; the fleet stays within the token budget, up
    to what calls cost beyond their reservations; \<open>acquire\<close> returns when other workers leave it the refill, and may starve.
  \<^item> Round trips and equivalences: JSON blobs, dates, amounts, Base64, type detection against a declarative specification,
    the similarity score against equality of the normalised names, metrics against what was recorded.
  \<^item> Behaviours that look unintended are theorems too: a refused audit job fails a run that had succeeded, a retry of a rejected
    upload succeeds, a failing checkpointer leaves runs running, a late submitter overwrites metadata or the monitor, an
    oversized model call is under-charged, names in another script match, a dossier deleted between two reads makes a tool and a
    mining run fail.

  \<^bold>\<open>Bounds and fuel.\<close>  Only \<open>acquire_loop\<close> of \<open>Bucket\<close> takes fuel; \<open>None\<close> is a loop that still waits, and the theorem on its return
  gives a number of rounds that suffices, and says when none does.  Every other loop is structural or has a measure.  Python integers are \<open>int\<close>,
  bytes are 8-bit words, floats are rationals rounded to 53 bits after each operation with an unbounded exponent, except in
  \<open>Bucket\<close> and \<open>Userdata\<close>, where they are exact.

  \<^bold>\<open>Arguments of the model.\<close>  PostgreSQL's trigram similarity, PyMuPDF, zip and JSON readers, the serializer of LangGraph, request
  signing, Unicode tables, chat models, taskiq's hook order, LangChain's \<open>merge_configs\<close> and tool signatures; hypotheses on them
  (such as \<open>unicode_ok\<close>, \<open>lowers\<close>) state their documented behaviour and are discharged in the witnesses.  Redis, S3 and SQL statements
  are modelled by their documented meaning.

  \<^bold>\<open>Not modelled.\<close>  Spans and instrument creation (OpenTelemetry calls without effect on results); \<open>postgres/client.py\<close> (pass-through
  to psycopg and its pool; statements are modelled where they are issued) and waiting for a pooled connection; FastAPI's
  routing and validation beyond the bounds the handlers declare; errors of the database itself (a statement answers), such as
  PostgreSQL's refusal of NUL characters in JSON when a result is saved; the two branches of the image graph, which the model runs one
  after the other, in parallel; that two uploads of one document are validated at the same time; the deepagents and LangGraph runtimes, whose runs are sequences of
  the modelled calls; the \<open>listen\<close> generator of the broker; the prompt files; \<open>save_result_to_disk.py\<close>, which nothing uses;
  entry points that only call uvicorn or taskiq.
\<close>

end
